(* ===== verification/Prelude.thy ===== *)
theory Prelude
  imports
    Main
    "HOL-Library.Word"
    "HOL-Library.Char_ord"
    "HOL-Library.List_Lexorder"
    "HOL-Library.Sublist"
begin

text \<open>
  Shared vocabulary of the development: Go byte slices and strings, big-endian integers,
  the errors a Go function returns, and the generic facts on lists and byte order that the
  component theories use.

  A Go \<open>string\<close> is a sequence of bytes, as a \<open>[]byte\<close> is. Both are modelled by HOL's
  \<open>char list\<close> (a \<open>char\<close> is one byte), compared by the lexicographic order of
  \<open>List_Lexorder\<close> over the byte order of \<open>Char_ord\<close>, which is what
  \<open>bytes.Compare\<close>, \<open>strings.Compare\<close> and BadgerDB's key order are.
\<close>

unbundle bit_operations_syntax

named_theorems bytes_simps \<open>evaluation of byte-level encoders\<close>
named_theorems key_simps \<open>unfolding of the key encoder\<close>

type_synonym bytes = "char list"
type_synonym u32 = "32 word"
type_synonym u64 = "64 word"

text \<open>
  Errors as values: the sentinel errors of the packages, the text of an \<open>errors.New\<close> or
  \<open>fmt.Errorf\<close> (its constant part), an error that code outside the repository returned,
  the two end-of-input errors of package \<open>io\<close>, and \<open>*ExecError\<close> with its SQLSTATE.
\<close>

datatype go_error =
    ErrKeyNotFound
  | ErrTxnDone
  | ErrWriteConflict
  | ErrBranchExists
  | ErrNoSuchBranch
  | ErrCannotModifyMain
  | ErrMsg string
  | ErrIO string
  | ErrEOF
  | ErrUnexpectedEOF
  | ExecError string

type_synonym 'a res = "go_error + 'a"

subsection \<open>Big-endian integers\<close>

fun be :: "nat \<Rightarrow> nat \<Rightarrow> bytes" where
  "be 0 k = []"
| "be (Suc n) k = be n (k div 256) @ [char_of (k mod 256)]"

definition unbe :: "bytes \<Rightarrow> nat" where
  "unbe bs = foldl (\<lambda>a c. a * 256 + of_char c) 0 bs"

lemma length_be [simp]: "length (be n k) = n"
  by (induction n arbitrary: k) auto

lemma unbe_Nil [simp]: "unbe [] = 0"
  by (simp add: unbe_def)

lemma unbe_snoc [simp]: "unbe (bs @ [c]) = unbe bs * 256 + of_char c"
  by (simp add: unbe_def)

lemma unbe_be [simp]: "unbe (be n k) = k mod 256 ^ n"
proof (induction n arbitrary: k)
  case (Suc n)
  have "k mod 256 ^ Suc n = (k div 256) mod 256 ^ n * 256 + k mod 256"
    by (simp add: mod_mult2_eq mult.commute)
  with Suc show ?case by simp
qed simp

lemma of_char_less: "of_char c < (256 :: nat)"
proof -
  have "of_char c = (of_char c mod 256 :: nat)"
    by (metis char_of_mod_256 of_char_mod_256 of_char_of)
  then show ?thesis by simp
qed

lemma be_unbe: "be (length bs) (unbe bs) = bs"
proof (induction bs rule: rev_induct)
  case (snoc c bs)
  have "(unbe bs * 256 + of_char c) div 256 = unbe bs"
    using of_char_less [of c] by simp
  moreover have "char_of ((unbe bs * 256 + of_char c) mod 256 :: nat) = c"
    using of_char_less [of c] by simp
  ultimately show ?case using snoc by simp
qed simp


lemma be_Nil_iff [simp]: "be n k = [] \<longleftrightarrow> n = 0"
  by (metis length_0_conv length_be)

lemma be_inj: "be n j = be n k \<Longrightarrow> j mod 256 ^ n = k mod 256 ^ n"
  by (metis unbe_be)

lemma unbe_less: "unbe bs < 256 ^ length bs"
  by (metis be_unbe mod_less_divisor unbe_be zero_less_numeral zero_less_power)

subsection \<open>Association lists\<close>

lemma map_of_rev_distinct: "distinct (map fst xs) \<Longrightarrow> map_of (rev xs) = map_of xs"
  by (simp add: map_of_inject_set rev_map [symmetric])

subsection \<open>Package strings, on ASCII text\<close>

text \<open>
  \<open>strings.ToLower\<close>, \<open>ToUpper\<close>, \<open>EqualFold\<close> and \<open>TrimSpace\<close> are
  Unicode-aware in Go. The model is their behaviour on ASCII text: a byte from 0x80 up is left
  as it is and is never white space. SQL keywords, GUC names and role names are ASCII.
\<close>

definition ascii_lower :: "char \<Rightarrow> char" where
  "ascii_lower c = (if CHR ''A'' \<le> c \<and> c \<le> CHR ''Z'' then char_of (of_char c + 32 :: nat) else c)"

definition ascii_upper :: "char \<Rightarrow> char" where
  "ascii_upper c = (if CHR ''a'' \<le> c \<and> c \<le> CHR ''z'' then char_of (of_char c - 32 :: nat) else c)"

definition is_space :: "char \<Rightarrow> bool" where
  "is_space c \<longleftrightarrow> c \<in> {CHR '' '', CHR 0x09, CHR 0x0A, CHR 0x0B, CHR 0x0C, CHR 0x0D}"

definition toLower :: "string \<Rightarrow> string" where
  "toLower s = map ascii_lower s"

definition toUpper :: "string \<Rightarrow> string" where
  "toUpper s = map ascii_upper s"

definition equalFold :: "string \<Rightarrow> string \<Rightarrow> bool" where
  "equalFold a b \<longleftrightarrow> toLower a = toLower b"

definition trimSpace :: "string \<Rightarrow> string" where
  "trimSpace s = rev (dropWhile is_space (rev (dropWhile is_space s)))"

definition hasPrefix :: "string \<Rightarrow> string \<Rightarrow> bool" where
  "hasPrefix s p \<longleftrightarrow> take (length p) s = p"

lemma hasPrefix_iff: "hasPrefix s p \<longleftrightarrow> prefix p s"
  by (metis append_eq_conv_conj append_take_drop_id hasPrefix_def prefixE prefixI)

lemma equalFold_refl [simp]: "equalFold a a"
  by (simp add: equalFold_def)

lemma equalFold_sym: "equalFold a b \<Longrightarrow> equalFold b a"
  by (simp add: equalFold_def)

lemma equalFold_trans: "equalFold a b \<Longrightarrow> equalFold b c \<Longrightarrow> equalFold a c"
  by (simp add: equalFold_def)

subsection \<open>Computations on a state that may fail\<close>

text \<open>
  A method that changes an object and returns a result or an error. An error keeps the changes made before it.
\<close>

type_synonym ('s, 'a) sm = "'s \<Rightarrow> 's \<times> 'a res"

definition ret :: "'a \<Rightarrow> ('s, 'a) sm" where
  "ret x s = (s, Inr x)"

definition lift :: "'a res \<Rightarrow> ('s, 'a) sm" where
  "lift r s = (s, r)"

abbreviation fail :: "go_error \<Rightarrow> ('s, 'a) sm" where
  "fail e \<equiv> lift (Inl e)"

definition bind_ex :: "('s, 'a) sm \<Rightarrow> ('a \<Rightarrow> ('s, 'b) sm) \<Rightarrow> ('s, 'b) sm" where
  "bind_ex m k s = (case m s of (s', Inl e) \<Rightarrow> (s', Inl e) | (s', Inr x) \<Rightarrow> k x s')"

primrec map_ex :: "('a \<Rightarrow> ('s, 'b) sm) \<Rightarrow> 'a list \<Rightarrow> ('s, 'b list) sm" where
  "map_ex f [] = ret []"
| "map_ex f (x # xs) = bind_ex (f x) (\<lambda>y. bind_ex (map_ex f xs) (\<lambda>ys. ret (y # ys)))"

primrec fold_ex :: "('a \<Rightarrow> 'b \<Rightarrow> ('s, 'b) sm) \<Rightarrow> 'a list \<Rightarrow> 'b \<Rightarrow> ('s, 'b) sm" where
  "fold_ex f [] b = ret b"
| "fold_ex f (x # xs) b = bind_ex (f x b) (fold_ex f xs)"

lemmas ex_defs = ret_def lift_def bind_ex_def

lemma bind_ex_cong [fundef_cong]: "m = n \<Longrightarrow> (\<And>x. k x = l x) \<Longrightarrow> bind_ex m k = bind_ex n l"
  by (rule ext) (simp add: bind_ex_def split: prod.split sum.split)

lemma map_ex_cong [fundef_cong]: "xs = ys \<Longrightarrow> (\<And>x. x \<in> set ys \<Longrightarrow> f x = g x) \<Longrightarrow> map_ex f xs = map_ex g ys"
proof (induction ys arbitrary: xs)
  case (Cons y ys)
  then have "map_ex f ys = map_ex g ys" by simp
  with Cons.prems show ?case by simp
qed simp

lemma bind_ex_ret [simp]: "bind_ex (ret x) k = k x"
  by (rule ext) (simp add: ex_defs)

lemma bind_ex_fail [simp]: "bind_ex (fail e) k = fail e"
  by (rule ext) (simp add: ex_defs)

lemma bind_ex_lift [simp]: "bind_ex (lift (Inr x)) k = k x"
  by (rule ext) (simp add: ex_defs)

lemma bind_ex_assoc: "bind_ex (bind_ex m k) h = bind_ex m (\<lambda>x. bind_ex (k x) h)"
  by (rule ext) (simp add: bind_ex_def split: prod.split sum.split)

end
