(* ===== verification/Identity.thy ===== *)
theory Identity
  imports Prelude
begin

text \<open>
  Identity and session state: \<open>auth/identity.go\<close> (the validated namespace and the
  capability token), the claim extraction of \<open>auth/jwks.go\<close>, \<open>auth/devsession.go\<close>,
  \<open>auth/session.go\<close>, the session constructor of \<open>wire/scram.go\<close>, and
  \<open>session/session.go\<close> (per-connection branch and run-time settings).

  The decoded token is a value of the JWT library: its subject, its issuer and the
  \<open>interface{}\<close> values of its other claims. Signature verification is that library's.
\<close>

subsection \<open>Namespace identifiers (auth/identity.go)\<close>

text \<open>\<open>namespaceRe\<close>, the whitelist \<open>[a-zA-Z0-9_-]{1,128}\<close> over the whole string.\<close>

definition ns_char :: "char \<Rightarrow> bool" where
  "ns_char c \<longleftrightarrow> (CHR ''a'' \<le> c \<and> c \<le> CHR ''z'') \<or> (CHR ''A'' \<le> c \<and> c \<le> CHR ''Z'')
     \<or> (CHR ''0'' \<le> c \<and> c \<le> CHR ''9'') \<or> c = CHR ''_'' \<or> c = CHR ''-''"

definition namespaceRe :: "string \<Rightarrow> bool" where
  "namespaceRe s \<longleftrightarrow> 1 \<le> length s \<and> length s \<le> 128 \<and> list_all ns_char s"

datatype NamespaceID = NamespaceID (raw: string)

definition NamespaceID_IsZero :: "NamespaceID \<Rightarrow> bool" where
  "NamespaceID_IsZero n \<longleftrightarrow> raw n = []"

definition newNamespaceID :: "string \<Rightarrow> NamespaceID res" where
  "newNamespaceID r =
     (if \<not> namespaceRe r then Inl (ErrMsg ''invalid namespace identifier'')
      else Inr (NamespaceID r))"

subsection \<open>Claims and the capability token\<close>

record SessionClaims =
  cl_Sub :: string
  cl_Iss :: string
  cl_Jti :: string
  cl_Role :: string
  cl_NamespaceAccess :: "string list"
  cl_NamespaceID :: string
  cl_Email :: string
  cl_Azp :: string

record auth_session =
  as_Namespace :: NamespaceID
  as_Branch :: string
  as_Sub :: string
  as_JTI :: string
  as_AZP :: string
  as_Role :: string

definition SessionFromClaims :: "SessionClaims option \<Rightarrow> auth_session res" where
  "SessionFromClaims oc =
     (case oc of
        None \<Rightarrow> Inl (ErrMsg ''SessionFromClaims: claims is nil'')
      | Some c \<Rightarrow>
          if cl_NamespaceID c = [] then
            Inl (ErrMsg ''SessionFromClaims: token does not grant exactly one namespace'')
          else (case newNamespaceID (cl_NamespaceID c) of
                  Inl e \<Rightarrow> Inl e
                | Inr ns \<Rightarrow> Inr \<lparr>as_Namespace = ns, as_Branch = [], as_Sub = cl_Sub c,
                                   as_JTI = cl_Jti c, as_AZP = cl_Azp c, as_Role = cl_Role c\<rparr>))"

text \<open>The dynamic value of a claim, as \<open>token.Get\<close> returns it.\<close>

datatype claim_val = CStr string | CArr "claim_val list" | CStrs "string list" | COther

record jwt_token =
  tk_Subject :: string
  tk_Issuer :: string
  tk_Get :: "string \<Rightarrow> claim_val option"

fun str_items :: "claim_val list \<Rightarrow> string list res" where
  "str_items [] = Inr []"
| "str_items (CStr s # vs) = (case str_items vs of Inl e \<Rightarrow> Inl e | Inr ss \<Rightarrow> Inr (s # ss))"
| "str_items (_ # vs) = Inl (ErrMsg ''non-string element'')"

definition toStringSlice :: "claim_val \<Rightarrow> string list res" where
  "toStringSlice v =
     (case v of CArr vs \<Rightarrow> str_items vs
      | CStrs ss \<Rightarrow> Inr ss
      | _ \<Rightarrow> Inl (ErrMsg ''expected []string''))"

definition claim_str :: "jwt_token \<Rightarrow> string \<Rightarrow> string" where
  "claim_str t k = (case tk_Get t k of Some (CStr s) \<Rightarrow> s | _ \<Rightarrow> [])"

definition extractClaims :: "jwt_token \<Rightarrow> SessionClaims res" where
  "extractClaims t =
     (if tk_Subject t = [] then Inl (ErrMsg ''JWT missing required 'sub' claim'') else
      let jti = claim_str t ''jti'' in
      if jti = [] then Inl (ErrMsg ''JWT missing required 'jti' claim'') else
      let role = claim_str t ''role'' in
      if role \<notin> {''user'', ''admin'', ''service''} then Inl (ErrMsg ''JWT 'role' claim'') else
      case tk_Get t ''namespace_access'' of
        None \<Rightarrow> Inl (ErrMsg ''JWT missing required 'namespace_access' claim'')
      | Some v \<Rightarrow>
         (case toStringSlice v of
            Inl e \<Rightarrow> Inl e
          | Inr access \<Rightarrow>
             if access = [''*''] \<and> role \<noteq> ''service'' then
               Inl (ErrMsg ''namespace_access=[*] is only valid for role=service'')
             else Inr \<lparr>cl_Sub = tk_Subject t, cl_Iss = tk_Issuer t, cl_Jti = jti, cl_Role = role,
                        cl_NamespaceAccess = access,
                        cl_NamespaceID = (case access of [n] \<Rightarrow> n | _ \<Rightarrow> []),
                        cl_Email = claim_str t ''email'', cl_Azp = claim_str t ''azp''\<rparr>))"

text \<open>
  \<open>ValidateNamespace\<close>, with the token check (allowlist, signature, audience and times) as an
  argument: the JWT library's verdict on the raw token.
\<close>

definition ValidateNamespace :: "(string \<Rightarrow> jwt_token res) \<Rightarrow> string \<Rightarrow> auth_session res" where
  "ValidateNamespace verify tok =
     (case verify tok of
        Inl e \<Rightarrow> Inl e
      | Inr t \<Rightarrow> (case extractClaims t of Inl e \<Rightarrow> Inl e | Inr c \<Rightarrow> SessionFromClaims (Some c)))"

definition DevSession :: "string \<Rightarrow> string \<Rightarrow> auth_session res" where
  "DevSession ns br =
     (case SessionFromClaims (Some \<lparr>cl_Sub = ''dev'', cl_Iss = [], cl_Jti = ''dev'',
             cl_Role = ''service'', cl_NamespaceAccess = [ns], cl_NamespaceID = ns,
             cl_Email = [], cl_Azp = []\<rparr>) of
        Inl e \<Rightarrow> Inl e
      | Inr s \<Rightarrow> Inr (s\<lparr>as_Branch := br\<rparr>))"

definition localRoleSession :: "string \<Rightarrow> string \<Rightarrow> auth_session res" where
  "localRoleSession ns user =
     (case SessionFromClaims (Some \<lparr>cl_Sub = user, cl_Iss = [], cl_Jti = ''local:'' @ user,
             cl_Role = ''user'', cl_NamespaceAccess = [ns], cl_NamespaceID = ns,
             cl_Email = [], cl_Azp = []\<rparr>) of
        Inl e \<Rightarrow> Inl e
      | Inr s \<Rightarrow> Inr (s\<lparr>as_Branch := ''main''\<rparr>))"

subsection \<open>Injected session variables (auth/session.go)\<close>

text \<open>
  \<open>SetSessionClaims\<close>: the variables and their order. \<open>json_strs\<close> is
  \<open>json.Marshal\<close> on a list of strings; \<open>set\<close> is the setter's method.
\<close>

definition session_vars :: "(string list \<Rightarrow> string) \<Rightarrow> SessionClaims \<Rightarrow> (string \<times> string) list" where
  "session_vars json_strs c =
     [(''app.user_id'', cl_Sub c), (''app.role'', cl_Role c),
      (''app.namespace_access'', json_strs (cl_NamespaceAccess c)),
      (''app.namespace_id'', cl_NamespaceID c), (''app.jti'', cl_Jti c),
      (''app.email'', cl_Email c), (''app.azp'', cl_Azp c)]"

definition SetSessionClaims ::
  "(string list \<Rightarrow> string) \<Rightarrow> (string \<Rightarrow> string \<Rightarrow> 's \<Rightarrow> 's) \<Rightarrow> SessionClaims option \<Rightarrow> 's \<Rightarrow> 's res" where
  "SetSessionClaims json_strs setv oc s =
     (case oc of None \<Rightarrow> Inl (ErrMsg ''SetSessionClaims: claims is nil'')
      | Some c \<Rightarrow> Inr (fold (\<lambda>(k, v). setv k v) (session_vars json_strs c) s))"

subsection \<open>Connection session (session/session.go)\<close>

record session =
  s_Auth :: auth_session
  s_connID :: u64
  s_params :: "string \<Rightarrow> string option"
  s_overrideBranch :: string
  s_settings :: "string \<Rightarrow> string option"

definition session_New :: "auth_session \<Rightarrow> u64 \<Rightarrow> (string \<Rightarrow> string option) \<Rightarrow> session" where
  "session_New a cid ps = \<lparr>s_Auth = a, s_connID = cid, s_params = ps, s_overrideBranch = [],
                            s_settings = Map.empty\<rparr>"

definition Branch :: "session \<Rightarrow> string" where
  "Branch s =
     (if as_Branch (s_Auth s) \<noteq> [] then as_Branch (s_Auth s)
      else if s_overrideBranch s \<noteq> [] then s_overrideBranch s
      else case s_params s ''branch'' of
             Some b \<Rightarrow> if b \<noteq> [] then b else ''main''
           | None \<Rightarrow> ''main'')"

definition SetBranch :: "session \<Rightarrow> string \<Rightarrow> session res" where
  "SetBranch s br =
     (if as_Branch (s_Auth s) \<noteq> [] then
        Inl (ErrMsg ''branch is pinned by the session token and cannot be changed'')
      else Inr (s\<lparr>s_overrideBranch := br\<rparr>))"

definition guc_key :: "string \<Rightarrow> string" where
  "guc_key k = toLower (trimSpace k)"

definition SetSetting :: "string \<Rightarrow> string \<Rightarrow> session \<Rightarrow> session" where
  "SetSetting k v s = s\<lparr>s_settings := (s_settings s)(guc_key k \<mapsto> v)\<rparr>"

definition GetSetting :: "session \<Rightarrow> string \<Rightarrow> string option" where
  "GetSetting s k = s_settings s (guc_key k)"

definition ResetSetting :: "string \<Rightarrow> session \<Rightarrow> session" where
  "ResetSetting k s = s\<lparr>s_settings := (s_settings s)(guc_key k := None)\<rparr>"

definition ResetAllSettings :: "session \<Rightarrow> session" where
  "ResetAllSettings s = s\<lparr>s_settings := Map.empty\<rparr>"

definition User :: "session \<Rightarrow> string" where
  "User s =
     (let sub = (if as_Sub (s_Auth s) \<noteq> [] then as_Sub (s_Auth s) else ''postgres'')
      in case s_params s ''user'' of Some u \<Rightarrow> if u \<noteq> [] then u else sub | None \<Rightarrow> sub)"

definition IsBypassRLS :: "session \<Rightarrow> bool" where
  "IsBypassRLS s \<longleftrightarrow> equalFold (as_Role (s_Auth s)) ''admin''"

text \<open>The statements that change a session, as one step function.\<close>

datatype session_op =
    OpSetBranch string
  | OpSetSetting string string
  | OpResetSetting string
  | OpResetAll

fun session_step :: "session \<Rightarrow> session_op \<Rightarrow> session" where
  "session_step s (OpSetBranch b) = (case SetBranch s b of Inl _ \<Rightarrow> s | Inr s' \<Rightarrow> s')"
| "session_step s (OpSetSetting k v) = SetSetting k v s"
| "session_step s (OpResetSetting k) = ResetSetting k s"
| "session_step s OpResetAll = ResetAllSettings s"

definition session_run :: "session \<Rightarrow> session_op list \<Rightarrow> session" where
  "session_run = foldl session_step"

subsection \<open>Namespaces are path-safe\<close>

lemma ns_char_not_slash: "ns_char c \<Longrightarrow> c \<noteq> CHR ''/''"
  by (auto simp: ns_char_def)

lemma ns_char_not_star: "ns_char c \<Longrightarrow> c \<noteq> CHR ''*''"
  by (auto simp: ns_char_def)

lemma newNamespaceID_Inr:
  "newNamespaceID r = Inr n \<longleftrightarrow> namespaceRe r \<and> n = NamespaceID r"
  by (auto simp: newNamespaceID_def)

lemma namespaceRe_no_slash: "namespaceRe r \<Longrightarrow> CHR ''/'' \<notin> set r"
  by (auto simp: namespaceRe_def list_all_iff dest: ns_char_not_slash)

lemma SessionFromClaims_Inr:
  "SessionFromClaims oc = Inr s \<Longrightarrow>
   \<exists>c. oc = Some c \<and> namespaceRe (cl_NamespaceID c) \<and> as_Namespace s = NamespaceID (cl_NamespaceID c)
       \<and> as_Role s = cl_Role c \<and> as_Sub s = cl_Sub c \<and> as_Branch s = []"
  by (auto simp: SessionFromClaims_def newNamespaceID_Inr split: option.splits if_splits sum.splits)

text \<open>A session of any of the three construction paths carries a whitelisted namespace.\<close>

definition session_ok :: "auth_session \<Rightarrow> bool" where
  "session_ok s \<longleftrightarrow> namespaceRe (raw (as_Namespace s))"

lemma SessionFromClaims_ok: "SessionFromClaims oc = Inr s \<Longrightarrow> session_ok s"
  by (auto simp: session_ok_def dest!: SessionFromClaims_Inr)

lemma DevSession_ok: "DevSession ns br = Inr s \<Longrightarrow> session_ok s"
  by (auto simp: DevSession_def session_ok_def dest!: SessionFromClaims_Inr split: sum.splits)

lemma localRoleSession_ok: "localRoleSession ns u = Inr s \<Longrightarrow> session_ok s"
  by (auto simp: localRoleSession_def session_ok_def dest!: SessionFromClaims_Inr split: sum.splits)

lemma ValidateNamespace_Inr:
  assumes "ValidateNamespace verify tok = Inr s"
  obtains t c where "verify tok = Inr t" "extractClaims t = Inr c" "SessionFromClaims (Some c) = Inr s"
  using assms by (auto simp: ValidateNamespace_def split: sum.splits)

lemma ValidateNamespace_ok: "ValidateNamespace verify tok = Inr s \<Longrightarrow> session_ok s"
  by (auto elim!: ValidateNamespace_Inr dest: SessionFromClaims_ok)

lemma extractClaims_Inr:
  "extractClaims t = Inr c \<Longrightarrow>
     cl_Sub c \<noteq> [] \<and> cl_Jti c \<noteq> [] \<and> cl_Role c \<in> {''user'', ''admin'', ''service''}
     \<and> (cl_NamespaceID c \<noteq> [] \<longrightarrow> cl_NamespaceAccess c = [cl_NamespaceID c])"
  by (auto simp: extractClaims_def Let_def split: if_splits option.splits sum.splits list.splits)

text \<open>
  C14. A token that validates yields a session for exactly one namespace: the only entry of the
  token's \<open>namespace_access\<close>, within the whitelist (so without a path separator and never the
  wildcard), and with one of the three known roles.
\<close>

theorem validated_session_single_namespace:
  assumes "ValidateNamespace verify tok = Inr s"
  shows "\<exists>t c. verify tok = Inr t \<and> extractClaims t = Inr c
           \<and> cl_NamespaceAccess c = [raw (as_Namespace s)]
           \<and> namespaceRe (raw (as_Namespace s))
           \<and> CHR ''/'' \<notin> set (raw (as_Namespace s)) \<and> raw (as_Namespace s) \<noteq> ''*''
           \<and> as_Role s \<in> {''user'', ''admin'', ''service''}"
proof -
  obtain t c where v: "verify tok = Inr t" and c: "extractClaims t = Inr c"
    and s: "SessionFromClaims (Some c) = Inr s"
    using assms by (rule ValidateNamespace_Inr)
  from SessionFromClaims_Inr [OF s] have ns: "namespaceRe (cl_NamespaceID c)"
    and eq: "raw (as_Namespace s) = cl_NamespaceID c" and role: "as_Role s = cl_Role c"
    by auto
  from ns have "cl_NamespaceID c \<noteq> []" and "cl_NamespaceID c \<noteq> ''*''"
    by (auto simp: namespaceRe_def ns_char_def)
  with extractClaims_Inr [OF c] namespaceRe_no_slash [OF ns] ns v c eq role show ?thesis
    by auto
qed

definition example_token :: jwt_token where
  "example_token = \<lparr>tk_Subject = ''u1'', tk_Issuer = ''idp'',
     tk_Get = [''jti'' \<mapsto> CStr ''j1'', ''role'' \<mapsto> CStr ''user'',
               ''namespace_access'' \<mapsto> CArr [CStr ''tenant-a'']]\<rparr>"

theorem validated_session_single_namespace_witness:
  "\<exists>s. ValidateNamespace (\<lambda>_. Inr example_token) ''tok'' = Inr s
       \<and> raw (as_Namespace s) = ''tenant-a'' \<and> raw (as_Namespace s) \<noteq> ''*''"
proof -
  have h: "ValidateNamespace (\<lambda>_. Inr example_token) ''tok'' =
      Inr \<lparr>as_Namespace = NamespaceID ''tenant-a'', as_Branch = [], as_Sub = ''u1'',
           as_JTI = ''j1'', as_AZP = [], as_Role = ''user''\<rparr>"
    by (simp add: ValidateNamespace_def extractClaims_def example_token_def toStringSlice_def
        claim_str_def SessionFromClaims_def newNamespaceID_def namespaceRe_def ns_char_def Let_def)
  from validated_session_single_namespace [OF h] h show ?thesis by auto
qed

subsection \<open>Branch pinning\<close>

lemma session_step_Auth [simp]: "s_Auth (session_step s x) = s_Auth s"
  by (cases x) (auto simp: SetBranch_def SetSetting_def ResetSetting_def ResetAllSettings_def split: sum.splits)

lemma session_step_params [simp]: "s_params (session_step s x) = s_params s"
  by (cases x) (auto simp: SetBranch_def SetSetting_def ResetSetting_def ResetAllSettings_def split: sum.splits)

lemma session_run_Auth [simp]: "s_Auth (session_run s xs) = s_Auth s"
  by (induction xs arbitrary: s) (auto simp: session_run_def)

lemma session_run_params [simp]: "s_params (session_run s xs) = s_params s"
  by (induction xs arbitrary: s) (auto simp: session_run_def)

lemma session_step_pinned: "as_Branch (s_Auth s) \<noteq> [] \<Longrightarrow> s_overrideBranch (session_step s x) = s_overrideBranch s"
  by (cases x) (auto simp: SetBranch_def SetSetting_def ResetSetting_def ResetAllSettings_def split: sum.splits)

lemma session_run_pinned: "as_Branch (s_Auth s) \<noteq> [] \<Longrightarrow> s_overrideBranch (session_run s xs) = s_overrideBranch s"
  by (induction xs arbitrary: s) (auto simp: session_run_def session_step_pinned)

text \<open>
  C15. A session whose token pins a branch stays on it: no sequence of \<open>SET branch\<close>,
  \<open>SET\<close>, \<open>RESET\<close> and \<open>RESET ALL\<close> statements changes the branch, the
  namespace, the user identity or the row-security exemption of the session; every
  \<open>SET branch\<close> is refused, and none leaves an override behind.
\<close>

theorem pinned_session_cannot_escape:
  assumes "as_Branch (s_Auth s) \<noteq> []"
  shows "Branch (session_run s ops) = as_Branch (s_Auth s)
       \<and> as_Namespace (s_Auth (session_run s ops)) = as_Namespace (s_Auth s)
       \<and> User (session_run s ops) = User s
       \<and> IsBypassRLS (session_run s ops) = IsBypassRLS s
       \<and> (\<exists>e. SetBranch (session_run s ops) br = Inl e)
       \<and> s_overrideBranch (session_run s ops) = s_overrideBranch s"
  using assms by (simp add: Branch_def User_def IsBypassRLS_def SetBranch_def session_run_pinned)

theorem pinned_session_cannot_escape_witness:
  "Branch (session_run (session_New \<lparr>as_Namespace = NamespaceID ''t'', as_Branch = ''pr-7'',
       as_Sub = ''u'', as_JTI = ''j'', as_AZP = [], as_Role = ''user''\<rparr> 1 Map.empty)
     [OpSetBranch ''main'', OpSetSetting ''branch'' ''main'', OpResetAll]) = ''pr-7''"
proof -
  let ?a = "\<lparr>as_Namespace = NamespaceID ''t'', as_Branch = ''pr-7'',
       as_Sub = ''u'', as_JTI = ''j'', as_AZP = [], as_Role = ''user''\<rparr> :: auth_session"
  have "as_Branch (s_Auth (session_New ?a 1 Map.empty)) \<noteq> []"
    by (simp add: session_New_def)
  from pinned_session_cannot_escape [OF this, of "[OpSetBranch ''main'', OpSetSetting ''branch'' ''main'', OpResetAll]"]
  show ?thesis by (simp add: session_New_def)
qed

lemma GetSetting_SetSetting:
  "GetSetting (SetSetting k v s) k' = (if guc_key k' = guc_key k then Some v else GetSetting s k')"
  by (simp add: GetSetting_def SetSetting_def)

lemma GetSetting_ResetSetting:
  "GetSetting (ResetSetting k s) k' = (if guc_key k' = guc_key k then None else GetSetting s k')"
  by (simp add: GetSetting_def ResetSetting_def)

end
