(* ===== verification/Keys.thy ===== *)
theory Keys
  imports Identity
begin

text \<open>
  The key encoder of \<open>storage/keys.go\<close> and the row tags of \<open>storage/valuetag.go\<close>.
  A \<open>Key\<close> is the byte string it wraps (\<open>Bytes\<close>, \<open>rawKey\<close>, \<open>RawKey\<close>
  and \<open>RawKeyForMerge\<close> are then the identity). The lemmas show which keys a prefix selects:
  that is what table scans, index lookups, branch drops and namespace erasure rest on.
\<close>

type_synonym Key = bytes

subsection \<open>The encoder\<close>

definition KeyVersion :: char where
  "KeyVersion = CHR 0x01"

datatype IntentSuffix = IntentWrite | IntentValue | IntentLock

fun intent_byte :: "IntentSuffix \<Rightarrow> char" where
  "intent_byte IntentWrite = CHR ''W''"
| "intent_byte IntentValue = CHR ''V''"
| "intent_byte IntentLock = CHR ''L''"

definition branchSegment :: "string \<Rightarrow> string" where
  "branchSegment branch = (if branch = ''main'' \<or> branch = [] then ''/main'' else ''/br/'' @ branch)"

definition nsRoot :: "NamespaceID \<Rightarrow> bytes" where
  "nsRoot ns = [KeyVersion] @ ''/ns/'' @ raw ns"

definition appendStr :: "bytes \<Rightarrow> string \<Rightarrow> bytes" where
  "appendStr b s = b @ [CHR ''/''] @ s"

definition appendBin :: "bytes \<Rightarrow> bytes \<Rightarrow> bytes" where
  "appendBin b bin = b @ [CHR ''/''] @ be 4 (length bin) @ bin"

definition RowPrefix :: "NamespaceID \<Rightarrow> string \<Rightarrow> string \<Rightarrow> Key" where
  "RowPrefix ns branch table =
     (let b = nsRoot ns @ branchSegment branch;
          b = appendStr b ''data'';
          b = appendStr b table
      in b @ [CHR ''/''])"

definition RowKey :: "NamespaceID \<Rightarrow> string \<Rightarrow> string \<Rightarrow> bytes \<Rightarrow> Key" where
  "RowKey ns branch table pk =
     (let b = nsRoot ns @ branchSegment branch;
          b = appendStr b ''data'';
          b = appendStr b table
      in appendBin b pk)"

definition IndexColumnPrefix :: "NamespaceID \<Rightarrow> string \<Rightarrow> string \<Rightarrow> string \<Rightarrow> Key" where
  "IndexColumnPrefix ns branch table col =
     (let b = nsRoot ns @ branchSegment branch;
          b = appendStr b ''idx'';
          b = appendStr b table;
          b = appendStr b col
      in b @ [CHR ''/''])"

definition IndexKey :: "NamespaceID \<Rightarrow> string \<Rightarrow> string \<Rightarrow> string \<Rightarrow> bytes \<Rightarrow> bytes \<Rightarrow> Key" where
  "IndexKey ns branch table col val pk =
     (let b = IndexColumnPrefix ns branch table col;
          b = b @ val
      in appendBin b pk)"

definition IndexValuePrefix :: "NamespaceID \<Rightarrow> string \<Rightarrow> string \<Rightarrow> string \<Rightarrow> bytes \<Rightarrow> Key" where
  "IndexValuePrefix ns branch table col val = IndexColumnPrefix ns branch table col @ val"

definition FTSKey :: "NamespaceID \<Rightarrow> string \<Rightarrow> string \<Rightarrow> string \<Rightarrow> string \<Rightarrow> bytes \<Rightarrow> Key" where
  "FTSKey ns branch table field term docID =
     (let b = nsRoot ns @ branchSegment branch;
          b = appendStr b ''fts'';
          b = appendStr b table;
          b = appendStr b field;
          b = appendStr b term
      in appendBin b docID)"

definition VectorKey :: "NamespaceID \<Rightarrow> string \<Rightarrow> string \<Rightarrow> string \<Rightarrow> bytes \<Rightarrow> Key" where
  "VectorKey ns branch table col id' =
     (let b = nsRoot ns @ branchSegment branch;
          b = appendStr b ''vec'';
          b = appendStr b table;
          b = appendStr b col
      in appendBin b id')"

definition OtelSpanKey :: "NamespaceID \<Rightarrow> string \<Rightarrow> bytes \<Rightarrow> bytes \<Rightarrow> Key" where
  "OtelSpanKey ns branch traceID spanID =
     (let b = nsRoot ns @ branchSegment branch;
          b = appendStr b ''data'';
          b = appendStr b ''otel_spans'';
          b = appendBin b traceID
      in appendBin b spanID)"

definition OtelIndexKey :: "NamespaceID \<Rightarrow> string \<Rightarrow> string \<Rightarrow> bytes list \<Rightarrow> Key" where
  "OtelIndexKey ns branch indexName vals =
     (let b = nsRoot ns @ branchSegment branch;
          b = appendStr b ''idx'';
          b = appendStr b ''otel_spans'';
          b = appendStr b indexName
      in foldl appendBin b vals)"

definition SchemaKey :: "NamespaceID \<Rightarrow> string \<Rightarrow> Key" where
  "SchemaKey ns table = appendStr (appendStr (appendStr (nsRoot ns) ''meta'') ''schema'') table"

definition BranchMetaKey :: "NamespaceID \<Rightarrow> string \<Rightarrow> Key" where
  "BranchMetaKey ns name = appendStr (appendStr (appendStr (nsRoot ns) ''meta'') ''branches'') name"

definition RaftKey :: "NamespaceID \<Rightarrow> u64 \<Rightarrow> bytes \<Rightarrow> Key" where
  "RaftKey ns groupID suff =
     appendBin (appendBin (appendStr (nsRoot ns) ''raft'') (be 8 (unat groupID))) suff"

definition HLCKey :: "NamespaceID \<Rightarrow> Key" where
  "HLCKey ns = appendStr (appendStr (nsRoot ns) ''hlc'') ''ts''"

definition IntentKey :: "Key \<Rightarrow> u64 \<Rightarrow> IntentSuffix \<Rightarrow> Key" where
  "IntentKey row hlc suff =
     row @ [CHR ''@''] @ be 8 (unat hlc) @ [CHR '':''] @ [intent_byte suff]"

definition NamespacePrefix :: "NamespaceID \<Rightarrow> Key" where
  "NamespacePrefix ns = nsRoot ns @ [CHR ''/'']"

subsection \<open>Row tags (storage/valuetag.go)\<close>

definition RowTagLive :: char where
  "RowTagLive = CHR 0x01"

definition RowTagTombstone :: char where
  "RowTagTombstone = CHR 0x00"

definition Tombstone :: bytes where
  "Tombstone = [RowTagTombstone]"

definition IsTombstone :: "bytes \<Rightarrow> bool" where
  "IsTombstone b \<longleftrightarrow> (case b of [] \<Rightarrow> False | c # _ \<Rightarrow> c = RowTagTombstone)"

lemmas key_defs [key_simps] =
  RowPrefix_def RowKey_def IndexColumnPrefix_def IndexKey_def IndexValuePrefix_def FTSKey_def
  VectorKey_def OtelSpanKey_def OtelIndexKey_def SchemaKey_def BranchMetaKey_def RaftKey_def
  HLCKey_def NamespacePrefix_def appendStr_def appendBin_def nsRoot_def Let_def

subsection \<open>Path segments\<close>

text \<open>A name without a separator ends where the next separator is.\<close>

abbreviation seg_free :: "string \<Rightarrow> bool" where
  "seg_free s \<equiv> CHR ''/'' \<notin> set s"

lemma seg_split_eq:
  "c \<notin> set x \<Longrightarrow> c \<notin> set y \<Longrightarrow> x @ c # r = y @ c # q \<longleftrightarrow> x = y \<and> r = q"
proof (induction x arbitrary: y)
  case Nil
  then show ?case by (cases y) auto
next
  case (Cons a x)
  then show ?case by (cases y) auto
qed

lemma seg_split_prefix:
  "c \<notin> set x \<Longrightarrow> c \<notin> set y \<Longrightarrow> prefix (x @ c # r) (y @ c # q) \<longleftrightarrow> x = y \<and> prefix r q"
proof (induction x arbitrary: y)
  case Nil
  then show ?case by (cases y) auto
next
  case (Cons a x)
  then show ?case by (cases y) auto
qed

lemmas seg_simps = seg_split_eq seg_split_prefix

text \<open>The branch a segment stands for: the empty name is \<open>main\<close>.\<close>

definition canon_branch :: "string \<Rightarrow> string" where
  "canon_branch b = (if b = [] then ''main'' else b)"

lemma branchSegment_inj: "branchSegment a = branchSegment b \<longleftrightarrow> canon_branch a = canon_branch b"
  by (auto simp: branchSegment_def canon_branch_def)

text \<open>
  The body of a key under a branch: the part after the namespace. \<open>main\<close> is a sibling path,
  a feature branch lives below \<open>br\<close>.
\<close>

lemma branchSegment_cases:
  obtains (main) "canon_branch b = ''main''" "branchSegment b = CHR ''/'' # ''main''"
  | (feature) "canon_branch b = b" "b \<noteq> []" "b \<noteq> ''main''" "branchSegment b = CHR ''/'' # ''br'' @ CHR ''/'' # b"
  by (cases "b = [] \<or> b = ''main''") (auto simp: branchSegment_def canon_branch_def)

lemma branchSegment_split_prefix:
  assumes "seg_free a" and "seg_free b"
  shows "prefix (branchSegment a @ CHR ''/'' # r) (branchSegment b @ CHR ''/'' # q)
         \<longleftrightarrow> canon_branch a = canon_branch b \<and> prefix r q"
proof -
  show ?thesis using assms
    by (cases a rule: branchSegment_cases; cases b rule: branchSegment_cases)
       (auto simp: seg_split_prefix)
qed

lemma branchSegment_split_eq:
  assumes "seg_free a" and "seg_free b"
  shows "branchSegment a @ CHR ''/'' # r = branchSegment b @ CHR ''/'' # q
         \<longleftrightarrow> canon_branch a = canon_branch b \<and> r = q"
proof
  assume eq: "branchSegment a @ CHR ''/'' # r = branchSegment b @ CHR ''/'' # q"
  show "canon_branch a = canon_branch b \<and> r = q"
    using branchSegment_split_prefix [OF assms, of r q] branchSegment_split_prefix [OF assms(2,1), of q r]
    unfolding eq by (simp add: prefix_order.eq_iff)
next
  assume "canon_branch a = canon_branch b \<and> r = q"
  then show "branchSegment a @ CHR ''/'' # r = branchSegment b @ CHR ''/'' # q"
    by (metis branchSegment_inj)
qed

lemma branchSegment_slash: "\<exists>r. branchSegment b = CHR ''/'' # r"
  by (simp add: branchSegment_def)

lemma nsRoot_split_prefix:
  assumes "seg_free (raw m)" and "seg_free (raw n)"
  shows "prefix (nsRoot m @ CHR ''/'' # r) (nsRoot n @ CHR ''/'' # q) \<longleftrightarrow> m = n \<and> prefix r q"
  using assms by (cases m; cases n) (simp add: nsRoot_def seg_split_prefix)

lemma root_split_prefix:
  assumes "seg_free (raw m)" "seg_free (raw n)" "seg_free a" "seg_free b"
  shows "prefix (nsRoot m @ branchSegment a @ CHR ''/'' # r) (nsRoot n @ branchSegment b @ CHR ''/'' # q)
         \<longleftrightarrow> m = n \<and> canon_branch a = canon_branch b \<and> prefix r q"
proof -
  obtain x y where x: "branchSegment a = CHR ''/'' # x" and y: "branchSegment b = CHR ''/'' # y"
    using branchSegment_slash by metis
  show ?thesis
    using nsRoot_split_prefix [OF assms(1,2), of "x @ CHR ''/'' # r" "y @ CHR ''/'' # q"]
      branchSegment_split_prefix [OF assms(3,4), of r q] x y by auto
qed

lemma root_split_eq:
  assumes "seg_free (raw m)" "seg_free (raw n)" "seg_free a" "seg_free b"
  shows "nsRoot m @ branchSegment a @ CHR ''/'' # r = nsRoot n @ branchSegment b @ CHR ''/'' # q
         \<longleftrightarrow> m = n \<and> canon_branch a = canon_branch b \<and> r = q"
proof
  assume eq: "nsRoot m @ branchSegment a @ CHR ''/'' # r = nsRoot n @ branchSegment b @ CHR ''/'' # q"
  show "m = n \<and> canon_branch a = canon_branch b \<and> r = q"
    using root_split_prefix [OF assms, of r q] root_split_prefix [OF assms(2,1,4,3), of q r]
    unfolding eq by (simp add: prefix_order.eq_iff)
next
  assume "m = n \<and> canon_branch a = canon_branch b \<and> r = q"
  then show "nsRoot m @ branchSegment a @ CHR ''/'' # r = nsRoot n @ branchSegment b @ CHR ''/'' # q"
    by (metis branchSegment_inj)
qed

subsection \<open>Table prefixes and row keys\<close>

lemma RowPrefix_alt:
  "RowPrefix ns b t = nsRoot ns @ branchSegment b @ CHR ''/'' # ''data'' @ CHR ''/'' # t @ [CHR ''/'']"
  by (simp add: RowPrefix_def appendStr_def Let_def)

lemma RowKey_alt:
  "RowKey ns b t pk = nsRoot ns @ branchSegment b @ CHR ''/'' # ''data'' @ CHR ''/'' # t @ CHR ''/'' # be 4 (length pk) @ pk"
  by (simp add: RowKey_def appendStr_def appendBin_def Let_def)

lemma RowKey_RowPrefix: "RowKey ns b t pk = RowPrefix ns b t @ be 4 (length pk) @ pk"
  by (simp add: RowKey_alt RowPrefix_alt)

lemma be_tail_inj: "length u = length v \<Longrightarrow> u @ p = v @ q \<longleftrightarrow> u = v \<and> p = q"
  by simp

lemma RowPrefix_prefix_iff:
  assumes "seg_free (raw m)" "seg_free (raw n)" "seg_free a" "seg_free b" "seg_free t" "seg_free u"
  shows "prefix (RowPrefix m a t) (RowKey n b u pk)
         \<longleftrightarrow> m = n \<and> canon_branch a = canon_branch b \<and> t = u"
  using root_split_prefix [OF assms(1-4)] assms(5,6)
  by (simp add: RowPrefix_alt RowKey_alt seg_split_prefix)

lemma RowKey_eq_iff:
  assumes "seg_free (raw m)" "seg_free (raw n)" "seg_free a" "seg_free b" "seg_free t" "seg_free u"
  shows "RowKey m a t pk = RowKey n b u qk
         \<longleftrightarrow> m = n \<and> canon_branch a = canon_branch b \<and> t = u \<and> pk = qk"
  using root_split_eq [OF assms(1-4)] assms(5,6)
  by (auto simp: RowKey_alt seg_split_eq)

text \<open>
  C10. A table scan reads its own table and nothing else: the prefix of a table selects a row key
  exactly when namespace, branch (with the empty name standing for \<open>main\<close>) and table agree,
  and two row keys are equal exactly when, in addition, their primary keys are. The names must
  be free of the separator; the primary key may hold any bytes, and keys of any length.
\<close>

theorem row_key_table_isolation:
  assumes "namespaceRe (raw m)" and "namespaceRe (raw n)"
    and "seg_free a" and "seg_free b" and "seg_free t" and "seg_free u"
  shows "(prefix (RowPrefix m a t) (RowKey n b u pk)
            \<longleftrightarrow> m = n \<and> canon_branch a = canon_branch b \<and> t = u)
       \<and> (RowKey m a t pk = RowKey n b u qk
            \<longleftrightarrow> m = n \<and> canon_branch a = canon_branch b \<and> t = u \<and> pk = qk)"
  using assms by (simp add: RowPrefix_prefix_iff RowKey_eq_iff namespaceRe_no_slash)

theorem row_key_table_isolation_witness:
  "\<not> prefix (RowPrefix (NamespaceID ''acme'') ''dev'' ''t'') (RowKey (NamespaceID ''acme'') ''dev'' ''t2'' ''1'')
   \<and> RowKey (NamespaceID ''acme'') ''main'' ''t'' ''a/b'' = RowKey (NamespaceID ''acme'') [] ''t'' ''a/b''"
  using row_key_table_isolation [of "NamespaceID ''acme''" "NamespaceID ''acme''" "''dev''" "''dev''" "''t''" "''t2''" "''1''" "''1''"]
    row_key_table_isolation [of "NamespaceID ''acme''" "NamespaceID ''acme''" "''main''" "[]" "''t''" "''t''" "''a/b''" "''a/b''"]
  by (simp add: namespaceRe_def ns_char_def canon_branch_def)

text \<open>
  The side condition is needed: a quoted identifier may contain the separator, and then a row
  of table \<open>x/data/t\<close> on branch \<open>b\<close> has the key of a row of table \<open>t\<close> on
  branch \<open>b/data/x\<close>, and a scan of table \<open>t\<close> also selects the rows of
  \<open>t/u\<close>, in every namespace and for every primary key.
\<close>

theorem slash_names_alias_rows:
  "RowKey ns ''b'' ''x/data/t'' pk = RowKey ns ''b/data/x'' ''t'' pk
   \<and> prefix (RowPrefix ns br t) (RowKey ns br (t @ CHR ''/'' # u) pk)"
  by (simp add: RowKey_alt RowPrefix_alt branchSegment_def)

subsection \<open>All keys of a namespace\<close>

text \<open>The keys the encoder can produce for a namespace, one rule per method of \<open>KeyEncoder\<close>.\<close>

inductive ns_key :: "NamespaceID \<Rightarrow> Key \<Rightarrow> bool" for ns where
  ns_RowKey: "ns_key ns (RowKey ns b t pk)"
| ns_RowPrefix: "ns_key ns (RowPrefix ns b t)"
| ns_IndexKey: "ns_key ns (IndexKey ns b t c v pk)"
| ns_FTSKey: "ns_key ns (FTSKey ns b t f tm d)"
| ns_VectorKey: "ns_key ns (VectorKey ns b t c i)"
| ns_OtelSpanKey: "ns_key ns (OtelSpanKey ns b tr sp)"
| ns_OtelIndexKey: "ns_key ns (OtelIndexKey ns b ix vs)"
| ns_SchemaKey: "ns_key ns (SchemaKey ns t)"
| ns_BranchMetaKey: "ns_key ns (BranchMetaKey ns b)"
| ns_RaftKey: "ns_key ns (RaftKey ns g sf)"
| ns_HLCKey: "ns_key ns (HLCKey ns)"
| ns_IntentKey: "ns_key ns k \<Longrightarrow> ns_key ns (IntentKey k h sx)"

lemma prefix_foldl_appendBin: "prefix b (foldl appendBin b vs)"
proof (induction vs arbitrary: b)
  case (Cons v vs)
  have "prefix b (appendBin b v)" by (simp add: appendBin_def)
  also have "prefix \<dots> (foldl appendBin (appendBin b v) vs)" by (rule Cons.IH)
  finally show ?case by simp
qed simp

lemma prefix_branchSegment: "prefix [CHR ''/''] (branchSegment b @ r)"
  using branchSegment_slash [of b] by auto

lemma ns_key_prefix: "ns_key ns k \<Longrightarrow> prefix (NamespacePrefix ns) k"
proof (induction rule: ns_key.induct)
  case (ns_OtelIndexKey b ix vs)
  have "prefix (NamespacePrefix ns)
      (appendStr (appendStr (appendStr (nsRoot ns @ branchSegment b) ''idx'') ''otel_spans'') ix)"
    using prefix_branchSegment [of b] by (simp add: NamespacePrefix_def appendStr_def)
  then show ?case
    unfolding OtelIndexKey_def Let_def by (rule prefix_order.trans) (rule prefix_foldl_appendBin)
next
  case (ns_IntentKey k h sx)
  then show ?case by (simp add: IntentKey_def prefix_prefix)
qed (simp_all add: NamespacePrefix_def RowKey_def RowPrefix_def IndexKey_def IndexColumnPrefix_def
    FTSKey_def VectorKey_def OtelSpanKey_def SchemaKey_def BranchMetaKey_def RaftKey_def HLCKey_def
    appendStr_def appendBin_def Let_def prefix_branchSegment)

lemma ns_key_starts: "ns_key ns k \<Longrightarrow> \<exists>r. k = nsRoot ns @ CHR ''/'' # r"
  using ns_key_prefix by (fastforce simp: NamespacePrefix_def prefix_def)

text \<open>The erasure prefix of a namespace selects a key of the encoder exactly when it is its own.\<close>

lemma NamespacePrefix_prefix_iff:
  assumes "seg_free (raw m)" "seg_free (raw n)" "ns_key n k"
  shows "prefix (NamespacePrefix m) k \<longleftrightarrow> m = n"
proof -
  obtain r where "k = nsRoot n @ CHR ''/'' # r" using ns_key_starts [OF assms(3)] by auto
  then show ?thesis
    using nsRoot_split_prefix [OF assms(1,2), of "[]" r] by (simp add: NamespacePrefix_def)
qed

lemma tombstone_not_live: "IsTombstone Tombstone" "\<not> IsTombstone (RowTagLive # b)" "\<not> IsTombstone []"
  by (simp_all add: IsTombstone_def Tombstone_def RowTagLive_def RowTagTombstone_def)

end
