(* ===== verification/Badger.thy ===== *)
theory Badger
  imports Keys
begin

text \<open>
  BadgerDB in managed mode, which is not code of the repository: the operations the storage
  package calls are a record of functions that every definition above it takes as an argument,
  and the locale \<open>managed_badger\<close> states what its documentation promises of them in terms
  of a version history per key. The last section is an in-memory multi-version store that has
  these laws; the concrete examples of the development run on it.
\<close>

subsection \<open>The operations the repository calls\<close>

text \<open>
  \<open>bg_get\<close>: \<open>NewTransactionAt(readTs).Get\<close>, the version of the item and the result
  of \<open>ValueCopy\<close>. \<open>bg_items\<close>: the items of an iterator opened at \<open>readTs\<close>, in
  ascending key order, each with the result of \<open>ValueCopy\<close>. \<open>bg_maxver\<close>:
  \<open>MaxVersion\<close>. \<open>bg_batch\<close>, \<open>bg_set\<close>, \<open>bg_del\<close>,
  \<open>bg_flush\<close>: \<open>NewWriteBatchAt\<close> and its methods. \<open>bg_setat\<close>:
  \<open>SetEntryAt\<close>. \<open>bg_drop\<close>: \<open>DropPrefix\<close>. The operations on the database
  return the database they leave behind, also when they fail.
\<close>

record ('db, 'wb) badger =
  bg_get :: "'db \<Rightarrow> u64 \<Rightarrow> bytes \<Rightarrow> (u64 \<times> bytes res) res"
  bg_items :: "'db \<Rightarrow> u64 \<Rightarrow> (bytes \<times> bytes res) list"
  bg_maxver :: "'db \<Rightarrow> u64"
  bg_batch :: "u64 \<Rightarrow> 'wb"
  bg_set :: "'wb \<Rightarrow> bytes \<Rightarrow> bytes \<Rightarrow> 'wb res"
  bg_setat :: "'wb \<Rightarrow> bytes \<Rightarrow> bytes \<Rightarrow> u64 \<Rightarrow> 'wb res"
  bg_del :: "'wb \<Rightarrow> bytes \<Rightarrow> 'wb res"
  bg_flush :: "'db \<Rightarrow> 'wb \<Rightarrow> 'db \<times> go_error option"
  bg_drop :: "'db \<Rightarrow> bytes \<Rightarrow> 'db \<times> go_error option"

subsection \<open>Version histories\<close>

text \<open>
  A history maps a key and a version to what was written there: \<open>None\<close> for nothing,
  \<open>Some None\<close> for a delete, \<open>Some (Some v)\<close> for a value.
\<close>

type_synonym history = "bytes \<Rightarrow> u64 \<Rightarrow> bytes option option"

definition versions_upto :: "(u64 \<Rightarrow> 'a option) \<Rightarrow> u64 \<Rightarrow> u64 set" where
  "versions_upto f r = {t. t \<le> r \<and> f t \<noteq> None}"

definition newest :: "(u64 \<Rightarrow> 'a option) \<Rightarrow> u64 \<Rightarrow> (u64 \<times> 'a) option" where
  "newest f r = (if versions_upto f r = {} then None
                 else Some (Max (versions_upto f r), the (f (Max (versions_upto f r)))))"

definition visible :: "history \<Rightarrow> u64 \<Rightarrow> bytes \<Rightarrow> bytes option" where
  "visible h r k = (case newest (h k) r of Some (t, ov) \<Rightarrow> ov | None \<Rightarrow> None)"

text \<open>The history after a batch of writes at version \<open>ts\<close>: the last write of a key counts.\<close>

definition write_at :: "u64 \<Rightarrow> (bytes \<times> bytes option) list \<Rightarrow> history \<Rightarrow> history" where
  "write_at ts ops h = (\<lambda>k. case map_of (rev ops) k of None \<Rightarrow> h k | Some ov \<Rightarrow> (h k)(ts \<mapsto> ov))"

definition drop_keys :: "bytes \<Rightarrow> history \<Rightarrow> history" where
  "drop_keys p h = (\<lambda>k. if prefix p k then (\<lambda>_. None) else h k)"

lemma finite_versions [simp]: "finite (versions_upto f r)"
  by (rule finite_subset [OF subset_UNIV]) simp

lemma newest_SomeD:
  assumes "newest f r = Some (t, x)"
  shows "t \<le> r \<and> f t = Some x \<and> (\<forall>u. u \<le> r \<longrightarrow> f u \<noteq> None \<longrightarrow> u \<le> t)"
proof -
  from assms have ne: "versions_upto f r \<noteq> {}" and t: "t = Max (versions_upto f r)" and x: "x = the (f t)"
    by (auto simp: newest_def split: if_splits)
  have "t \<in> versions_upto f r" unfolding t using ne by (intro Max_in) simp_all
  moreover have "u \<le> t" if "u \<in> versions_upto f r" for u
    unfolding t using that by (intro Max_ge) simp_all
  ultimately show ?thesis using x by (auto simp: versions_upto_def)
qed

lemma newest_SomeI:
  assumes "t \<le> r" "f t = Some x" "\<And>u. u \<le> r \<Longrightarrow> f u \<noteq> None \<Longrightarrow> u \<le> t"
  shows "newest f r = Some (t, x)"
proof -
  have m: "t \<in> versions_upto f r" using assms by (simp add: versions_upto_def)
  have "Max (versions_upto f r) = t"
    by (rule Max_eqI) (use assms m in \<open>auto simp: versions_upto_def\<close>)
  with m assms(2) show ?thesis by (auto simp: newest_def)
qed

lemma newest_Some_iff:
  "newest f r = Some (t, x) \<longleftrightarrow> t \<le> r \<and> f t = Some x \<and> (\<forall>u. u \<le> r \<longrightarrow> f u \<noteq> None \<longrightarrow> u \<le> t)"
  by (meson newest_SomeD newest_SomeI)

lemma newest_None_iff: "newest f r = None \<longleftrightarrow> (\<forall>u. u \<le> r \<longrightarrow> f u = None)"
  by (auto simp: newest_def versions_upto_def)

text \<open>A write above the snapshot is invisible in it; a write at it is what the key now holds.\<close>

lemma newest_cong: "(\<And>u. u \<le> r \<Longrightarrow> f u = g u) \<Longrightarrow> newest f r = newest g r"
  by (simp add: newest_def versions_upto_def cong: conj_cong)

lemma newest_upd_above: "r < ts \<Longrightarrow> newest (f(ts := x)) r = newest f r"
  by (rule newest_cong) auto

lemma newest_upd_at: "(\<And>u. f u \<noteq> None \<Longrightarrow> u \<le> ts) \<Longrightarrow> newest (f(ts \<mapsto> x)) ts = Some (ts, x)"
  by (rule newest_SomeI) auto

lemma newest_stable:
  "(\<And>u. f u \<noteq> None \<Longrightarrow> u \<le> r) \<Longrightarrow> r \<le> s \<Longrightarrow> newest f s = newest f r"
proof -
  assume le: "\<And>u. f u \<noteq> None \<Longrightarrow> u \<le> r" and "r \<le> s"
  then have "versions_upto f s = versions_upto f r"
    by (fastforce simp: versions_upto_def)
  then show ?thesis by (simp add: newest_def)
qed

lemma visible_write_above: "r < ts \<Longrightarrow> visible (write_at ts ops h) r k = visible h r k"
  by (auto simp: visible_def write_at_def newest_upd_above split: option.splits)

lemma visible_write_at:
  assumes "\<And>k u. h k u \<noteq> None \<Longrightarrow> u \<le> ts"
  shows "visible (write_at ts ops h) ts k
         = (case map_of (rev ops) k of Some ov \<Rightarrow> ov | None \<Rightarrow> visible h ts k)"
proof (cases "map_of (rev ops) k")
  case (Some ov)
  have "newest ((h k)(ts \<mapsto> ov)) ts = Some (ts, ov)"
    by (rule newest_upd_at) (rule assms)
  with Some show ?thesis by (simp add: visible_def write_at_def)
qed (simp add: visible_def write_at_def)

lemma write_at_dom: "write_at ts ops h k u \<noteq> None \<Longrightarrow> h k u \<noteq> None \<or> u = ts"
  by (auto simp: write_at_def split: option.splits if_splits)

lemma visible_drop: "visible (drop_keys p h) r k = (if prefix p k then None else visible h r k)"
  by (simp add: visible_def drop_keys_def newest_None_iff [THEN iffD2])

subsection \<open>What managed mode promises\<close>

text \<open>
  \<open>hist\<close> is the version history of a database, \<open>wops\<close> and \<open>wts\<close> the
  writes a batch has collected and its version. A read at \<open>r\<close> finds the newest version at or
  below \<open>r\<close>, and a deleted key is not found; an iterator visits exactly the live keys, once
  each, in ascending order; \<open>MaxVersion\<close> bounds the versions; a flush that succeeds writes
  every collected operation at the version of the batch, and one that fails leaves everything
  but that version of those keys alone. Any read or write may fail with an I/O error.
\<close>

locale managed_badger =
  fixes bd :: "('db, 'wb) badger"
    and hist :: "'db \<Rightarrow> history"
    and wops :: "'wb \<Rightarrow> (bytes \<times> bytes option) list"
    and wts :: "'wb \<Rightarrow> u64"
  assumes get_Inr: "bg_get bd db r k = Inr (t, x) \<Longrightarrow>
        \<exists>v. newest (hist db k) r = Some (t, Some v) \<and> (x = Inr v \<or> (\<exists>m. x = Inl (ErrIO m)))"
    and get_Inl: "bg_get bd db r k = Inl e \<Longrightarrow>
        (e = ErrKeyNotFound \<and> visible (hist db) r k = None) \<or> (\<exists>m. e = ErrIO m)"
    and items_sorted: "sorted_wrt (<) (map fst (bg_items bd db r))"
    and items_keys: "fst ` set (bg_items bd db r) = {k. visible (hist db) r k \<noteq> None}"
    and items_vals: "(k, x) \<in> set (bg_items bd db r) \<Longrightarrow>
        x = Inr (the (visible (hist db) r k)) \<or> (\<exists>m. x = Inl (ErrIO m))"
    and maxver_bound: "hist db k t \<noteq> None \<Longrightarrow> t \<le> bg_maxver bd db"
    and batch_new [simp]: "wops (bg_batch bd t) = []" "wts (bg_batch bd t) = t"
    and set_Inr: "bg_set bd wb k v = Inr wb' \<Longrightarrow> wops wb' = wops wb @ [(k, Some v)] \<and> wts wb' = wts wb"
    and setat_Inr: "bg_setat bd wb k v (wts wb) = Inr wb' \<Longrightarrow>
        wops wb' = wops wb @ [(k, Some v)] \<and> wts wb' = wts wb"
    and del_Inr: "bg_del bd wb k = Inr wb' \<Longrightarrow> wops wb' = wops wb @ [(k, None)] \<and> wts wb' = wts wb"
    and write_Inl: "bg_set bd wb k v = Inl e \<Longrightarrow> \<exists>m. e = ErrIO m"
      "bg_setat bd wb k v t = Inl e \<Longrightarrow> \<exists>m. e = ErrIO m"
      "bg_del bd wb k = Inl e \<Longrightarrow> \<exists>m. e = ErrIO m"
    and flush_ok: "bg_flush bd db wb = (db', None) \<Longrightarrow> hist db' = write_at (wts wb) (wops wb) (hist db)"
    and flush_fail: "bg_flush bd db wb = (db', Some e) \<Longrightarrow>
        (\<exists>m. e = ErrIO m) \<and> (\<forall>k t. t \<noteq> wts wb \<or> k \<notin> fst ` set (wops wb) \<longrightarrow> hist db' k t = hist db k t)"
    and drop_ok: "bg_drop bd db p = (db', None) \<Longrightarrow> hist db' = drop_keys p (hist db)"
    and drop_fail: "bg_drop bd db p = (db', Some e) \<Longrightarrow>
        (\<exists>m. e = ErrIO m) \<and> (\<forall>k. \<not> prefix p k \<longrightarrow> hist db' k = hist db k)"
begin

lemma get_cases:
  obtains (found) t v where "bg_get bd db r k = Inr (t, Inr v)" "newest (hist db k) r = Some (t, Some v)"
  | (valio) t v m where "bg_get bd db r k = Inr (t, Inl (ErrIO m))" "newest (hist db k) r = Some (t, Some v)"
  | (absent) "bg_get bd db r k = Inl ErrKeyNotFound" "visible (hist db) r k = None"
  | (io) m where "bg_get bd db r k = Inl (ErrIO m)"
proof (cases "bg_get bd db r k")
  case (Inl e)
  with get_Inl [OF Inl] absent io show ?thesis by auto
next
  case (Inr p)
  obtain t x where p: "p = (t, x)" by (cases p)
  from get_Inr [OF Inr [unfolded p]] Inr p found valio show ?thesis by auto
qed

lemma distinct_items: "distinct (map fst (bg_items bd db r))"
  using items_sorted strict_sorted_iff by blast

end

text \<open>
  A run of the store without failures, for statements that an operation succeeds. It leaves out the keys and values
  BadgerDB refuses for a reason of its own: keys beyond its size limit or under its reserved prefix, and batches too
  large for a transaction.
\<close>

locale healthy_badger = managed_badger bd hist wops wts
  for bd :: "('db, 'wb) badger" and hist :: "'db \<Rightarrow> history"
    and wops :: "'wb \<Rightarrow> (bytes \<times> bytes option) list" and wts :: "'wb \<Rightarrow> u64" +
  assumes get_healthy: "bg_get bd db r k = Inl e \<Longrightarrow> e = ErrKeyNotFound"
    and val_healthy: "bg_get bd db r k = Inr (t, x) \<Longrightarrow> \<exists>v. x = Inr v"
    and items_healthy: "(k, x) \<in> set (bg_items bd db r) \<Longrightarrow> \<exists>v. x = Inr v"
    and set_healthy: "k \<noteq> [] \<Longrightarrow> \<exists>wb'. bg_set bd wb k v = Inr wb'"
    and setat_healthy: "k \<noteq> [] \<Longrightarrow> \<exists>wb'. bg_setat bd wb k v (wts wb) = Inr wb'"
    and del_healthy: "k \<noteq> [] \<Longrightarrow> \<exists>wb'. bg_del bd wb k = Inr wb'"
    and flush_healthy: "snd (bg_flush bd db wb) = None"
    and drop_healthy: "snd (bg_drop bd db p) = None"
begin

lemma get_healthy_eq:
  "bg_get bd db r k = (case newest (hist db k) r of Some (t, Some v) \<Rightarrow> Inr (t, Inr v) | _ \<Rightarrow> Inl ErrKeyNotFound)"
proof (rule get_cases [of db r k], goal_cases found valio absent io)
  case (valio t v m)
  with val_healthy [OF valio(1)] show ?case by simp
next
  case (io m)
  with get_healthy [OF io] show ?case by simp
qed (auto simp: visible_def split: option.splits)

end

subsection \<open>An in-memory store with these laws\<close>

text \<open>A log of versioned writes, newest first; a batch is its version and its operations.\<close>

type_synonym mem_db = "((bytes \<times> u64) \<times> bytes option) list"
type_synonym mem_wb = "u64 \<times> (bytes \<times> bytes option) list"

definition mem_hist :: "mem_db \<Rightarrow> history" where
  "mem_hist db = (\<lambda>k t. map_of db (k, t))"

definition mem_versions :: "mem_db \<Rightarrow> bytes \<Rightarrow> u64 \<Rightarrow> u64 list" where
  "mem_versions db k r = map (snd \<circ> fst) (filter (\<lambda>e. fst (fst e) = k \<and> snd (fst e) \<le> r) db)"

definition mem_newest :: "mem_db \<Rightarrow> bytes \<Rightarrow> u64 \<Rightarrow> (u64 \<times> bytes option) option" where
  "mem_newest db k r =
     (case mem_versions db k r of [] \<Rightarrow> None
      | t # ts \<Rightarrow> let m = fold max ts t in Some (m, the (map_of db (k, m))))"

definition mem_get :: "mem_db \<Rightarrow> u64 \<Rightarrow> bytes \<Rightarrow> (u64 \<times> bytes res) res" where
  "mem_get db r k =
     (case mem_newest db k r of Some (t, Some v) \<Rightarrow> Inr (t, Inr v) | _ \<Rightarrow> Inl ErrKeyNotFound)"

definition mem_item :: "mem_db \<Rightarrow> u64 \<Rightarrow> bytes \<Rightarrow> (bytes \<times> bytes res) option" where
  "mem_item db r k = (case mem_newest db k r of Some (t, Some v) \<Rightarrow> Some (k, Inr v) | _ \<Rightarrow> None)"

definition mem_items :: "mem_db \<Rightarrow> u64 \<Rightarrow> (bytes \<times> bytes res) list" where
  "mem_items db r = List.map_filter (mem_item db r) (sort (remdups (map (fst \<circ> fst) db)))"

definition mem_badger :: "(mem_db, mem_wb) badger" where
  "mem_badger = \<lparr>bg_get = mem_get, bg_items = mem_items,
     bg_maxver = (\<lambda>db. foldr max (map (snd \<circ> fst) db) 0),
     bg_batch = (\<lambda>t. (t, [])),
     bg_set = (\<lambda>(t, ops) k v. Inr (t, ops @ [(k, Some v)])),
     bg_setat = (\<lambda>(t, ops) k v _. Inr (t, ops @ [(k, Some v)])),
     bg_del = (\<lambda>(t, ops) k. Inr (t, ops @ [(k, None)])),
     bg_flush = (\<lambda>db (t, ops). (map (\<lambda>(k, ov). ((k, t), ov)) (rev ops) @ db, None)),
     bg_drop = (\<lambda>db p. (filter (\<lambda>e. \<not> prefix p (fst (fst e))) db, None))\<rparr>"

lemma mem_badger_sel [simp]:
  "bg_get mem_badger = mem_get" "bg_items mem_badger = mem_items"
  "bg_maxver mem_badger db = foldr max (map (snd \<circ> fst) db) 0"
  "bg_batch mem_badger t = (t, [])"
  "bg_set mem_badger wb k v = Inr (fst wb, snd wb @ [(k, Some v)])"
  "bg_setat mem_badger wb k v u = Inr (fst wb, snd wb @ [(k, Some v)])"
  "bg_del mem_badger wb k = Inr (fst wb, snd wb @ [(k, None)])"
  "bg_flush mem_badger db wb = (map (\<lambda>(k, ov). ((k, fst wb), ov)) (rev (snd wb)) @ db, None)"
  "bg_drop mem_badger db p = (filter (\<lambda>e. \<not> prefix p (fst (fst e))) db, None)"
  by (simp_all add: mem_badger_def split_beta)

lemma set_mem_versions: "set (mem_versions db k r) = versions_upto (mem_hist db k) r"
  by (force simp: mem_versions_def versions_upto_def mem_hist_def map_of_eq_None_iff)

lemma fold_max_Max: "fold max ts t = Max (set (t # ts))" for t :: u64
  by (metis Max.set_eq_fold)

lemma mem_newest_eq: "mem_newest db k r = newest (mem_hist db k) r"
proof (cases "mem_versions db k r")
  case Nil
  then have "versions_upto (mem_hist db k) r = {}" using set_mem_versions [of db k r] by simp
  with Nil show ?thesis by (simp add: mem_newest_def newest_def)
next
  case (Cons t ts)
  then have "versions_upto (mem_hist db k) r = set (t # ts)" using set_mem_versions [of db k r] by simp
  with Cons show ?thesis
    unfolding mem_newest_def newest_def by (simp only: fold_max_Max Let_def) (simp add: mem_hist_def)
qed

lemma mem_visible: "visible (mem_hist db) r k = (case mem_newest db k r of Some (t, ov) \<Rightarrow> ov | None \<Rightarrow> None)"
  by (simp add: visible_def mem_newest_eq)

lemma mem_newest_key: "mem_newest db k r \<noteq> None \<Longrightarrow> k \<in> fst ` fst ` set db"
  by (force simp: mem_newest_def mem_versions_def filter_eq_Cons_iff map_eq_Cons_conv split: list.splits)

lemma mem_item_fst: "mem_item db r k = Some p \<Longrightarrow> fst p = k"
  by (auto simp: mem_item_def split: option.splits prod.splits)

lemma sorted_map_filter:
  assumes "sorted_wrt (<) ks" and "\<And>k p. f k = Some p \<Longrightarrow> fst p = k"
  shows "sorted_wrt (<) (map fst (List.map_filter f ks))"
  using assms(1)
proof (induction ks)
  case (Cons k ks)
  have "fst p \<in> set ks" if "p \<in> set (List.map_filter f ks)" for p
    using that assms(2) by (fastforce simp: map_filter_def)
  with Cons assms(2) show ?case by (fastforce simp: map_filter_simps split: option.splits)
qed (simp add: map_filter_simps)

lemma mem_items_sorted: "sorted_wrt (<) (map fst (mem_items db r))"
  unfolding mem_items_def
  by (rule sorted_map_filter) (auto simp: strict_sorted_iff dest: mem_item_fst)

lemma mem_items_set: "(k, x) \<in> set (mem_items db r) \<longleftrightarrow> (\<exists>v. x = Inr v \<and> visible (mem_hist db) r k = Some v)"
proof
  assume "(k, x) \<in> set (mem_items db r)"
  then show "\<exists>v. x = Inr v \<and> visible (mem_hist db) r k = Some v"
    by (auto simp: mem_items_def map_filter_def mem_item_def mem_visible split: option.splits prod.splits)
next
  assume "\<exists>v. x = Inr v \<and> visible (mem_hist db) r k = Some v"
  then obtain v where v: "x = Inr v" "visible (mem_hist db) r k = Some v" by auto
  then have "mem_item db r k = Some (k, x)"
    by (auto simp: mem_item_def mem_visible split: option.splits prod.splits)
  moreover have "k \<in> fst ` fst ` set db"
    using v(2) by (intro mem_newest_key [of _ _ r]) (auto simp: mem_visible split: option.splits)
  ultimately show "(k, x) \<in> set (mem_items db r)"
    by (force simp: mem_items_def map_filter_def image_iff)
qed

lemma mem_items_keys: "fst ` set (mem_items db r) = {k. visible (mem_hist db) r k \<noteq> None}"
proof -
  have "k \<in> fst ` set (mem_items db r) \<longleftrightarrow> (\<exists>x. (k, x) \<in> set (mem_items db r))" for k
    by force
  then show ?thesis by (auto simp: mem_items_set)
qed

lemma mem_flush_hist:
  "mem_hist (map (\<lambda>(k, ov). ((k, t), ov)) ops @ db) =
   (\<lambda>k. case map_of ops k of None \<Rightarrow> mem_hist db k | Some ov \<Rightarrow> (mem_hist db k)(t \<mapsto> ov))"
proof (induction ops)
  case (Cons p ops)
  then show ?case
    by (cases p) (auto simp: mem_hist_def fun_eq_iff split: option.splits)
qed (simp add: mem_hist_def)

lemma mem_drop_hist: "mem_hist (filter (\<lambda>e. \<not> prefix p (fst (fst e))) db) = drop_keys p (mem_hist db)"
  by (induction db) (auto simp: mem_hist_def drop_keys_def fun_eq_iff)

lemma mem_maxver: "map_of db (k, t) \<noteq> None \<Longrightarrow> t \<le> foldr max (map (snd \<circ> fst) db) (0 :: u64)"
  by (induction db) (auto simp: le_max_iff_disj split: if_splits)

interpretation mem: healthy_badger mem_badger mem_hist snd fst
proof (unfold_locales, goal_cases)
  case (3 db r) show ?case by (simp add: mem_items_sorted)
next
  case (4 db r) show ?case by (simp add: mem_items_keys)
next
  case (6 db k t) then show ?case by (simp add: mem_hist_def mem_maxver)
next
  case (15 db wb db') then show ?case by (auto simp: mem_flush_hist write_at_def)
qed (auto simp: mem_get_def mem_newest_eq visible_def mem_items_set mem_drop_hist
    split: option.splits prod.splits)

end
