(* ===== verification/GoLib.thy ===== *)
theory GoLib
  imports Prelude
begin

text \<open>
  The parts of Go's standard library that several components call: \<open>strconv\<close> on decimal
  integers, \<open>strings.Split\<close> and the index functions, \<open>encoding/base64\<close> with padding
  and \<open>encoding/hex\<close>. Each encoder comes with the round trip its callers rely on.
\<close>

subsection \<open>Decimal integers (strconv)\<close>

definition isDigit :: "char \<Rightarrow> bool" where
  "isDigit c \<longleftrightarrow> CHR ''0'' \<le> c \<and> c \<le> CHR ''9''"

definition digit_val :: "char \<Rightarrow> nat" where
  "digit_val c = of_char c - 48"

definition digits_val :: "string \<Rightarrow> nat" where
  "digits_val s = foldl (\<lambda>n c. n * 10 + digit_val c) 0 s"

definition parse_digits :: "string \<Rightarrow> nat option" where
  "parse_digits s = (if s \<noteq> [] \<and> list_all isDigit s then Some (digits_val s) else None)"

text \<open>\<open>ParseInt(s, 10, bits)\<close> and \<open>ParseUint(s, 10, bits)\<close>; \<open>None\<close> stands for a syntax or range error.\<close>

definition ParseInt :: "nat \<Rightarrow> string \<Rightarrow> int option" where
  "ParseInt bits s =
     (let (neg, t) = (case s of [] \<Rightarrow> (False, []) | c # cs \<Rightarrow>
             if c = CHR ''-'' then (True, cs) else if c = CHR ''+'' then (False, cs) else (False, s))
      in case parse_digits t of
           None \<Rightarrow> None
         | Some n \<Rightarrow> if neg then (if n \<le> 2 ^ (bits - 1) then Some (- int n) else None)
                     else (if n < 2 ^ (bits - 1) then Some (int n) else None))"

definition ParseUint :: "nat \<Rightarrow> string \<Rightarrow> nat option" where
  "ParseUint bits s = (case parse_digits s of None \<Rightarrow> None | Some n \<Rightarrow> if n < 2 ^ bits then Some n else None)"

fun utoa :: "nat \<Rightarrow> string" where
  "utoa n = (if n < 10 then [char_of (48 + n)] else utoa (n div 10) @ [char_of (48 + n mod 10)])"

declare utoa.simps [simp del]

definition itoa :: "int \<Rightarrow> string" where
  "itoa i = (if i < 0 then CHR ''-'' # utoa (nat (- i)) else utoa (nat i))"

lemma less_char_iff: "c < d \<longleftrightarrow> (of_char c :: nat) < of_char d" for c d :: char
  by (simp add: less_char_def)

lemma le_char_iff: "c \<le> d \<longleftrightarrow> (of_char c :: nat) \<le> of_char d" for c d :: char
  by (simp add: less_eq_char_def)

lemma isDigit_iff: "isDigit c \<longleftrightarrow> 48 \<le> (of_char c :: nat) \<and> of_char c \<le> (57 :: nat)"
  by (simp add: isDigit_def le_char_iff)

lemma digit_char: "d < 10 \<Longrightarrow> isDigit (char_of (48 + d :: nat)) \<and> digit_val (char_of (48 + d :: nat)) = d"
  by (simp add: isDigit_iff digit_val_def)

lemma digits_val_snoc: "digits_val (s @ [c]) = digits_val s * 10 + digit_val c"
  by (simp add: digits_val_def)

lemma utoa_digits: "list_all isDigit (utoa n) \<and> digits_val (utoa n) = n \<and> utoa n \<noteq> []"
proof (induction n rule: utoa.induct)
  case (1 n)
  show ?case
  proof (cases "n < 10")
    case True
    then have "utoa n = [] @ [char_of (48 + n)]" by (simp add: utoa.simps)
    with digit_char [OF True] show ?thesis unfolding digits_val_def by simp
  next
    case False
    then have "utoa n = utoa (n div 10) @ [char_of (48 + n mod 10)]" by (simp add: utoa.simps)
    with digit_char [of "n mod 10"] 1 [OF False] show ?thesis by (simp add: digits_val_snoc)
  qed
qed

lemma parse_digits_utoa [simp]: "parse_digits (utoa n) = Some n"
  using utoa_digits [of n] by (simp add: parse_digits_def)

lemma utoa_hd: "isDigit (hd (utoa n))"
  using utoa_digits [of n] by (cases "utoa n") auto

lemma ParseInt_itoa: "- (2 ^ (bits - 1)) \<le> i \<Longrightarrow> i < 2 ^ (bits - 1) \<Longrightarrow> ParseInt bits (itoa i) = Some i"
proof (cases "i < 0")
  case True
  assume "- (2 ^ (bits - 1)) \<le> i"
  then have "nat (- i) \<le> 2 ^ (bits - 1)" using True by (simp add: nat_le_iff)
  with True show ?thesis by (simp add: ParseInt_def itoa_def)
next
  case False
  assume "i < 2 ^ (bits - 1)"
  then have lt: "nat i < 2 ^ (bits - 1)" using False by (simp add: nat_less_iff)
  obtain c cs where u: "utoa (nat i) = c # cs" using utoa_digits [of "nat i"] by (cases "utoa (nat i)") auto
  then have "isDigit c" using utoa_hd [of "nat i"] by simp
  then have "c \<noteq> CHR ''-''" "c \<noteq> CHR ''+''" by (auto simp: isDigit_iff)
  with u lt False parse_digits_utoa [of "nat i"] show ?thesis by (simp add: ParseInt_def itoa_def)
qed

subsection \<open>Splitting and searching (strings)\<close>

text \<open>\<open>strings.Split\<close> with a one-byte separator, \<open>IndexByte\<close> with the two parts, and \<open>LastIndex\<close>.\<close>

fun split_byte :: "char \<Rightarrow> string \<Rightarrow> string list" where
  "split_byte sep [] = [[]]"
| "split_byte sep (c # cs) =
     (if c = sep then [] # split_byte sep cs
      else case split_byte sep cs of w # ws \<Rightarrow> (c # w) # ws | [] \<Rightarrow> [[c]])"

fun cut_byte :: "char \<Rightarrow> string \<Rightarrow> (string \<times> string) option" where
  "cut_byte sep [] = None"
| "cut_byte sep (c # cs) =
     (if c = sep then Some ([], cs) else map_option (\<lambda>(a, b). (c # a, b)) (cut_byte sep cs))"

fun before_last :: "string \<Rightarrow> string \<Rightarrow> string option" where
  "before_last sub s =
     (case s of
        [] \<Rightarrow> if sub = [] then Some [] else None
      | c # cs \<Rightarrow> (case before_last sub cs of
                      Some a \<Rightarrow> Some (c # a)
                    | None \<Rightarrow> if hasPrefix s sub then Some [] else None))"

declare before_last.simps [simp del]

definition join_byte :: "char \<Rightarrow> string list \<Rightarrow> string" where
  "join_byte sep ws = (case ws of [] \<Rightarrow> [] | w # ws \<Rightarrow> w @ concat (map (\<lambda>x. sep # x) ws))"

lemma split_byte_ne [simp]: "split_byte sep s \<noteq> []"
  by (induction s) (auto split: list.splits)

lemma split_byte_free: "sep \<notin> set w \<Longrightarrow> split_byte sep w = [w]"
  by (induction w) auto

lemma split_byte_app: "sep \<notin> set w \<Longrightarrow> split_byte sep (w @ sep # s) = w # split_byte sep s"
  by (induction w) auto

lemma split_join: "ws \<noteq> [] \<Longrightarrow> \<forall>w \<in> set ws. sep \<notin> set w \<Longrightarrow> split_byte sep (join_byte sep ws) = ws"
proof (induction ws)
  case (Cons w ws)
  then show ?case
    by (cases ws) (auto simp: join_byte_def split_byte_free split_byte_app)
qed simp

lemma cut_byte_app: "sep \<notin> set w \<Longrightarrow> cut_byte sep (w @ sep # s) = Some (w, s)"
  by (induction w) auto

lemma cut_byte_None: "cut_byte sep s = None \<longleftrightarrow> sep \<notin> set s"
  by (induction s) auto

lemma cut_byte_Some: "cut_byte sep s = Some (a, b) \<longleftrightarrow> s = a @ sep # b \<and> sep \<notin> set a"
proof (induction s arbitrary: a)
  case (Cons c cs)
  then show ?case by (cases a) auto
qed simp

lemma before_last_Some: "before_last sub s = Some a \<Longrightarrow> \<exists>b. s = a @ sub @ b"
proof (induction s arbitrary: a)
  case (Cons c cs)
  then show ?case
    by (subst (asm) before_last.simps) (auto simp: hasPrefix_iff prefix_def split: option.splits if_splits)
qed (simp add: before_last.simps split: if_splits)

subsection \<open>Readers and writers (io)\<close>

text \<open>
  \<open>io.ReadFull\<close> on a byte source: \<open>EOF\<close> when nothing is left,
  \<open>ErrUnexpectedEOF\<close> when the source ends inside the buffer. A writer is a function of its
  state and the bytes; \<open>append_writer\<close> is the one of a \<open>bytes.Buffer\<close>.
\<close>

definition readFull :: "nat \<Rightarrow> bytes \<Rightarrow> (bytes \<times> bytes) res" where
  "readFull n src =
     (if n = 0 then Inr ([], src)
      else if src = [] then Inl ErrEOF
      else if length src < n then Inl ErrUnexpectedEOF
      else Inr (take n src, drop n src))"

definition append_writer :: "bytes \<Rightarrow> bytes \<Rightarrow> bytes \<times> go_error option" where
  "append_writer s b = (s @ b, None)"

lemma readFull_shrinks:
  "readFull n src = Inr (b, rest) \<Longrightarrow> length rest = length src - n \<and> n \<le> length src"
  by (auto simp: readFull_def split: if_splits)

subsection \<open>Base64 (encoding/base64, StdEncoding)\<close>

definition b64_alphabet :: string where
  "b64_alphabet = ''ABCDEFGHIJKLMNOPQRSTUVWXYZabcdefghijklmnopqrstuvwxyz0123456789+/''"

definition b64_char :: "nat \<Rightarrow> char" where
  "b64_char n = b64_alphabet ! n"

definition b64_val :: "char \<Rightarrow> nat option" where
  "b64_val c = map_of (zip b64_alphabet [0..<64]) c"

fun b64_encode :: "bytes \<Rightarrow> string" where
  "b64_encode [] = []"
| "b64_encode [a] =
     (let n = of_char a in [b64_char (n div 4), b64_char (n mod 4 * 16), CHR ''='', CHR ''=''])"
| "b64_encode [a, b] =
     (let n = of_char a * 256 + of_char b
      in [b64_char (n div 1024), b64_char (n div 16 mod 64), b64_char (n mod 16 * 4), CHR ''=''])"
| "b64_encode (a # b # c # r) =
     (let n = of_char a * 65536 + of_char b * 256 + of_char c
      in b64_char (n div 262144) # b64_char (n div 4096 mod 64) # b64_char (n div 64 mod 64) # b64_char (n mod 64)
         # b64_encode r)"

text \<open>
  Decoding skips carriage returns and newlines, takes four characters at a time and accepts padding
  only in the last group; the unused low bits of a padded group are dropped.
\<close>

fun b64_groups :: "string \<Rightarrow> bytes option" where
  "b64_groups [] = Some []"
| "b64_groups (a # b # c # d # r) =
     (if d = CHR ''='' then
        (if r \<noteq> [] then None
         else if c = CHR ''='' then
           (case (b64_val a, b64_val b) of
              (Some x, Some y) \<Rightarrow> Some [char_of ((x * 64 + y) div 16)] | _ \<Rightarrow> None)
         else
           (case (b64_val a, b64_val b, b64_val c) of
              (Some x, Some y, Some z) \<Rightarrow>
                (let n = (x * 4096 + y * 64 + z) div 4 in Some [char_of (n div 256), char_of (n mod 256)])
            | _ \<Rightarrow> None))
      else
        (case (b64_val a, b64_val b, b64_val c, b64_val d) of
           (Some x, Some y, Some z, Some w) \<Rightarrow>
             (let n = x * 262144 + y * 4096 + z * 64 + w
              in map_option (\<lambda>t. char_of (n div 65536) # char_of (n div 256 mod 256) # char_of (n mod 256) # t) (b64_groups r))
         | _ \<Rightarrow> None))"
| "b64_groups _ = None"

definition b64_decode :: "string \<Rightarrow> bytes option" where
  "b64_decode s = b64_groups (filter (\<lambda>c. c \<noteq> CHR 0x0A \<and> c \<noteq> CHR 0x0D) s)"

lemma b64_alphabet_length: "length b64_alphabet = 64"
  by (simp add: b64_alphabet_def)

lemma b64_alphabet_distinct: "distinct b64_alphabet"
  by (simp add: b64_alphabet_def)

lemma b64_val_char [simp]: "n < 64 \<Longrightarrow> b64_val (b64_char n) = Some n"
  using map_of_zip_nth [of b64_alphabet "[0..<64]" n] b64_alphabet_distinct b64_alphabet_length
  by (simp add: b64_val_def b64_char_def)

lemma b64_char_in: "n < 64 \<Longrightarrow> b64_char n \<in> set b64_alphabet"
  by (simp add: b64_char_def b64_alphabet_length)

lemma b64_char_plain [simp]: "n < 64 \<Longrightarrow> b64_char n \<noteq> CHR ''='' \<and> b64_char n \<noteq> CHR '','' \<and> b64_char n \<noteq> CHR 0x0A \<and> b64_char n \<noteq> CHR 0x0D"
  using b64_char_in [of n] by (auto simp: b64_alphabet_def)

lemma group1:
  assumes "n < (256 :: nat)"
  shows "n div 4 < 64" "n mod 4 * 16 < 64" "(n div 4 * 64 + n mod 4 * 16) div 16 = n"
proof -
  show "n div 4 < 64" using assms by (intro less_mult_imp_div_less) simp
  have "n mod 4 < 4" by simp
  then show "n mod 4 * 16 < 64" by linarith
  have "n div 4 * 4 + n mod 4 = n" by simp
  then have "n div 4 * 64 + n mod 4 * 16 = n * 16" by linarith
  then show "(n div 4 * 64 + n mod 4 * 16) div 16 = n" by simp
qed

lemma split256: "c < (256 :: nat) \<Longrightarrow> (m * 256 + c) div 256 = m" "c < (256 :: nat) \<Longrightarrow> (m * 256 + c) mod 256 = c"
  by (simp_all only: mod_mult_self3 div_mult_self3) simp_all

lemma group2:
  assumes "a < (256 :: nat)" and "b < (256 :: nat)" and n: "n = a * 256 + b"
  shows "n div 1024 < 64" "n div 16 mod 64 < 64" "n mod 16 * 4 < 64"
    "(n div 1024 * 4096 + n div 16 mod 64 * 64 + n mod 16 * 4) div 4 = n" "n div 256 = a" "n mod 256 = b"
proof -
  have "n < 64 * 1024" using assms by linarith
  then show "n div 1024 < 64" by (rule less_mult_imp_div_less)
  have d: "n div 1024 = n div 16 div 64" by (simp only: div_mult2_eq [symmetric]) simp
  have "n div 16 div 64 * 64 + n div 16 mod 64 = n div 16" "n div 16 * 16 + n mod 16 = n" by simp_all
  then have "n div 1024 * 4096 + n div 16 mod 64 * 64 + n mod 16 * 4 = n * 4" unfolding d by linarith
  then show "(n div 1024 * 4096 + n div 16 mod 64 * 64 + n mod 16 * 4) div 4 = n" by simp
  have "n mod 16 < 16" by simp
  then show "n mod 16 * 4 < 64" by linarith
  show "n div 256 = a" "n mod 256 = b" unfolding n by (rule split256 [OF assms(2)])+
qed simp_all

lemma group3:
  assumes "a < (256 :: nat)" and "b < (256 :: nat)" and "c < (256 :: nat)" and n: "n = a * 65536 + b * 256 + c"
  shows "n div 262144 < 64" "n div 4096 mod 64 < 64" "n div 64 mod 64 < 64" "n mod 64 < 64"
    "n div 262144 * 262144 + n div 4096 mod 64 * 4096 + n div 64 mod 64 * 64 + n mod 64 = n"
    "n div 65536 = a" "n div 256 mod 256 = b" "n mod 256 = c"
proof -
  have "n < 64 * 262144" using assms by linarith
  then show "n div 262144 < 64" by (rule less_mult_imp_div_less)
  have d: "n div 4096 = n div 64 div 64" "n div 262144 = n div 64 div 64 div 64"
    by (simp_all only: div_mult2_eq [symmetric]) simp_all
  have "n div 64 div 64 div 64 * 64 + n div 64 div 64 mod 64 = n div 64 div 64"
    "n div 64 div 64 * 64 + n div 64 mod 64 = n div 64" "n div 64 * 64 + n mod 64 = n" by simp_all
  then show "n div 262144 * 262144 + n div 4096 mod 64 * 4096 + n div 64 mod 64 * 64 + n mod 64 = n"
    unfolding d by linarith
  have q: "n = (a * 256 + b) * 256 + c" using n by simp
  have h: "n div 256 = a * 256 + b" "n mod 256 = c" unfolding q by (rule split256 [OF assms(3)])+
  show "n mod 256 = c" by (rule h)
  show "n div 256 mod 256 = b" unfolding h by (rule split256 [OF assms(2)])
  have "n div 65536 = n div 256 div 256" by (simp only: div_mult2_eq [symmetric]) simp
  then show "n div 65536 = a" unfolding h by (simp only: split256 [OF assms(2)])
qed simp_all

lemma b64_groups_step:
  assumes "x < 64" and "y < 64" and "z < 64" and "w < 64" and "x * 262144 + y * 4096 + z * 64 + w = n"
  shows "b64_groups (b64_char x # b64_char y # b64_char z # b64_char w # r) =
    map_option (\<lambda>t. char_of (n div 65536) # char_of (n div 256) # char_of n # t) (b64_groups r)"
  using assms(1-4) by (simp add: assms(5))

lemma b64_groups_encode: "b64_groups (b64_encode bs) = Some bs"
proof (induction bs rule: b64_encode.induct)
  case (2 a)
  note g = group1 [OF of_char_less [of a]]
  show ?case using g(1,2) by (simp add: Let_def g(3))
next
  case (3 a b)
  note g = group2 [OF of_char_less [of a] of_char_less [of b] refl]
  have "char_of (of_char a * 256 + of_char b :: nat) = b" by (metis char_of_mod_256 char_of_char g(6))
  then show ?case using g(1-3) by (simp add: Let_def g(4-6))
next
  case (4 a b c r)
  let ?n = "of_char a * 65536 + of_char b * 256 + of_char c :: nat"
  note g = group3 [OF of_char_less [of a] of_char_less [of b] of_char_less [of c] refl]
  have ch: "char_of ?n = c" "char_of (?n div 256) = b" "char_of (?n div 65536) = a"
    using g(6-8) [THEN arg_cong, of char_of] by (simp_all only: char_of_mod_256 char_of_char)
  have ih: "b64_groups (b64_encode r) = Some r" by (rule 4) (rule refl)
  show ?case unfolding b64_encode.simps Let_def b64_groups_step [OF g(1-5)] ih ch option.map by (rule refl)
qed simp

lemma b64_step_set:
  assumes "x < 64" and "y < 64" and "z < 64" and "w < 64" and "set r \<subseteq> insert c (set b64_alphabet)"
  shows "set (b64_char x # b64_char y # b64_char z # b64_char w # r) \<subseteq> insert c (set b64_alphabet)"
  using assms(5) assms(1-4) [THEN b64_char_in] by simp

lemma b64_encode_chars: "set (b64_encode bs) \<subseteq> insert (CHR ''='') (set b64_alphabet)"
proof (induction bs rule: b64_encode.induct)
  case (2 a)
  note g = group1 [OF of_char_less [of a]]
  show ?case using g(1,2) [THEN b64_char_in] by (simp add: Let_def)
next
  case (3 a b)
  note g = group2 [OF of_char_less [of a] of_char_less [of b] refl]
  show ?case using g(1-3) [THEN b64_char_in] by (simp add: Let_def)
next
  case (4 a b c r)
  note g = group3 [OF of_char_less [of a] of_char_less [of b] of_char_less [of c] refl]
  have ih: "set (b64_encode r) \<subseteq> insert (CHR ''='') (set b64_alphabet)" by (rule 4) (rule refl)
  show ?case unfolding b64_encode.simps Let_def by (rule b64_step_set [OF g(1-4) ih])
qed simp

lemma b64_encode_plain: "CHR '','' \<notin> set (b64_encode bs)" "CHR 0x0A \<notin> set (b64_encode bs)" "CHR 0x0D \<notin> set (b64_encode bs)"
  using b64_encode_chars [of bs] by (auto simp: b64_alphabet_def)

lemma b64_decode_encode [simp]: "b64_decode (b64_encode bs) = Some bs"
proof -
  have "filter (\<lambda>c. c \<noteq> CHR 0x0A \<and> c \<noteq> CHR 0x0D) (b64_encode bs) = b64_encode bs"
    using b64_encode_plain [of bs] by (auto simp: filter_id_conv)
  then show ?thesis by (simp add: b64_decode_def b64_groups_encode)
qed

subsection \<open>Hexadecimal (encoding/hex)\<close>

definition hex_digit :: "nat \<Rightarrow> char" where
  "hex_digit n = ''0123456789abcdef'' ! n"

definition hex_val :: "char \<Rightarrow> nat option" where
  "hex_val c =
     (let n = of_char c
      in if 48 \<le> n \<and> n \<le> 57 then Some (n - 48) else if 97 \<le> n \<and> n \<le> 102 then Some (n - 87)
         else if 65 \<le> n \<and> n \<le> 70 then Some (n - 55) else None)"

primrec hex_encode :: "bytes \<Rightarrow> string" where
  "hex_encode [] = []"
| "hex_encode (c # cs) = hex_digit (of_char c div 16) # hex_digit (of_char c mod 16) # hex_encode cs"

fun hex_decode :: "string \<Rightarrow> bytes option" where
  "hex_decode [] = Some []"
| "hex_decode [c] = None"
| "hex_decode (a # b # r) =
     (case (hex_val a, hex_val b, hex_decode r) of
        (Some x, Some y, Some t) \<Rightarrow> Some (char_of (x * 16 + y) # t) | _ \<Rightarrow> None)"

lemma hex_val_digit [simp]:
  assumes "n < 16"
  shows "hex_val (hex_digit n) = Some n"
proof -
  have "\<forall>n \<in> set [0..<16]. hex_val (hex_digit n) = Some n" by (simp add: upt_rec hex_val_def hex_digit_def)
  with assms show ?thesis by simp
qed

lemma hex_decode_encode [simp]: "hex_decode (hex_encode bs) = Some bs"
proof (induction bs)
  case (Cons c cs)
  have "of_char c div 16 < (16 :: nat)" using of_char_less [of c] by (intro less_mult_imp_div_less) simp
  with Cons show ?case by simp
qed simp

lemma length_hex_encode [simp]: "length (hex_encode bs) = 2 * length bs"
  by (induction bs) simp_all

end
