(* ===== verification/Store.thy ===== *)
theory Store
  imports Badger GoLib
begin

text \<open>
  The storage layer of \<open>storage/store.go\<close> over the BadgerDB operations: point reads, the
  newest-version query of the commit protocol, prefix iterators in both directions, the backup
  stream and namespace erasure.
\<close>

subsection \<open>Point reads\<close>

definition store_Get :: "('db, 'wb) badger \<Rightarrow> 'db \<Rightarrow> u64 \<Rightarrow> Key \<Rightarrow> bytes res" where
  "store_Get bd db r k = (case bg_get bd db r k of Inl e \<Rightarrow> Inl e | Inr (t, v) \<Rightarrow> v)"

definition LatestVersion :: "('db, 'wb) badger \<Rightarrow> 'db \<Rightarrow> Key \<Rightarrow> (u64 \<times> bool) res" where
  "LatestVersion bd db k =
     (case bg_get bd db (bg_maxver bd db) k of
        Inl e \<Rightarrow> if e = ErrKeyNotFound then Inr (0, False) else Inl e
      | Inr (t, v) \<Rightarrow> Inr (t, True))"

subsection \<open>Iterators\<close>

text \<open>
  An iterator is the items of its snapshot in the direction of travel and those from its
  position on. \<open>bg_seek\<close> is the positioning of a Badger iterator: the first key at or after
  the target, at or before it in reverse, and the start for an empty target.
\<close>

record store_iter =
  si_items :: "(bytes \<times> bytes res) list"
  si_rest :: "(bytes \<times> bytes res) list"
  si_prefix :: bytes
  si_reverse :: bool

definition bg_seek :: "store_iter \<Rightarrow> bytes \<Rightarrow> store_iter" where
  "bg_seek it k = it\<lparr>si_rest :=
     (if k = [] then si_items it
      else if si_reverse it then dropWhile (\<lambda>x. k < fst x) (si_items it)
      else dropWhile (\<lambda>x. fst x < k) (si_items it))\<rparr>"

definition store_NewIterator :: "('db, 'wb) badger \<Rightarrow> 'db \<Rightarrow> u64 \<Rightarrow> Key \<Rightarrow> store_iter" where
  "store_NewIterator bd db r p =
     \<lparr>si_items = bg_items bd db r, si_rest = [], si_prefix = p, si_reverse = False\<rparr>"

definition store_NewReverseIterator :: "('db, 'wb) badger \<Rightarrow> 'db \<Rightarrow> u64 \<Rightarrow> Key \<Rightarrow> store_iter" where
  "store_NewReverseIterator bd db r p =
     \<lparr>si_items = rev (bg_items bd db r), si_rest = [], si_prefix = p, si_reverse = True\<rparr>"

text \<open>\<open>prefixSuccessor\<close>, its loop running over the reversed prefix.\<close>

fun successor_loop :: "bytes \<Rightarrow> bytes" where
  "successor_loop [] = []"
| "successor_loop (c # out) =
     (if c \<noteq> CHR 0xFF then rev out @ [char_of (of_char c + 1 :: nat)] else successor_loop out)"

definition prefixSuccessor :: "bytes \<Rightarrow> bytes" where
  "prefixSuccessor p = successor_loop (rev p)"

definition iter_Rewind :: "store_iter \<Rightarrow> store_iter" where
  "iter_Rewind i = (if si_reverse i then bg_seek i (prefixSuccessor (si_prefix i))
                    else bg_seek i (si_prefix i))"

definition iter_Seek :: "store_iter \<Rightarrow> Key \<Rightarrow> store_iter" where
  "iter_Seek i k = bg_seek i k"

definition iter_Valid :: "store_iter \<Rightarrow> bool" where
  "iter_Valid i = (case si_rest i of [] \<Rightarrow> False | x # _ \<Rightarrow> hasPrefix (fst x) (si_prefix i))"

definition iter_Next :: "store_iter \<Rightarrow> store_iter" where
  "iter_Next i = i\<lparr>si_rest := tl (si_rest i)\<rparr>"

definition iter_Key :: "store_iter \<Rightarrow> Key" where
  "iter_Key i = fst (hd (si_rest i))"

definition iter_Value :: "store_iter \<Rightarrow> bytes res" where
  "iter_Value i = snd (hd (si_rest i))"

text \<open>What the loop \<open>for ; it.Valid(); it.Next()\<close> visits.\<close>

function iter_visit :: "store_iter \<Rightarrow> (Key \<times> bytes res) list" where
  "iter_visit i = (if iter_Valid i then (iter_Key i, iter_Value i) # iter_visit (iter_Next i) else [])"
  by pat_completeness auto
termination
  by (relation "measure (\<lambda>i. length (si_rest i))")
     (auto simp: iter_Valid_def iter_Next_def split: list.splits)

declare iter_visit.simps [simp del]

subsection \<open>Backup stream\<close>

text \<open>
  \<open>wr\<close> is the \<open>io.Writer\<close>: it consumes bytes and may fail.
\<close>

definition writeChunk :: "('s \<Rightarrow> bytes \<Rightarrow> 's \<times> go_error option) \<Rightarrow> 's \<Rightarrow> bytes \<Rightarrow> 's \<times> go_error option" where
  "writeChunk wr s b =
     (case wr s (be 4 (length b)) of
        (s', Some e) \<Rightarrow> (s', Some e)
      | (s', None) \<Rightarrow> wr s' b)"

definition readChunk :: "bytes \<Rightarrow> (bytes \<times> bytes) res" where
  "readChunk src =
     (case readFull 4 src of
        Inl e \<Rightarrow> Inl e
      | Inr (lp, rest) \<Rightarrow> readFull (unbe lp) rest)"

fun backup_loop :: "('s \<Rightarrow> bytes \<Rightarrow> 's \<times> go_error option) \<Rightarrow> (bytes \<times> bytes res) list \<Rightarrow> 's \<Rightarrow> 's \<times> go_error option" where
  "backup_loop wr [] s = (s, None)"
| "backup_loop wr ((k, Inl e) # its) s = (s, Some e)"
| "backup_loop wr ((k, Inr v) # its) s =
     (case writeChunk wr s k of
        (s, Some e) \<Rightarrow> (s, Some e)
      | (s, None) \<Rightarrow>
          (case writeChunk wr s v of
             (s, Some e) \<Rightarrow> (s, Some e)
           | (s, None) \<Rightarrow> backup_loop wr its s))"

definition Backup :: "('db, 'wb) badger \<Rightarrow> ('s \<Rightarrow> bytes \<Rightarrow> 's \<times> go_error option) \<Rightarrow> 'db \<Rightarrow> 's \<Rightarrow> 's \<times> u64 res" where
  "Backup bd wr db s =
     (let ver = bg_maxver bd db in
      case backup_loop wr (bg_items bd db ver) s of
        (s', Some e) \<Rightarrow> (s', Inl e)
      | (s', None) \<Rightarrow> (s', Inr ver))"

lemma readChunk_shrinks: "readChunk src = Inr (b, rest) \<Longrightarrow> length rest < length src"
  by (auto simp: readChunk_def dest!: readFull_shrinks split: sum.splits)

text \<open>The loop of \<open>Restore\<close>: the batch filled from the stream, or the error that cancels it.\<close>

function restore_loop :: "('db, 'wb) badger \<Rightarrow> 'wb \<Rightarrow> bytes \<Rightarrow> 'wb res" where
  "restore_loop bd wb src =
     (case readChunk src of
        Inl e \<Rightarrow> if e = ErrEOF then Inr wb else Inl e
      | Inr (k, src1) \<Rightarrow>
          (case readChunk src1 of
             Inl e \<Rightarrow> Inl e
           | Inr (v, src2) \<Rightarrow>
               (case bg_setat bd wb k v 1 of
                  Inl e \<Rightarrow> Inl e
                | Inr wb' \<Rightarrow> restore_loop bd wb' src2)))"
  by pat_completeness auto
termination
  by (relation "measure (\<lambda>(bd, wb, src). length src)") (auto dest!: readChunk_shrinks)

declare restore_loop.simps [simp del]

definition Restore :: "('db, 'wb) badger \<Rightarrow> 'db \<Rightarrow> bytes \<Rightarrow> 'db \<times> go_error option" where
  "Restore bd db src =
     (case restore_loop bd (bg_batch bd 1) src of
        Inl e \<Rightarrow> (db, Some e)
      | Inr wb \<Rightarrow> bg_flush bd db wb)"

subsection \<open>Namespace erasure\<close>

definition DeleteNamespace :: "('db, 'wb) badger \<Rightarrow> 'db \<Rightarrow> NamespaceID \<Rightarrow> 'db \<times> go_error option" where
  "DeleteNamespace bd db ns =
     (if NamespaceID_IsZero ns then
        (db, Some (ErrMsg ''storage: DeleteNamespace requires a validated namespace''))
      else bg_drop bd db (NamespacePrefix ns))"

subsection \<open>Prefix ranges in byte order\<close>

lemma prefix_le: "prefix p k \<Longrightarrow> p \<le> k" for p k :: bytes
proof (induction p arbitrary: k)
  case (Cons c p)
  then show ?case by (cases k) auto
qed simp

text \<open>The keys with a prefix are contiguous: what follows the prefix without carrying it follows them all.\<close>

lemma prefix_block: "p \<le> k \<Longrightarrow> \<not> prefix p k \<Longrightarrow> prefix p k' \<Longrightarrow> k' < k" for p k :: bytes
proof (induction p arbitrary: k k')
  case (Cons c p)
  then show ?case by (cases k; cases k') auto
qed simp

lemma successor_loop_snoc:
  "successor_loop (xs @ [c]) =
     (if successor_loop xs \<noteq> [] then c # successor_loop xs
      else if c \<noteq> CHR 0xFF then [char_of (of_char c + 1 :: nat)] else [])"
  by (induction xs) auto

lemma prefixSuccessor_Nil [simp]: "prefixSuccessor [] = []"
  by (simp add: prefixSuccessor_def)

lemma prefixSuccessor_Cons:
  "prefixSuccessor (c # p) =
     (if prefixSuccessor p \<noteq> [] then c # prefixSuccessor p
      else if c \<noteq> CHR 0xFF then [char_of (of_char c + 1 :: nat)] else [])"
  by (simp add: prefixSuccessor_def successor_loop_snoc)

lemma char_succ:
  assumes "c \<noteq> CHR 0xFF"
  shows "d < char_of (of_char c + 1 :: nat) \<longleftrightarrow> d \<le> c"
proof -
  have "of_char c \<noteq> (255 :: nat)"
  proof
    assume "of_char c = (255 :: nat)"
    also have "\<dots> = of_char (CHR 0xFF)" by simp
    finally show False using assms by (simp only: of_char_eq_iff)
  qed
  with of_char_less [of c] have "of_char c + 1 < (256 :: nat)" by linarith
  then have "of_char (char_of (of_char c + 1 :: nat)) = (of_char c + 1 :: nat)" by simp
  then show ?thesis by (simp add: less_char_def less_eq_char_def less_Suc_eq_le)
qed

lemma char_le_FF: "c \<le> CHR 0xFF"
proof -
  have "of_char (CHR 0xFF) = (255 :: nat)" by simp
  with of_char_less [of c] show ?thesis unfolding less_eq_char_def by linarith
qed

lemma prefixSuccessor_none: "prefixSuccessor p = [] \<Longrightarrow> p \<le> k \<Longrightarrow> prefix p k"
proof (induction p arbitrary: k)
  case (Cons c p)
  then have "c = CHR 0xFF" "prefixSuccessor p = []" by (auto simp: prefixSuccessor_Cons split: if_splits)
  with Cons char_le_FF show ?case by (cases k) (auto simp: less_le_not_le)
qed simp

lemma prefixSuccessor_some:
  "prefixSuccessor p \<noteq> [] \<Longrightarrow> p \<le> k \<and> k < prefixSuccessor p \<longleftrightarrow> prefix p k"
proof (induction p arbitrary: k)
  case (Cons c p)
  show ?case
  proof (cases "prefixSuccessor p = []")
    case True
    with Cons.prems have c: "c \<noteq> CHR 0xFF" and s: "prefixSuccessor (c # p) = [char_of (of_char c + 1 :: nat)]"
      by (auto simp: prefixSuccessor_Cons split: if_splits)
    show ?thesis
    proof (cases k)
      case (Cons d k')
      have "k < prefixSuccessor (c # p) \<longleftrightarrow> d \<le> c"
        unfolding s Cons using char_succ [OF c, of d] by simp
      moreover have "c # p \<le> k \<longleftrightarrow> c < d \<or> c = d \<and> p \<le> k'" by (simp add: Cons)
      moreover have "p \<le> k' \<longleftrightarrow> prefix p k'"
        using prefixSuccessor_none [OF True, of k'] prefix_le [of p k'] by blast
      ultimately show ?thesis unfolding Cons by (metis Cons_prefix_Cons leD order_refl)
    qed simp
  next
    case False
    then have s: "prefixSuccessor (c # p) = c # prefixSuccessor p" by (simp add: prefixSuccessor_Cons)
    have IH: "p \<le> k' \<and> k' < prefixSuccessor p \<longleftrightarrow> prefix p k'" for k' by (rule Cons.IH [OF False])
    show ?thesis
    proof (cases k)
      case k: (Cons d k')
      show ?thesis unfolding s k using IH [of k'] by (cases "c = d") auto
    qed simp
  qed
qed simp

subsection \<open>Scans\<close>

lemma iter_visit_eq: "iter_visit i = takeWhile (\<lambda>x. prefix (si_prefix i) (fst x)) (si_rest i)"
proof (induction i rule: iter_visit.induct)
  case (1 i)
  show ?case
  proof (cases "si_rest i")
    case Nil
    then show ?thesis by (subst iter_visit.simps) (simp add: iter_Valid_def)
  next
    case (Cons x xs)
    show ?thesis
    proof (cases "iter_Valid i")
      case True
      then show ?thesis using 1 [OF True] Cons
        by (subst iter_visit.simps) (simp add: iter_Valid_def iter_Next_def iter_Key_def iter_Value_def hasPrefix_iff)
    next
      case False
      then show ?thesis using Cons by (subst iter_visit.simps) (simp add: iter_Valid_def hasPrefix_iff)
    qed
  qed
qed

lemma sorted_prefix_range:
  fixes xs :: "(bytes \<times> 'a) list"
  assumes "sorted_wrt (<) (map fst xs)"
  shows "takeWhile (\<lambda>x. prefix p (fst x)) (dropWhile (\<lambda>x. fst x < p) xs) = filter (\<lambda>x. prefix p (fst x)) xs"
  using assms
proof (induction xs)
  case (Cons x xs)
  then have IH: "takeWhile (\<lambda>x. prefix p (fst x)) (dropWhile (\<lambda>x. fst x < p) xs) = filter (\<lambda>x. prefix p (fst x)) xs"
    and lt: "\<And>y. y \<in> set xs \<Longrightarrow> fst x < fst y" by auto
  show ?case
  proof (cases "fst x < p")
    case True
    then have "\<not> prefix p (fst x)" using prefix_le leD by blast
    with True IH show ?thesis by simp
  next
    case False
    then have le: "p \<le> fst x" by simp
    have "\<not> fst y < p" if "y \<in> set xs" for y
      using lt [OF that] le by (meson leD order_le_less_trans order_less_imp_le)
    then have dw: "dropWhile (\<lambda>x. fst x < p) xs = xs" by (cases xs) simp_all
    show ?thesis
    proof (cases "prefix p (fst x)")
      case True
      with False dw IH show ?thesis by simp
    next
      case neg: False
      have "\<not> prefix p (fst y)" if "y \<in> set xs" for y
        using lt [OF that] prefix_block [OF le neg, of "fst y"] by (meson order_less_asym)
      then have "filter (\<lambda>x. prefix p (fst x)) xs = []" by (simp add: filter_empty_conv)
      with False neg show ?thesis by simp
    qed
  qed
qed simp

lemma sorted_prefix_range_rev:
  fixes xs :: "(bytes \<times> 'a) list"
  assumes below: "\<And>k. prefix p k \<Longrightarrow> k < u" and only: "\<And>k. k < u \<Longrightarrow> p \<le> k \<Longrightarrow> prefix p k"
    and "sorted_wrt (>) (map fst xs)" and "u \<notin> fst ` set xs"
  shows "takeWhile (\<lambda>x. prefix p (fst x)) (dropWhile (\<lambda>x. u < fst x) xs) = filter (\<lambda>x. prefix p (fst x)) xs"
  using assms(3,4)
proof (induction xs)
  case (Cons x xs)
  then have IH: "takeWhile (\<lambda>x. prefix p (fst x)) (dropWhile (\<lambda>x. u < fst x) xs) = filter (\<lambda>x. prefix p (fst x)) xs"
    and lt: "\<And>y. y \<in> set xs \<Longrightarrow> fst y < fst x" and ne: "fst x \<noteq> u" by auto
  consider "u < fst x" | "fst x < u" "prefix p (fst x)" | "fst x < u" "\<not> prefix p (fst x)"
    using ne by (meson linorder_neqE)
  then show ?case
  proof cases
    case 1
    then have "\<not> prefix p (fst x)" using below [of "fst x"] by (meson order_less_asym)
    with 1 IH show ?thesis by simp
  next
    case 2
    have "\<not> u < fst y" if "y \<in> set xs" for y
      using lt [OF that] 2(1) by (meson order_less_asym order_less_trans)
    then have "dropWhile (\<lambda>x. u < fst x) xs = xs" by (cases xs) simp_all
    moreover have "\<not> u < fst x" using 2 by (meson order_less_asym)
    ultimately show ?thesis using 2 IH by simp
  next
    case 3
    then have x: "fst x < p" using only [of "fst x"] by (meson linorder_not_less)
    have "\<not> prefix p (fst y)" if "y \<in> set xs" for y
      using lt [OF that] x prefix_le [of p "fst y"] by (meson leD order_less_trans)
    then have "filter (\<lambda>x. prefix p (fst x)) xs = []" by (simp add: filter_empty_conv)
    moreover have "\<not> u < fst x" using 3 by (meson order_less_asym)
    ultimately show ?thesis using 3 by simp
  qed
qed simp

lemma takeWhile_desc:
  fixes xs :: "(bytes \<times> 'a) list"
  shows "sorted_wrt (>) (map fst xs) \<Longrightarrow> takeWhile (\<lambda>x. p \<le> fst x) xs = filter (\<lambda>x. p \<le> fst x) xs"
proof (induction xs)
  case (Cons x xs)
  then have IH: "takeWhile (\<lambda>x. p \<le> fst x) xs = filter (\<lambda>x. p \<le> fst x) xs"
    and lt: "\<And>y. y \<in> set xs \<Longrightarrow> fst y < fst x" by auto
  have "\<not> p \<le> fst y" if "\<not> p \<le> fst x" "y \<in> set xs" for y
    using lt [OF that(2)] that(1) by (meson order_le_less_trans order_less_imp_le)
  then have "\<not> p \<le> fst x \<Longrightarrow> filter (\<lambda>x. p \<le> fst x) xs = []" by (simp add: filter_empty_conv)
  with IH show ?case by (cases "p \<le> fst x") simp_all
qed simp

context managed_badger
begin

lemma store_Get_cases:
  obtains (found) v where "store_Get bd db r k = Inr v" "visible (hist db) r k = Some v"
  | (absent) "store_Get bd db r k = Inl ErrKeyNotFound" "visible (hist db) r k = None"
  | (io) m where "store_Get bd db r k = Inl (ErrIO m)"
  using get_cases [of db r k] by (cases rule: get_cases [of db r k]) (auto simp: store_Get_def visible_def)

lemma store_Get_Inr: "store_Get bd db r k = Inr v \<Longrightarrow> visible (hist db) r k = Some v"
  by (cases rule: store_Get_cases [of db r k]) auto

lemma store_Get_notfound: "store_Get bd db r k = Inl ErrKeyNotFound \<Longrightarrow> visible (hist db) r k = None"
  by (cases rule: store_Get_cases [of db r k]) auto

lemma LatestVersion_cases:
  obtains (found) t v where "LatestVersion bd db k = Inr (t, True)" "newest (hist db k) (bg_maxver bd db) = Some (t, Some v)"
  | (absent) "LatestVersion bd db k = Inr (0, False)" "visible (hist db) (bg_maxver bd db) k = None"
  | (io) m where "LatestVersion bd db k = Inl (ErrIO m)"
  by (cases rule: get_cases [of db "bg_maxver bd db" k]) (auto simp: LatestVersion_def)

lemma forward_visit:
  "iter_visit (iter_Rewind (store_NewIterator bd db r p)) = filter (\<lambda>x. prefix p (fst x)) (bg_items bd db r)"
proof (cases "p = []")
  case False
  then show ?thesis
    by (simp add: iter_visit_eq iter_Rewind_def store_NewIterator_def bg_seek_def sorted_prefix_range items_sorted)
qed (simp add: iter_visit_eq iter_Rewind_def store_NewIterator_def bg_seek_def)

lemma reverse_visit:
  assumes "visible (hist db) r (prefixSuccessor p) = None"
  shows "iter_visit (iter_Rewind (store_NewReverseIterator bd db r p))
         = rev (filter (\<lambda>x. prefix p (fst x)) (bg_items bd db r))"
proof -
  let ?xs = "rev (bg_items bd db r)" and ?u = "prefixSuccessor p"
  have srt: "sorted_wrt (>) (map fst ?xs)"
    using items_sorted [of db r] by (simp add: sorted_wrt_rev rev_map [symmetric])
  show ?thesis
  proof (cases "?u = []")
    case True
    have "takeWhile (\<lambda>x. prefix p (fst x)) ?xs = filter (\<lambda>x. prefix p (fst x)) ?xs"
    proof -
      have iff: "prefix p k \<longleftrightarrow> p \<le> k" for k
        using prefixSuccessor_none [OF True] prefix_le by blast
      show ?thesis unfolding iff using srt by (rule takeWhile_desc)
    qed
    with True show ?thesis
      by (simp add: iter_visit_eq iter_Rewind_def store_NewReverseIterator_def bg_seek_def rev_filter)
  next
    case False
    have "?u \<notin> fst ` set ?xs" using assms items_keys [of db r] by auto
    then have "takeWhile (\<lambda>x. prefix p (fst x)) (dropWhile (\<lambda>x. ?u < fst x) ?xs) = filter (\<lambda>x. prefix p (fst x)) ?xs"
      by (intro sorted_prefix_range_rev srt) (use prefixSuccessor_some [OF False] in auto)
    with False show ?thesis
      by (simp add: iter_visit_eq iter_Rewind_def store_NewReverseIterator_def bg_seek_def rev_filter)
  qed
qed

lemma forward_visit_keys:
  "fst ` set (iter_visit (iter_Rewind (store_NewIterator bd db r p))) = {k. prefix p k \<and> visible (hist db) r k \<noteq> None}"
  using items_keys [of db r] by (force simp: forward_visit)

end

text \<open>
  C13. A forward prefix scan of a snapshot visits exactly the live keys that carry the prefix, in
  strictly ascending byte order, and every value it yields is the one a point read of that key at
  the same timestamp may return.
\<close>

theorem forward_scan_exact:
  assumes "managed_badger bd hist wops wts"
  shows "sorted_wrt (<) (map fst (iter_visit (iter_Rewind (store_NewIterator bd db r p))))
       \<and> fst ` set (iter_visit (iter_Rewind (store_NewIterator bd db r p)))
           = {k. prefix p k \<and> visible (hist db) r k \<noteq> None}
       \<and> (\<forall>k v w. (k, Inr v) \<in> set (iter_visit (iter_Rewind (store_NewIterator bd db r p)))
             \<longrightarrow> store_Get bd db r k = Inr w \<longrightarrow> v = w)"
proof -
  have srt: "sorted_wrt (<) (map fst (filter (\<lambda>x. prefix p (fst x)) (bg_items bd db r)))"
    using managed_badger.items_sorted [OF assms, of db r]
    by (simp add: sorted_wrt_map sorted_wrt_filter)
  moreover have "v = w" if "(k, Inr v) \<in> set (bg_items bd db r)" "store_Get bd db r k = Inr w" for k v w
    using managed_badger.items_vals [OF assms that(1)] managed_badger.store_Get_Inr [OF assms that(2)] by simp
  ultimately show ?thesis
    using managed_badger.forward_visit_keys [OF assms, of db r p]
    by (auto simp: managed_badger.forward_visit [OF assms])
qed

definition example_db :: mem_db where
  "example_db = [((''a/2'', 5), Some ''y''), ((''a/1'', 4), None), ((''b'', 3), Some ''z''),
                 ((''a/1'', 2), Some ''x''), ((''a/3'', 2), Some ''w'')]"

theorem forward_scan_exact_witness:
  "fst ` set (iter_visit (iter_Rewind (store_NewIterator mem_badger example_db 5 ''a/'')))
     = {k. prefix ''a/'' k \<and> visible (mem_hist example_db) 5 k \<noteq> None}
   \<and> ''a/3'' \<in> {k. prefix ''a/'' k \<and> visible (mem_hist example_db) 5 k \<noteq> None}"
  using forward_scan_exact [OF mem.managed_badger_axioms, of example_db 5 "''a/''"]
  by (simp add: mem_visible mem_newest_def mem_versions_def example_db_def)

text \<open>
  A reverse prefix scan visits what the forward scan visits, in the opposite order, unless
  the successor of the prefix is itself a live key.
\<close>

theorem reverse_scan_mirrors_forward:
  assumes "managed_badger bd hist wops wts" and "visible (hist db) r (prefixSuccessor p) = None"
  shows "iter_visit (iter_Rewind (store_NewReverseIterator bd db r p))
         = rev (iter_visit (iter_Rewind (store_NewIterator bd db r p)))"
  using assms by (simp add: managed_badger.forward_visit managed_badger.reverse_visit)

theorem reverse_scan_mirrors_forward_witness:
  "iter_visit (iter_Rewind (store_NewReverseIterator mem_badger example_db 5 ''a/''))
     = rev (iter_visit (iter_Rewind (store_NewIterator mem_badger example_db 5 ''a/'')))"
proof -
  have "visible (mem_hist example_db) 5 (prefixSuccessor ''a/'') = None"
    by (simp add: mem_visible mem_newest_def mem_versions_def example_db_def prefixSuccessor_def char_of_def)
  then show ?thesis by (rule reverse_scan_mirrors_forward [OF mem.managed_badger_axioms])
qed

subsection \<open>Backup and restore\<close>

text \<open>The stream of a list of pairs: key chunk, value chunk, and so on.\<close>

definition chunk :: "bytes \<Rightarrow> bytes" where
  "chunk b = be 4 (length b) @ b"

definition backup_stream :: "(bytes \<times> bytes) list \<Rightarrow> bytes" where
  "backup_stream ps = concat (map (\<lambda>(k, v). chunk k @ chunk v) ps)"

fun set_pairs :: "('db, 'wb) badger \<Rightarrow> 'wb \<Rightarrow> (bytes \<times> bytes) list \<Rightarrow> 'wb res" where
  "set_pairs bd wb [] = Inr wb"
| "set_pairs bd wb ((k, v) # ps) =
     (case bg_setat bd wb k v 1 of Inl e \<Rightarrow> Inl e | Inr wb' \<Rightarrow> set_pairs bd wb' ps)"

abbreviation chunk_max :: nat where
  "chunk_max \<equiv> 256 ^ 4"

lemma readChunk_chunk: "length b < chunk_max \<Longrightarrow> readChunk (chunk b @ rest) = Inr (b, rest)"
  by (auto simp: readChunk_def readFull_def chunk_def)

lemma readChunk_Nil [simp]: "readChunk [] = Inl ErrEOF"
  by (simp add: readChunk_def readFull_def)

lemma backup_loop_append:
  "backup_loop append_writer (map (\<lambda>(k, v). (k, Inr v)) ps) s = (s @ backup_stream ps, None)"
  by (induction ps arbitrary: s) (auto simp: writeChunk_def append_writer_def backup_stream_def chunk_def)

lemma restore_loop_stream:
  assumes "\<forall>(k, v) \<in> set ps. length k < chunk_max \<and> length v < chunk_max"
    and "readChunk tl' = Inl ErrEOF"
  shows "restore_loop bd wb (backup_stream ps @ tl') = set_pairs bd wb ps"
  using assms(1)
proof (induction ps arbitrary: wb)
  case Nil
  then show ?case using assms(2) by (simp add: backup_stream_def restore_loop.simps [of bd wb])
next
  case (Cons p ps)
  obtain k v where p: "p = (k, v)" by (cases p)
  have "backup_stream (p # ps) @ tl' = chunk k @ chunk v @ backup_stream ps @ tl'"
    by (simp add: backup_stream_def p)
  then have "restore_loop bd wb (backup_stream (p # ps) @ tl') =
      (case bg_setat bd wb k v 1 of Inl e \<Rightarrow> Inl e | Inr wb' \<Rightarrow> restore_loop bd wb' (backup_stream ps @ tl'))"
    using Cons.prems by (simp add: restore_loop.simps [of bd wb] readChunk_chunk p)
  then show ?case using Cons by (auto simp: p split: sum.split)
qed

text \<open>Every item of a healthy snapshot carries its value, so the items are a list of pairs.\<close>

definition snapshot :: "('db, 'wb) badger \<Rightarrow> 'db \<Rightarrow> u64 \<Rightarrow> (bytes \<times> bytes) list" where
  "snapshot bd db r = map (\<lambda>(k, x). (k, projr x)) (bg_items bd db r)"

context healthy_badger
begin

lemma set_pairs_ok:
  "wts wb = 1 \<Longrightarrow> \<forall>(k, v) \<in> set ps. k \<noteq> [] \<Longrightarrow>
   \<exists>wb'. set_pairs bd wb ps = Inr wb' \<and> wts wb' = 1 \<and> wops wb' = wops wb @ map (\<lambda>(k, v). (k, Some v)) ps"
proof (induction ps arbitrary: wb)
  case (Cons p ps)
  obtain k v where p: "p = (k, v)" by (cases p)
  obtain wb' where w: "bg_setat bd wb k v (wts wb) = Inr wb'" using setat_healthy [of k wb v] Cons.prems p by auto
  with setat_Inr [OF w] Cons.prems Cons.IH [of wb'] p show ?case by auto
qed auto

lemma items_snapshot: "bg_items bd db r = map (\<lambda>(k, v). (k, Inr v)) (snapshot bd db r)"
proof -
  have "map (\<lambda>x. (fst x, Inr (projr (snd x)))) (bg_items bd db r) = map (\<lambda>x. x) (bg_items bd db r)"
  proof (rule map_cong [OF refl])
    fix a assume a: "a \<in> set (bg_items bd db r)"
    obtain k x where "a = (k, x)" by (cases a)
    with items_healthy [of k x db r] a show "(fst a, Inr (projr (snd a))) = a" by auto
  qed
  then show ?thesis by (simp add: snapshot_def comp_def split_beta)
qed

lemma map_of_snapshot: "map_of (snapshot bd db r) k = visible (hist db) r k"
proof (cases "visible (hist db) r k")
  case None
  then have "k \<notin> fst ` set (bg_items bd db r)" by (simp add: items_keys)
  then have "k \<notin> fst ` set (snapshot bd db r)" by (simp add: snapshot_def image_image split_beta)
  with None show ?thesis by (simp add: map_of_eq_None_iff)
next
  case (Some v)
  then have "k \<in> fst ` set (bg_items bd db r)" by (simp add: items_keys)
  then obtain x where x: "(k, x) \<in> set (bg_items bd db r)" by force
  with items_vals [OF x] items_healthy [OF x] Some have "x = Inr v" by auto
  with x have "(k, v) \<in> set (snapshot bd db r)" by (force simp: snapshot_def)
  moreover have "distinct (map fst (snapshot bd db r))"
    using distinct_items [of db r] by (simp add: snapshot_def comp_def split_beta)
  ultimately show ?thesis using Some by simp
qed

lemma distinct_snapshot: "distinct (map fst (snapshot bd db r))"
  using distinct_items [of db r] by (simp add: snapshot_def comp_def split_beta)

lemma backup_eq:
  "Backup bd append_writer db s = (s @ backup_stream (snapshot bd db (bg_maxver bd db)), Inr (bg_maxver bd db))"
  by (simp add: Backup_def Let_def items_snapshot backup_loop_append)

lemma restore_stream:
  assumes len: "\<forall>(k, v) \<in> set ps. k \<noteq> [] \<and> length k < chunk_max \<and> length v < chunk_max"
    and tl: "readChunk tl' = Inl ErrEOF" and fresh: "\<And>k t. hist db0 k t = None"
    and dist: "distinct (map fst ps)"
  shows "\<exists>db1. Restore bd db0 (backup_stream ps @ tl') = (db1, None)
           \<and> (\<forall>r k. 1 \<le> r \<longrightarrow> visible (hist db1) r k = map_of ps k)"
proof -
  have nonempty: "\<forall>(k, v) \<in> set ps. k \<noteq> []" using len by auto
  obtain wb where wb: "set_pairs bd (bg_batch bd 1) ps = Inr wb" "wts wb = 1"
    "wops wb = map (\<lambda>(k, v). (k, Some v)) ps"
    using set_pairs_ok [OF _ nonempty, of "bg_batch bd 1"] by auto
  have loop: "restore_loop bd (bg_batch bd 1) (backup_stream ps @ tl') = Inr wb"
    using restore_loop_stream [OF _ tl, of ps bd "bg_batch bd 1"] len wb(1) by auto
  obtain db1 where fl: "bg_flush bd db0 wb = (db1, None)"
    using flush_healthy [of db0 wb] by (metis prod.collapse)
  have mo: "map_of (rev (wops wb)) k = map_option Some (map_of ps k)" for k
  proof -
    have "map_of (rev (wops wb)) = map_of (wops wb)"
      using dist by (intro map_of_rev_distinct) (simp add: wb(3) comp_def split_beta)
    then show ?thesis using map_of_map [of Some ps] by (simp add: wb(3) fun_eq_iff)
  qed
  have "visible (hist db1) r k = map_of ps k" if "1 \<le> r" for r k
  proof (cases "map_of ps k")
    case (Some v)
    then have "hist db1 k = [1 \<mapsto> Some v]"
      using mo [of k] fresh by (simp add: flush_ok [OF fl] write_at_def wb(2) fun_eq_iff)
    moreover have "newest [1 \<mapsto> Some v] r = Some (1, Some v)" using that by (intro newest_SomeI) (auto split: if_splits)
    ultimately show ?thesis using Some by (simp add: visible_def)
  next
    case None
    then have "hist db1 k = (\<lambda>_. None)"
      using mo [of k] fresh by (simp add: flush_ok [OF fl] write_at_def wb(2) fun_eq_iff)
    then show ?thesis using None by (simp add: visible_def newest_None_iff [THEN iffD2])
  qed
  with loop fl show ?thesis by (auto simp: Restore_def)
qed

end

text \<open>
  C12. Restoring a backup into an empty store reproduces the snapshot: on a store without I/O
  errors, \<open>Backup\<close> succeeds and reports the newest version, \<open>Restore\<close> of its output
  succeeds, and a read of the restored store at any timestamp from 1 on finds for every key what
  a read of the original at its newest version finds. Keys are non-empty, and keys and values are
  shorter than 4 GiB, the range of the chunk header.
\<close>

theorem backup_restore_roundtrip:
  assumes "healthy_badger bd hist wops wts"
    and "\<And>k v. visible (hist db) (bg_maxver bd db) k = Some v \<Longrightarrow>
           k \<noteq> [] \<and> length k < chunk_max \<and> length v < chunk_max"
    and "\<And>k t. hist db0 k t = None"
  shows "\<exists>stream db1. Backup bd append_writer db [] = (stream, Inr (bg_maxver bd db))
           \<and> Restore bd db0 stream = (db1, None)
           \<and> (\<forall>r k. 1 \<le> r \<longrightarrow> visible (hist db1) r k = visible (hist db) (bg_maxver bd db) k)"
proof -
  let ?ps = "snapshot bd db (bg_maxver bd db)"
  have mo: "map_of ?ps k = visible (hist db) (bg_maxver bd db) k" for k
    by (rule healthy_badger.map_of_snapshot [OF assms(1)])
  have dist: "distinct (map fst ?ps)" by (rule healthy_badger.distinct_snapshot [OF assms(1)])
  have len: "\<forall>(k, v) \<in> set ?ps. k \<noteq> [] \<and> length k < chunk_max \<and> length v < chunk_max"
  proof clarify
    fix k v assume "(k, v) \<in> set ?ps"
    with dist have "map_of ?ps k = Some v" by simp
    then show "k \<noteq> [] \<and> length k < chunk_max \<and> length v < chunk_max"
      using assms(2) by (simp add: mo)
  qed
  have "\<exists>db1. Restore bd db0 (backup_stream ?ps @ []) = (db1, None)
           \<and> (\<forall>r k. 1 \<le> r \<longrightarrow> visible (hist db1) r k = map_of ?ps k)"
    by (rule healthy_badger.restore_stream [OF assms(1) len readChunk_Nil assms(3) dist])
  then show ?thesis
    using healthy_badger.backup_eq [OF assms(1), of db "[]"] by (auto simp: mo)
qed

theorem backup_restore_roundtrip_witness:
  "\<exists>stream db1. Backup mem_badger append_writer example_db [] = (stream, Inr 5)
     \<and> Restore mem_badger [] stream = (db1, None)
     \<and> visible (mem_hist db1) 1 ''a/3'' = Some ''w'' \<and> visible (mem_hist db1) 1 ''a/1'' = None"
proof -
  have mv: "bg_maxver mem_badger example_db = 5" by (simp add: example_db_def)
  have v: "visible (mem_hist example_db) 5 k = Some v \<Longrightarrow>
      k \<noteq> [] \<and> length k < chunk_max \<and> length v < chunk_max" for k v
    by (auto simp: mem_visible mem_newest_def mem_versions_def example_db_def
        split: if_splits list.splits option.splits)
  have "\<exists>stream db1. Backup mem_badger append_writer example_db [] = (stream, Inr (bg_maxver mem_badger example_db))
      \<and> Restore mem_badger [] stream = (db1, None)
      \<and> (\<forall>r k. 1 \<le> r \<longrightarrow> visible (mem_hist db1) r k = visible (mem_hist example_db) (bg_maxver mem_badger example_db) k)"
    by (rule backup_restore_roundtrip [OF mem.healthy_badger_axioms]) (use v mv in \<open>auto simp: mem_hist_def\<close>)
  moreover have "visible (mem_hist example_db) 5 ''a/3'' = Some ''w''" "visible (mem_hist example_db) 5 ''a/1'' = None"
    by (simp_all add: mem_visible mem_newest_def mem_versions_def example_db_def)
  ultimately show ?thesis unfolding mv by (metis order_refl)
qed

text \<open>
  A stream cut off inside its last entry is not always rejected: when it ends right after
  the length header of a key, \<open>readChunk\<close> reports the plain end-of-input that
  \<open>Restore\<close> takes for a clean end, so the damaged stream restores without an error, to the
  same store as if the entry had never been there.
\<close>

theorem truncated_backup_accepted:
  assumes "\<forall>(k, v) \<in> set ps. length k < chunk_max \<and> length v < chunk_max"
    and "0 < length k" and "length k < chunk_max"
  shows "Restore bd db (backup_stream ps @ be 4 (length k)) = Restore bd db (backup_stream ps)
       \<and> prefix (backup_stream ps @ be 4 (length k)) (backup_stream (ps @ [(k, v)]))"
proof -
  have "readChunk (be 4 (length k)) = Inl ErrEOF"
    using assms(2,3) by (simp add: readChunk_def readFull_def)
  then have "restore_loop bd (bg_batch bd 1) (backup_stream ps @ be 4 (length k))
           = restore_loop bd (bg_batch bd 1) (backup_stream ps @ [])"
    using assms(1) by (simp only: restore_loop_stream readChunk_Nil)
  then show ?thesis by (simp add: Restore_def backup_stream_def chunk_def)
qed

theorem truncated_backup_accepted_witness:
  "Restore mem_badger [] (backup_stream [(''k1'', ''v1'')] @ be 4 2) = Restore mem_badger [] (backup_stream [(''k1'', ''v1'')])
   \<and> prefix (backup_stream [(''k1'', ''v1'')] @ be 4 2) (backup_stream [(''k1'', ''v1''), (''k2'', ''v2'')])"
  using truncated_backup_accepted [of "[(''k1'', ''v1'')]" "''k2''" mem_badger "[]" "''v2''"] by (simp add: numeral_2_eq_2)

subsection \<open>Erasure\<close>

text \<open>
  C11. Erasing a namespace removes every version of every key the encoder makes for it and leaves
  the keys of every other namespace as they were, also when the drop fails half way; an
  unvalidated (empty) namespace is refused without touching the store.
\<close>

theorem delete_namespace_exact:
  assumes "managed_badger bd hist wops wts"
    and "namespaceRe (raw ns)" and "namespaceRe (raw m)" and "ns_key m k"
    and "DeleteNamespace bd db ns = (db', e)"
  shows "(m \<noteq> ns \<longrightarrow> hist db' k = hist db k)
       \<and> (m = ns \<longrightarrow> e = None \<longrightarrow> (\<forall>t. hist db' k t = None) \<and> (\<forall>r. visible (hist db') r k = None))
       \<and> DeleteNamespace bd db (NamespaceID []) = (db, Some (ErrMsg ''storage: DeleteNamespace requires a validated namespace''))"
proof -
  have nz: "\<not> NamespaceID_IsZero ns" using assms(2) by (auto simp: NamespaceID_IsZero_def namespaceRe_def)
  have pre: "prefix (NamespacePrefix ns) k \<longleftrightarrow> ns = m"
    using assms(2-4) by (simp add: NamespacePrefix_prefix_iff namespaceRe_no_slash)
  have d: "bg_drop bd db (NamespacePrefix ns) = (db', e)" using assms(5) nz by (simp add: DeleteNamespace_def)
  have "hist db' k = hist db k" if "m \<noteq> ns"
    using managed_badger.drop_ok [OF assms(1), of db "NamespacePrefix ns" db']
      managed_badger.drop_fail [OF assms(1), of db "NamespacePrefix ns" db'] d pre that
    by (cases e) (auto simp: drop_keys_def)
  moreover have "(\<forall>t. hist db' k t = None) \<and> (\<forall>r. visible (hist db') r k = None)" if "m = ns" "e = None"
    using managed_badger.drop_ok [OF assms(1), of db "NamespacePrefix ns" db'] d pre that
    by (simp add: visible_drop) (simp add: drop_keys_def)
  ultimately show ?thesis by (simp add: DeleteNamespace_def NamespaceID_IsZero_def)
qed

theorem delete_namespace_exact_witness:
  "\<exists>db'. DeleteNamespace mem_badger [((SchemaKey (NamespaceID ''acme'') ''t'', 1), Some ''s'')] (NamespaceID ''acme'') = (db', None)
     \<and> visible (mem_hist db') 1 (SchemaKey (NamespaceID ''acme'') ''t'') = None"
proof -
  let ?db = "[((SchemaKey (NamespaceID ''acme'') ''t'', 1), Some ''s'')] :: mem_db"
  obtain db' where d: "DeleteNamespace mem_badger ?db (NamespaceID ''acme'') = (db', None)"
    by (simp add: DeleteNamespace_def NamespaceID_IsZero_def)
  have ns: "namespaceRe (raw (NamespaceID ''acme''))" by (simp add: namespaceRe_def ns_char_def)
  show ?thesis
    using delete_namespace_exact [OF mem.managed_badger_axioms ns ns ns_SchemaKey d] d by auto
qed

end
