(* ===== verification/Hlc.thy ===== *)
theory Hlc
  imports Prelude
begin

text \<open>
  The hybrid logical clock of \<open>transactions/hlc.go\<close>. A reading of the wall clock is an
  argument of \<open>Now\<close> and \<open>Update\<close>; the mutex makes each of them one step. The
  counters keep their widths (\<open>uint64\<close> nanoseconds, \<open>uint32\<close> logical).
\<close>

record HLCTimestamp =
  WallNanos :: u64
  Logical :: u32
  NodeID :: u64

definition Encode :: "HLCTimestamp \<Rightarrow> u64" where
  "Encode t = (let ms = WallNanos t div 1000000
               in push_bit 16 ms OR ucast (Logical t AND 0xFFFF))"

record HLC =
  h_lastWall :: u64
  h_logical :: u32
  h_nodeID :: u64

definition NewHLC :: "u64 \<Rightarrow> HLC" where
  "NewHLC n = \<lparr>h_lastWall = 0, h_logical = 0, h_nodeID = n\<rparr>"

definition hlc_ts :: "HLC \<Rightarrow> HLCTimestamp" where
  "hlc_ts h = \<lparr>WallNanos = h_lastWall h, Logical = h_logical h, NodeID = h_nodeID h\<rparr>"

definition hlc_Now :: "u64 \<Rightarrow> HLC \<Rightarrow> HLC \<times> HLCTimestamp" where
  "hlc_Now wall h =
     (let h' = (if wall > h_lastWall h then h\<lparr>h_lastWall := wall, h_logical := 0\<rparr>
                else h\<lparr>h_logical := h_logical h + 1\<rparr>)
      in (h', hlc_ts h'))"

definition hlc_Update :: "u64 \<Rightarrow> HLCTimestamp \<Rightarrow> HLC \<Rightarrow> HLC \<times> HLCTimestamp" where
  "hlc_Update wall remote h =
     (let maxWall = (if WallNanos remote > wall then WallNanos remote else wall);
          h' = (if maxWall = h_lastWall h then h\<lparr>h_logical := h_logical h + 1\<rparr>
                else if maxWall = WallNanos remote then
                  h\<lparr>h_logical := (if Logical remote \<ge> h_logical h then Logical remote + 1 else h_logical h + 1),
                    h_lastWall := maxWall\<rparr>
                else h\<lparr>h_lastWall := maxWall, h_logical := 0\<rparr>)
      in (h', hlc_ts h'))"

text \<open>The order of hybrid timestamps: wall time first, then the logical counter.\<close>

definition hlc_less :: "HLCTimestamp \<Rightarrow> HLCTimestamp \<Rightarrow> bool" where
  "hlc_less a b \<longleftrightarrow> WallNanos a < WallNanos b \<or> WallNanos a = WallNanos b \<and> Logical a < Logical b"

text \<open>Successive readings of the clock for a list of wall-clock values.\<close>

fun hlc_run :: "u64 list \<Rightarrow> HLC \<Rightarrow> HLCTimestamp list" where
  "hlc_run [] h = []"
| "hlc_run (w # ws) h = (let (h', t) = hlc_Now w h in t # hlc_run ws h')"

lemma u32_less_succ: "x < x + 1 \<longleftrightarrow> x \<noteq> - 1" for x :: u32
  by (metis add.commute add_eq_0_iff2 lessI less_irrefl unatSuc word_less_nat_alt word_not_simps(1))

lemma hlc_less_trans: "hlc_less a b \<Longrightarrow> hlc_less b c \<Longrightarrow> hlc_less a c"
  by (auto simp: hlc_less_def)

lemma hlc_Now_less:
  "h_logical h \<noteq> - 1 \<Longrightarrow> hlc_less (hlc_ts h) (snd (hlc_Now wall h)) \<and> hlc_ts (fst (hlc_Now wall h)) = snd (hlc_Now wall h)"
  by (auto simp: hlc_Now_def hlc_less_def hlc_ts_def Let_def u32_less_succ)

lemma u32_succ: "unat (x + 1) \<le> Suc (unat x)" for x :: u32
  by (cases "1 + x = 0") (simp_all add: unatSuc add.commute)

lemma hlc_Now_logical: "unat (h_logical (fst (hlc_Now wall h))) \<le> Suc (unat (h_logical h))"
  by (simp add: hlc_Now_def Let_def u32_succ)

lemma hlc_run_sorted:
  "unat (h_logical h) + length ws < 2 ^ 32 \<Longrightarrow> sorted_wrt hlc_less (hlc_ts h # hlc_run ws h)"
proof (induction ws arbitrary: h)
  case (Cons w ws)
  let ?h' = "fst (hlc_Now w h)"
  have "unat (h_logical h) < 2 ^ 32 - 1" using Cons.prems by simp
  moreover have "unat (- 1 :: u32) = 2 ^ 32 - 1" by (simp add: unsigned_minus_1_eq_mask mask_eq_exp_minus_1)
  ultimately have nm: "h_logical h \<noteq> - 1" by auto
  have "unat (h_logical ?h') + length ws < 2 ^ 32" using Cons.prems hlc_Now_logical [of w h] by simp
  from Cons.IH [OF this] have rest: "sorted_wrt hlc_less (hlc_ts ?h' # hlc_run ws ?h')" .
  have "hlc_less (hlc_ts h) (hlc_ts ?h')" using hlc_Now_less [OF nm, of w] by simp
  moreover have "hlc_run (w # ws) h = hlc_ts ?h' # hlc_run ws ?h'"
    using hlc_Now_less [OF nm, of w] by (simp add: split_beta)
  ultimately show ?case using rest hlc_less_trans by (auto simp del: hlc_run.simps)
qed simp

lemma unat_Encode: "unat (Encode t) = (unat (WallNanos t) div 1000000) * 65536 + unat (Logical t) mod 65536"
proof -
  let ?ms = "WallNanos t div 1000000" and ?l = "ucast (Logical t AND 0xFFFF) :: u64"
  have tb: "Logical t AND 0xFFFF = take_bit 16 (Logical t)" by (simp add: take_bit_eq_mask mask_eq_exp_minus_1)
  have l: "unat ?l = unat (Logical t) mod 65536"
  proof -
    have "Logical t AND 0xFFFF = Logical t mod 65536" using tb by (simp add: take_bit_eq_mod)
    moreover have "unat (Logical t) mod 65536 mod 18446744073709551616 = unat (Logical t) mod 65536"
      by (rule mod_less) (simp add: order_less_trans [OF mod_less_divisor])
    ultimately show ?thesis by (simp add: unsigned_ucast_eq take_bit_eq_mod unat_mod)
  qed
  have wall: "unat (WallNanos t) < 2 ^ 64" using unsigned_less [of "WallNanos t"] by simp
  have ms: "unat (push_bit 16 ?ms) = (unat (WallNanos t) div 1000000) * 65536"
  proof -
    have "unat ?ms * 65536 < 2 ^ 64" using wall by (simp add: unat_div)
    then show ?thesis by (simp add: push_bit_eq_mult unat_mult_lem [THEN iffD1] unat_div)
  qed
  have "push_bit 16 ?ms AND ?l = 0"
    unfolding tb by (rule bit_word_eqI) (auto simp: bit_simps)
  then have "push_bit 16 ?ms OR ?l = push_bit 16 ?ms + ?l" by (simp add: disjunctive_add_eq_or)
  moreover have "unat (push_bit 16 ?ms + ?l) = unat (push_bit 16 ?ms) + unat ?l"
    by (rule unat_add_lem [THEN iffD1]) (use wall ms l in simp)
  ultimately show ?thesis by (simp add: Encode_def Let_def ms l)
qed

text \<open>
  C16. \<open>Now\<close> is strictly monotonic whatever the wall clock does: the timestamps of any
  sequence of calls increase strictly, also when the wall clock stands still or steps back,
  as long as the 32-bit logical counter has room for the calls.
\<close>

theorem hlc_now_strictly_monotonic:
  assumes "unat (h_logical h) + length walls < 2 ^ 32"
  shows "sorted_wrt hlc_less (hlc_run walls h)"
  using hlc_run_sorted [OF assms] by simp

theorem hlc_now_strictly_monotonic_witness:
  "sorted_wrt hlc_less (hlc_run [7, 7, 3, 9] (NewHLC 1))"
  using hlc_now_strictly_monotonic [of "NewHLC 1" "[7, 7, 3, 9]"] by (simp add: NewHLC_def)

text \<open>
  The 64-bit encoding orders timestamps by millisecond: a timestamp of a later millisecond
  encodes to a strictly larger number, whatever the logical counters are, with no overflow for
  any 64-bit wall time.
\<close>

theorem encode_monotonic_across_milliseconds:
  assumes "unat (WallNanos a) div 1000000 < unat (WallNanos b) div 1000000"
  shows "Encode a < Encode b"
proof -
  have "unat (Logical a) mod 65536 < 65536" by simp
  then have "unat (Encode a) < (unat (WallNanos a) div 1000000 + 1) * 65536" by (simp add: unat_Encode)
  also have "\<dots> \<le> (unat (WallNanos b) div 1000000) * 65536" using assms by simp
  also have "\<dots> \<le> unat (Encode b)" by (simp add: unat_Encode)
  finally show ?thesis by (simp add: word_less_nat_alt)
qed

theorem encode_monotonic_across_milliseconds_witness:
  "Encode \<lparr>WallNanos = 1999999, Logical = 65535, NodeID = 1\<rparr> < Encode \<lparr>WallNanos = 2000000, Logical = 0, NodeID = 1\<rparr>"
  by (rule encode_monotonic_across_milliseconds) simp

text \<open>
  Within a millisecond the encoding is not monotonic, although \<open>Encode\<close> is documented
  so: for every clock whose logical counter is not a multiple of 65536, a wall clock that advances
  inside the same millisecond yields a later timestamp whose encoding is strictly smaller.
\<close>

theorem encode_not_monotonic_within_millisecond:
  assumes "unat wall div 1000000 = unat (h_lastWall h) div 1000000" and "h_lastWall h < wall"
    and "unat (h_logical h) mod 65536 \<noteq> 0"
  shows "hlc_less (hlc_ts h) (snd (hlc_Now wall h)) \<and> Encode (snd (hlc_Now wall h)) < Encode (hlc_ts h)"
  using assms by (simp add: word_less_nat_alt unat_Encode hlc_Now_def hlc_less_def hlc_ts_def Let_def)

theorem encode_not_monotonic_within_millisecond_witness:
  "Encode (snd (hlc_Now 1500000 \<lparr>h_lastWall = 1000000, h_logical = 3, h_nodeID = 1\<rparr>))
     < Encode (hlc_ts \<lparr>h_lastWall = 1000000, h_logical = 3, h_nodeID = 1\<rparr>)"
  using encode_not_monotonic_within_millisecond [of 1500000 "\<lparr>h_lastWall = 1000000, h_logical = 3, h_nodeID = 1\<rparr>"]
  by simp

text \<open>
  \<open>Update\<close> moves the clock past both its own last timestamp and the observed one when
  the larger of the wall reading and the observed wall time is ahead of the clock.
\<close>

theorem hlc_update_passes_remote:
  assumes "h_lastWall h < max wall (WallNanos remote)" and "Logical remote \<noteq> - 1" and "h_logical h \<noteq> - 1"
  shows "hlc_less remote (snd (hlc_Update wall remote h)) \<and> hlc_less (hlc_ts h) (snd (hlc_Update wall remote h))"
proof -
  consider "WallNanos remote \<ge> wall" "h_lastWall h < WallNanos remote"
    | "WallNanos remote < wall" "h_lastWall h < wall"
    using assms(1) by (cases "WallNanos remote \<ge> wall") (auto simp: max_def)
  then show ?thesis
  proof cases
    case 1
    then have "(if WallNanos remote > wall then WallNanos remote else wall) = WallNanos remote" by auto
    with 1 assms(2,3) u32_less_succ [of "Logical remote"] u32_less_succ [of "h_logical h"] show ?thesis
      by (auto simp: hlc_Update_def hlc_less_def hlc_ts_def Let_def)
  next
    case 2
    then show ?thesis by (auto simp: hlc_Update_def hlc_less_def hlc_ts_def Let_def)
  qed
qed

theorem hlc_update_passes_remote_witness:
  "hlc_less \<lparr>WallNanos = 9, Logical = 4, NodeID = 2\<rparr> (snd (hlc_Update 5 \<lparr>WallNanos = 9, Logical = 4, NodeID = 2\<rparr> (NewHLC 1)))"
  using hlc_update_passes_remote [of "NewHLC 1" 5 "\<lparr>WallNanos = 9, Logical = 4, NodeID = 2\<rparr>"]
  by (simp add: NewHLC_def)

text \<open>
  Without that, \<open>Update\<close> does not do what it is for: a clock that is ahead of both is set
  back, and a clock at the wall time of an observed timestamp ends behind that timestamp when its
  logical counter is more than one behind.
\<close>

theorem hlc_update_can_fall_behind:
  "(WallNanos remote < h_lastWall h \<longrightarrow> wall < h_lastWall h \<longrightarrow>
      hlc_less (snd (hlc_Update wall remote h)) (hlc_ts h))
   \<and> (WallNanos remote = h_lastWall h \<longrightarrow> wall \<le> h_lastWall h \<longrightarrow> h_logical h + 1 < Logical remote \<longrightarrow>
      hlc_less (snd (hlc_Update wall remote h)) remote)"
  by (auto simp: hlc_Update_def hlc_less_def hlc_ts_def Let_def)

theorem hlc_update_can_fall_behind_witness:
  "hlc_less (snd (hlc_Update 5 \<lparr>WallNanos = 6, Logical = 4, NodeID = 2\<rparr> \<lparr>h_lastWall = 9, h_logical = 0, h_nodeID = 1\<rparr>))
     (hlc_ts \<lparr>h_lastWall = 9, h_logical = 0, h_nodeID = 1\<rparr>)
   \<and> hlc_less (snd (hlc_Update 5 \<lparr>WallNanos = 9, Logical = 7, NodeID = 2\<rparr> \<lparr>h_lastWall = 9, h_logical = 0, h_nodeID = 1\<rparr>))
     \<lparr>WallNanos = 9, Logical = 7, NodeID = 2\<rparr>"
  using hlc_update_can_fall_behind [of "\<lparr>WallNanos = 6, Logical = 4, NodeID = 2\<rparr>" "\<lparr>h_lastWall = 9, h_logical = 0, h_nodeID = 1\<rparr>" 5]
    hlc_update_can_fall_behind [of "\<lparr>WallNanos = 9, Logical = 7, NodeID = 2\<rparr>" "\<lparr>h_lastWall = 9, h_logical = 0, h_nodeID = 1\<rparr>" 5]
  by simp

end
