(* ===== verification/Txn.thy ===== *)
theory Txn
  imports Store Hlc
begin

text \<open>
  The transaction engine: \<open>transactions/engine.go\<close> (begin, point reads with
  read-your-writes, buffering, first-committer-wins commit, rollback) and
  \<open>transactions/merge_iter.go\<close> (the iterator that overlays a transaction's own writes on its
  snapshot). The engine state is the store, the state of the replicated committer, the timestamp
  oracle and the hybrid clock; \<open>commitMu\<close> makes \<open>Commit\<close> one step.
\<close>

subsection \<open>Data\<close>

record Mutation =
  m_Key :: Key
  m_Value :: bytes
  m_Delete :: bool

text \<open>
  \<open>ReplicatedCommitter\<close>: the consensus dependency of a clustered engine, acting on the store
  and on its own state. A single-node engine has none, and its \<open>LocalCommitter\<close> does nothing.
\<close>

record ('db, 'r) ReplicatedCommitter =
  rc_ProposeTxn :: "'db \<times> 'r \<Rightarrow> u64 \<Rightarrow> u64 \<Rightarrow> Mutation list \<Rightarrow> ('db \<times> 'r) \<times> (bool \<times> u64) res"
  rc_ReadTimestamp :: "'db \<times> 'r \<Rightarrow> u64 \<Rightarrow> u64"

definition LocalCommitter_Propose :: "u64 \<Rightarrow> Mutation list \<Rightarrow> go_error option" where
  "LocalCommitter_Propose shardID batch = None"

definition DefaultShardID :: u64 where
  "DefaultShardID = 1"

record Txn =
  t_ReadTS :: HLCTimestamp
  t_readUint :: u64
  t_sess :: auth_session
  t_mutations :: "Mutation list"
  t_done :: bool

record ('db, 'r) engine =
  e_db :: 'db
  e_raft :: 'r
  e_clock :: u64
  e_hlc :: HLC

subsection \<open>Begin, Get, Buffer, Rollback (engine.go)\<close>

definition engine_New :: "('db, 'wb) badger \<Rightarrow> 'db \<Rightarrow> 'r \<Rightarrow> u64 \<Rightarrow> ('db, 'r) engine" where
  "engine_New bd db r nodeID =
     (let start = bg_maxver bd db; start = (if start < 1 then 1 else start)
      in \<lparr>e_db = db, e_raft = r, e_clock = start, e_hlc = NewHLC nodeID\<rparr>)"

definition Begin ::
  "('db, 'r) ReplicatedCommitter option \<Rightarrow> u64 \<Rightarrow> ('db, 'r) engine \<Rightarrow> auth_session \<Rightarrow> ('db, 'r) engine \<times> Txn" where
  "Begin rc wall e sess =
     (let (h, ts) = hlc_Now wall (e_hlc e);
          readUint = (case rc of None \<Rightarrow> e_clock e
                      | Some c \<Rightarrow> rc_ReadTimestamp c (e_db e, e_raft e) DefaultShardID)
      in (e\<lparr>e_hlc := h\<rparr>,
          \<lparr>t_ReadTS = ts, t_readUint = readUint, t_sess = sess, t_mutations = [], t_done = False\<rparr>))"

text \<open>The loop of \<open>Get\<close> over the buffered mutations, newest first.\<close>

fun buffered_get :: "Mutation list \<Rightarrow> Key \<Rightarrow> bytes res option" where
  "buffered_get [] k = None"
| "buffered_get (m # ms) k =
     (if m_Key m = k then Some (if m_Delete m then Inl ErrKeyNotFound else Inr (m_Value m))
      else buffered_get ms k)"

definition engine_Get :: "('db, 'wb) badger \<Rightarrow> ('db, 'r) engine \<Rightarrow> Txn \<Rightarrow> Key \<Rightarrow> bytes res" where
  "engine_Get bd e txn k =
     (if t_done txn then Inl ErrTxnDone
      else case buffered_get (rev (t_mutations txn)) k of
             Some r \<Rightarrow> r
           | None \<Rightarrow> store_Get bd (e_db e) (t_readUint txn) k)"

definition Buffer :: "Txn \<Rightarrow> Mutation \<Rightarrow> Txn" where
  "Buffer txn m = txn\<lparr>t_mutations := t_mutations txn @ [m]\<rparr>"

definition Rollback :: "Txn \<Rightarrow> Txn \<times> go_error option" where
  "Rollback txn =
     (if t_done txn then (txn, Some ErrTxnDone)
      else (txn\<lparr>t_done := True, t_mutations := []\<rparr>, None))"

subsection \<open>Commit (engine.go)\<close>

fun conflict_check :: "('db, 'wb) badger \<Rightarrow> 'db \<Rightarrow> u64 \<Rightarrow> Mutation list \<Rightarrow> bool res" where
  "conflict_check bd db readTS [] = Inr False"
| "conflict_check bd db readTS (m # ms) =
     (case LatestVersion bd db (m_Key m) of
        Inl e \<Rightarrow> Inl e
      | Inr (ts, found) \<Rightarrow>
          if found \<and> ts > readTS then Inr True
          else conflict_check bd db readTS ms)"

fun batch_mutations :: "('db, 'wb) badger \<Rightarrow> 'wb \<Rightarrow> Mutation list \<Rightarrow> 'wb res" where
  "batch_mutations bd wb [] = Inr wb"
| "batch_mutations bd wb (m # ms) =
     (case (if m_Delete m then bg_del bd wb (m_Key m) else bg_set bd wb (m_Key m) (m_Value m)) of
        Inl e \<Rightarrow> Inl e
      | Inr wb' \<Rightarrow> batch_mutations bd wb' ms)"

definition Commit ::
  "('db, 'wb) badger \<Rightarrow> ('db, 'r) ReplicatedCommitter option \<Rightarrow> ('db, 'r) engine \<Rightarrow> Txn
     \<Rightarrow> ('db, 'r) engine \<times> Txn \<times> go_error option" where
  "Commit bd rc e txn =
     (if t_done txn then (e, txn, Some ErrTxnDone)
      else if t_mutations txn = [] then (e, txn\<lparr>t_done := True\<rparr>, None)
      else case rc of
        Some c \<Rightarrow>
          (let txn' = txn\<lparr>t_done := True\<rparr>;
               ((db, r), res) = rc_ProposeTxn c (e_db e, e_raft e) DefaultShardID (t_readUint txn) (t_mutations txn);
               e' = e\<lparr>e_db := db, e_raft := r\<rparr>
           in case res of
                Inl err \<Rightarrow> (e', txn', Some err)
              | Inr (committed, _) \<Rightarrow>
                  if \<not> committed then (e', txn', Some ErrWriteConflict) else (e', txn', None))
      | None \<Rightarrow>
          (case conflict_check bd (e_db e) (t_readUint txn) (t_mutations txn) of
             Inl err \<Rightarrow> (e, txn, Some err)
           | Inr True \<Rightarrow> (e, txn\<lparr>t_done := True\<rparr>, Some ErrWriteConflict)
           | Inr False \<Rightarrow>
               (let txn' = txn\<lparr>t_done := True\<rparr>; commitTS = e_clock e + 1
                in case batch_mutations bd (bg_batch bd commitTS) (t_mutations txn) of
                     Inl err \<Rightarrow> (e, txn', Some err)
                   | Inr wb \<Rightarrow>
                       (case bg_flush bd (e_db e) wb of
                          (db, Some err) \<Rightarrow> (e\<lparr>e_db := db\<rparr>, txn', Some err)
                        | (db, None) \<Rightarrow>
                            (e\<lparr>e_db := db, e_clock := commitTS\<rparr>, txn',
                             LocalCommitter_Propose 0 (t_mutations txn))))))"

subsection \<open>The merged iterator (merge_iter.go)\<close>

definition bufferedForPrefix :: "Mutation list \<Rightarrow> bytes \<Rightarrow> Mutation list" where
  "bufferedForPrefix muts p =
     (let ms = filter (\<lambda>m. hasPrefix (m_Key m) p) muts;
          latest = foldl (\<lambda>f m. f(m_Key m \<mapsto> m)) Map.empty ms
      in map (\<lambda>k. the (latest k)) (sort (remdups (map m_Key ms))))"

record mergedIterator =
  mi_store :: store_iter
  mi_buf :: "Mutation list"
  mi_bi :: nat
  mi_curKey :: Key
  mi_curVal :: bytes
  mi_valid :: bool

function produce :: "mergedIterator \<Rightarrow> mergedIterator" where
  "produce m =
     (let sValid = iter_Valid (mi_store m);
          bValid = mi_bi m < length (mi_buf m)
      in if \<not> sValid \<and> \<not> bValid then m\<lparr>mi_valid := False\<rparr>
         else if bValid \<and> (\<not> sValid \<or> m_Key (mi_buf m ! mi_bi m) \<le> iter_Key (mi_store m)) then
           (let b = mi_buf m ! mi_bi m;
                m1 = (if sValid \<and> m_Key b = iter_Key (mi_store m)
                      then m\<lparr>mi_store := iter_Next (mi_store m)\<rparr> else m);
                m2 = m1\<lparr>mi_bi := mi_bi m1 + 1\<rparr>
            in if m_Delete b then produce m2
               else m2\<lparr>mi_curKey := m_Key b, mi_curVal := m_Value b, mi_valid := True\<rparr>)
         else m\<lparr>mi_curKey := iter_Key (mi_store m),
                mi_curVal := (case iter_Value (mi_store m) of Inl _ \<Rightarrow> [] | Inr v \<Rightarrow> v),
                mi_store := iter_Next (mi_store m),
                mi_valid := True\<rparr>)"
  by pat_completeness auto
termination
  by (relation "measure (\<lambda>m. length (mi_buf m) - mi_bi m)") (auto simp: Let_def)

declare produce.simps [simp del]

definition merged_Rewind :: "mergedIterator \<Rightarrow> mergedIterator" where
  "merged_Rewind m = produce (m\<lparr>mi_store := iter_Rewind (mi_store m), mi_bi := 0\<rparr>)"

definition merged_Seek :: "mergedIterator \<Rightarrow> Key \<Rightarrow> mergedIterator" where
  "merged_Seek m k =
     produce (m\<lparr>mi_store := iter_Seek (mi_store m) k,
               mi_bi := length (takeWhile (\<lambda>b. m_Key b < k) (mi_buf m))\<rparr>)"

datatype Iterator = SnapIter store_iter | MergeIter mergedIterator

definition engine_NewIterator :: "('db, 'wb) badger \<Rightarrow> ('db, 'r) engine \<Rightarrow> Txn \<Rightarrow> Key \<Rightarrow> Iterator" where
  "engine_NewIterator bd e txn p =
     (let base = store_NewIterator bd (e_db e) (t_readUint txn) p;
          buf = bufferedForPrefix (t_mutations txn) p
      in if buf \<noteq> [] then
           MergeIter \<lparr>mi_store = base, mi_buf = buf, mi_bi = 0, mi_curKey = [], mi_curVal = [], mi_valid = False\<rparr>
         else SnapIter base)"

definition engine_NewReverseIterator :: "('db, 'wb) badger \<Rightarrow> ('db, 'r) engine \<Rightarrow> Txn \<Rightarrow> Key \<Rightarrow> Iterator" where
  "engine_NewReverseIterator bd e txn p = SnapIter (store_NewReverseIterator bd (e_db e) (t_readUint txn) p)"

text \<open>The methods of \<open>storage.Iterator\<close>, by the iterator's kind.\<close>

fun it_Rewind :: "Iterator \<Rightarrow> Iterator" where
  "it_Rewind (SnapIter i) = SnapIter (iter_Rewind i)"
| "it_Rewind (MergeIter m) = MergeIter (merged_Rewind m)"

fun it_Seek :: "Iterator \<Rightarrow> Key \<Rightarrow> Iterator" where
  "it_Seek (SnapIter i) k = SnapIter (iter_Seek i k)"
| "it_Seek (MergeIter m) k = MergeIter (merged_Seek m k)"

fun it_Valid :: "Iterator \<Rightarrow> bool" where
  "it_Valid (SnapIter i) = iter_Valid i"
| "it_Valid (MergeIter m) = mi_valid m"

fun it_Next :: "Iterator \<Rightarrow> Iterator" where
  "it_Next (SnapIter i) = SnapIter (iter_Next i)"
| "it_Next (MergeIter m) = MergeIter (produce m)"

fun it_Key :: "Iterator \<Rightarrow> Key" where
  "it_Key (SnapIter i) = iter_Key i"
| "it_Key (MergeIter m) = mi_curKey m"

fun it_Value :: "Iterator \<Rightarrow> bytes res" where
  "it_Value (SnapIter i) = iter_Value i"
| "it_Value (MergeIter m) = Inr (mi_curVal m)"

text \<open>
  What remains to be visited. Every step of \<open>produce\<close> that yields an entry consumes one
  buffered write or one snapshot entry, so the loops over an iterator end.
\<close>

definition mi_left :: "mergedIterator \<Rightarrow> nat" where
  "mi_left m = (length (mi_buf m) - mi_bi m) + length (si_rest (mi_store m))"

lemma iter_Valid_rest: "iter_Valid i \<Longrightarrow> \<exists>x xs. si_rest i = x # xs"
  by (auto simp: iter_Valid_def split: list.splits)

lemma produce_left: "mi_valid (produce m) \<Longrightarrow> mi_left (produce m) < mi_left m"
proof (induction m rule: produce.induct)
  case (1 m)
  let ?sv = "iter_Valid (mi_store m)" and ?bv = "mi_bi m < length (mi_buf m)"
  let ?b = "mi_buf m ! mi_bi m"
  consider (none) "\<not> ?sv" "\<not> ?bv"
    | (buf) "?bv" "\<not> ?sv \<or> m_Key ?b \<le> iter_Key (mi_store m)"
    | (snap) "?sv" "\<not> (?bv \<and> (\<not> ?sv \<or> m_Key ?b \<le> iter_Key (mi_store m)))"
    by blast
  then show ?case
  proof cases
    case none
    then show ?thesis using 1(2) by (simp add: produce.simps [of m])
  next
    case buf
    define m1 where "m1 = (if ?sv \<and> m_Key ?b = iter_Key (mi_store m) then m\<lparr>mi_store := iter_Next (mi_store m)\<rparr> else m)"
    define m2 where "m2 = m1\<lparr>mi_bi := mi_bi m1 + 1\<rparr>"
    have p: "produce m = (if m_Delete ?b then produce m2
        else m2\<lparr>mi_curKey := m_Key ?b, mi_curVal := m_Value ?b, mi_valid := True\<rparr>)"
      using buf by (subst produce.simps) (simp add: Let_def m1_def m2_def)
    have lt: "mi_left m2 < mi_left m" using buf(1) by (simp add: mi_left_def m2_def m1_def iter_Next_def) arith
    show ?thesis
    proof (cases "m_Delete ?b")
      case True
      have "mi_left (produce m2) < mi_left m2"
        using 1(1) [OF refl refl _ _ refl m1_def m2_def True] 1(2) buf p True by auto
      with p True lt show ?thesis by simp
    next
      case False
      with p lt show ?thesis by (simp add: mi_left_def)
    qed
  next
    case snap
    then have "si_rest (mi_store m) \<noteq> []" by (auto dest: iter_Valid_rest)
    with snap show ?thesis
      by (subst produce.simps) (auto simp: Let_def mi_left_def iter_Next_def length_tl)
  qed
qed

function it_visit :: "Iterator \<Rightarrow> (Key \<times> bytes res) list" where
  "it_visit i = (if it_Valid i then (it_Key i, it_Value i) # it_visit (it_Next i) else [])"
  by pat_completeness auto
termination
proof (relation "measure (\<lambda>i. case i of SnapIter s \<Rightarrow> length (si_rest s)
    | MergeIter m \<Rightarrow> if mi_valid m then Suc (mi_left m) else 0)", goal_cases)
  case (2 i)
  then show ?case
    by (cases i) (auto simp: iter_Next_def dest!: iter_Valid_rest dest: produce_left)
qed simp

declare it_visit.simps [simp del]

subsection \<open>What a merged scan yields\<close>

text \<open>
  The overlay of a sorted buffer on sorted snapshot entries, as a recursion on the two lists: the
  reference the iterator is compared with. A value that cannot be read shows as empty.
\<close>

definition snap_val :: "bytes res \<Rightarrow> bytes" where
  "snap_val x = (case x of Inl _ \<Rightarrow> [] | Inr v \<Rightarrow> v)"

definition emit :: "Mutation \<Rightarrow> (Key \<times> bytes) list" where
  "emit b = (if m_Delete b then [] else [(m_Key b, m_Value b)])"

fun overlay :: "(Key \<times> bytes res) list \<Rightarrow> Mutation list \<Rightarrow> (Key \<times> bytes) list" where
  "overlay [] [] = []"
| "overlay [] (b # bs) = emit b @ overlay [] bs"
| "overlay (x # xs) [] = (fst x, snap_val (snd x)) # overlay xs []"
| "overlay (x # xs) (b # bs) =
     (if m_Key b < fst x then emit b @ overlay (x # xs) bs
      else if m_Key b = fst x then emit b @ overlay xs bs
      else (fst x, snap_val (snd x)) # overlay xs (b # bs))"

lemma overlay_keys: "k \<in> fst ` set (overlay xs bs) \<Longrightarrow> k \<in> fst ` set xs \<or> k \<in> m_Key ` set bs"
  by (induction xs bs rule: overlay.induct) (auto simp: emit_def split: if_splits)

lemma sorted_Cons_key: "sorted_wrt (<) (map f (x # xs)) \<Longrightarrow> y \<in> set xs \<Longrightarrow> f x < f y"
  by simp

lemma overlay_above:
  assumes "\<forall>x \<in> set xs. k < fst x" "\<forall>b \<in> set bs. k < m_Key b"
  shows "\<forall>y \<in> set (overlay xs bs). k < fst y"
proof
  fix y assume "y \<in> set (overlay xs bs)"
  then have "fst y \<in> fst ` set xs \<or> fst y \<in> m_Key ` set bs" by (intro overlay_keys) simp
  with assms show "k < fst y" by auto
qed

lemma all_less_trans: "k < l \<Longrightarrow> \<forall>x \<in> S. l < f x \<Longrightarrow> \<forall>x \<in> S. k < f x" for k l :: "'a :: order"
  by (meson order_less_trans)

lemma sorted_cons_parts:
  "sorted_wrt (<) (map f (x # xs)) \<longleftrightarrow> (\<forall>y \<in> set xs. f x < f y) \<and> sorted_wrt (<) (map f xs)"
  by simp

lemma overlay_sorted:
  "sorted_wrt (<) (map fst xs) \<Longrightarrow> sorted_wrt (<) (map m_Key bs) \<Longrightarrow> sorted_wrt (<) (map fst (overlay xs bs))"
proof (induction xs bs rule: overlay.induct)
  case (2 b bs)
  then show ?case using overlay_above [of "[]" "m_Key b" bs] by (simp add: emit_def)
next
  case (3 x xs)
  then show ?case using overlay_above [of xs "fst x" "[]"] by simp
next
  case (4 x xs b bs)
  have xs: "\<forall>y \<in> set xs. fst x < fst y" "sorted_wrt (<) (map fst xs)"
    and bs: "\<forall>c \<in> set bs. m_Key b < m_Key c" "sorted_wrt (<) (map m_Key bs)"
    using "4.prems" by auto
  consider (lt) "m_Key b < fst x" | (eq) "m_Key b = fst x" | (gt) "fst x < m_Key b" by (meson linorder_neqE)
  then show ?case
  proof cases
    case lt
    have "\<forall>y \<in> set (overlay (x # xs) bs). m_Key b < fst y"
      by (rule overlay_above [OF _ bs(1)]) (use lt all_less_trans [OF lt xs(1)] in simp)
    then show ?thesis using 4(1) [OF lt "4.prems"(1) bs(2)] lt by (simp add: emit_def)
  next
    case eq
    then have nl: "\<not> m_Key b < fst x" by simp
    have "\<forall>y \<in> set (overlay xs bs). m_Key b < fst y"
      by (rule overlay_above [OF _ bs(1)]) (use eq xs(1) in simp)
    then show ?thesis using 4(2) [OF nl eq xs(2) bs(2)] eq by (simp add: emit_def)
  next
    case gt
    then have ne: "\<not> m_Key b < fst x" "m_Key b \<noteq> fst x" by auto
    have "\<forall>y \<in> set (overlay xs (b # bs)). fst x < fst y"
      by (rule overlay_above [OF xs(1)]) (use gt all_less_trans [OF gt bs(1)] in simp)
    then show ?thesis using 4(3) [OF ne xs(2) "4.prems"(2)] ne by simp
  qed
qed simp

text \<open>Which pairs it holds: the live buffered writes, and the snapshot where nothing is buffered.\<close>

definition overlay_has :: "(Key \<times> bytes res) list \<Rightarrow> Mutation list \<Rightarrow> Key \<Rightarrow> bytes \<Rightarrow> bool" where
  "overlay_has xs bs k v \<longleftrightarrow>
     (\<exists>b \<in> set bs. m_Key b = k \<and> \<not> m_Delete b \<and> v = m_Value b)
     \<or> ((\<forall>b \<in> set bs. m_Key b \<noteq> k) \<and> (\<exists>x. (k, x) \<in> set xs \<and> v = snap_val x))"

lemma all_less_neq: "\<forall>x \<in> S. k < f x \<Longrightarrow> \<forall>x \<in> S. f x \<noteq> k" for k :: "'a :: order"
  by auto

lemma overlay_has_same:
  assumes "\<forall>c \<in> set bs. m_Key c \<noteq> m_Key b"
  shows "overlay_has xs (b # bs) (m_Key b) v \<longleftrightarrow> \<not> m_Delete b \<and> v = m_Value b"
  using assms unfolding overlay_has_def by auto

lemma overlay_has_other: "k \<noteq> m_Key b \<Longrightarrow> overlay_has xs (b # bs) k v \<longleftrightarrow> overlay_has xs bs k v"
  unfolding overlay_has_def by auto

lemma overlay_has_key: "overlay_has xs bs k v \<Longrightarrow> k \<in> fst ` set xs \<or> k \<in> m_Key ` set bs"
  unfolding overlay_has_def by force

lemma overlay_has_buf:
  assumes "\<forall>y \<in> set xs. fst y \<noteq> m_Key b" and "\<forall>c \<in> set bs. m_Key c \<noteq> m_Key b"
  shows "overlay_has xs (b # bs) k v \<longleftrightarrow> (k, v) \<in> set (emit b) \<or> overlay_has xs bs k v"
proof (cases "k = m_Key b")
  case True
  have "\<not> overlay_has xs bs (m_Key b) v"
    using overlay_has_key [of xs bs "m_Key b" v] assms by (metis imageE)
  with True overlay_has_same [OF assms(2)] show ?thesis by (simp add: emit_def)
next
  case False
  then show ?thesis by (simp add: overlay_has_other emit_def)
qed

lemma overlay_has_shadow: "m_Key b = fst x \<Longrightarrow> overlay_has (x # xs) (b # bs) k v \<longleftrightarrow> overlay_has xs (b # bs) k v"
  unfolding overlay_has_def by (cases x) auto

lemma overlay_has_snap:
  assumes "\<forall>y \<in> set xs. fst y \<noteq> fst x" and "\<forall>c \<in> set bs. m_Key c \<noteq> fst x"
  shows "overlay_has (x # xs) bs k v \<longleftrightarrow> (k, v) = (fst x, snap_val (snd x)) \<or> overlay_has xs bs k v"
proof (cases "k = fst x")
  case True
  then show ?thesis using assms unfolding overlay_has_def by (cases x) auto
next
  case False
  then show ?thesis unfolding overlay_has_def by (cases x) auto
qed

lemma overlay_set:
  "sorted_wrt (<) (map fst xs) \<Longrightarrow> sorted_wrt (<) (map m_Key bs) \<Longrightarrow>
   (k, v) \<in> set (overlay xs bs) \<longleftrightarrow> overlay_has xs bs k v"
proof (induction xs bs rule: overlay.induct)
  case 1
  then show ?case by (simp add: overlay_has_def)
next
  case (2 b bs)
  then have "\<forall>c \<in> set bs. m_Key b < m_Key c" by simp
  from overlay_has_buf [OF _ all_less_neq [OF this], of "[]" k v] 2 show ?case by simp
next
  case (3 x xs)
  then have "\<forall>y \<in> set xs. fst x < fst y" by simp
  from overlay_has_snap [OF all_less_neq [OF this], of "[]" k v] 3 show ?case by simp
next
  case (4 x xs b bs)
  have xs: "\<forall>y \<in> set xs. fst x < fst y" "sorted_wrt (<) (map fst xs)"
    and bs: "\<forall>c \<in> set bs. m_Key b < m_Key c" "sorted_wrt (<) (map m_Key bs)"
    using "4.prems" by auto
  consider (lt) "m_Key b < fst x" | (eq) "m_Key b = fst x" | (gt) "fst x < m_Key b" by (meson linorder_neqE)
  then show ?case
  proof cases
    case lt
    have "\<forall>y \<in> set (x # xs). m_Key b < fst y" using lt all_less_trans [OF lt xs(1)] by simp
    from overlay_has_buf [OF all_less_neq [OF this] all_less_neq [OF bs(1)], of k v]
    show ?thesis using 4(1) [OF lt "4.prems"(1) bs(2)] lt by simp
  next
    case eq
    then have nl: "\<not> m_Key b < fst x" by simp
    have "\<forall>y \<in> set xs. m_Key b < fst y" using eq xs(1) by simp
    from overlay_has_buf [OF all_less_neq [OF this] all_less_neq [OF bs(1)], of k v]
    show ?thesis using 4(2) [OF nl eq xs(2) bs(2)] nl eq by (simp add: overlay_has_shadow)
  next
    case gt
    then have ne: "\<not> m_Key b < fst x" "m_Key b \<noteq> fst x" by auto
    have "\<forall>c \<in> set (b # bs). fst x < m_Key c" using gt all_less_trans [OF gt bs(1)] by simp
    from overlay_has_snap [OF all_less_neq [OF xs(1)] all_less_neq [OF this], of k v]
    show ?thesis using 4(3) [OF ne xs(2) "4.prems"(2)] ne by simp
  qed
qed

lemma iter_visit_valid: "iter_Valid i \<Longrightarrow> iter_visit i = (iter_Key i, iter_Value i) # iter_visit (iter_Next i)"
  by (subst iter_visit.simps) simp

lemma iter_visit_invalid: "\<not> iter_Valid i \<Longrightarrow> iter_visit i = []"
  by (subst iter_visit.simps) simp

lemma it_visit_merge_valid: "mi_valid m \<Longrightarrow> it_visit (MergeIter m) = (mi_curKey m, Inr (mi_curVal m)) # it_visit (MergeIter (produce m))"
  by (subst it_visit.simps) simp

abbreviation as_entries :: "(Key \<times> bytes) list \<Rightarrow> (Key \<times> bytes res) list" where
  "as_entries ps \<equiv> map (\<lambda>p. (fst p, Inr (snd p))) ps"

lemma merged_visit:
  "it_visit (MergeIter (produce m)) = as_entries (overlay (iter_visit (mi_store m)) (drop (mi_bi m) (mi_buf m)))"
proof (induction m rule: measure_induct_rule [of mi_left])
  case (less m)
  let ?sv = "iter_Valid (mi_store m)" and ?bv = "mi_bi m < length (mi_buf m)"
  let ?b = "mi_buf m ! mi_bi m" and ?xs = "iter_visit (mi_store m)" and ?bs = "drop (mi_bi m) (mi_buf m)"
  have bs: "?bv \<Longrightarrow> ?bs = ?b # drop (Suc (mi_bi m)) (mi_buf m)" by (rule Cons_nth_drop_Suc [symmetric])
  consider (none) "\<not> ?sv" "\<not> ?bv"
    | (buf) "?bv" "\<not> ?sv \<or> m_Key ?b \<le> iter_Key (mi_store m)"
    | (snap) "?sv" "\<not> (?bv \<and> (\<not> ?sv \<or> m_Key ?b \<le> iter_Key (mi_store m)))"
    by blast
  then show ?case
  proof cases
    case none
    then show ?thesis by (simp add: produce.simps [of m] it_visit.simps iter_visit_invalid)
  next
    case buf
    define m1 where "m1 = (if ?sv \<and> m_Key ?b = iter_Key (mi_store m) then m\<lparr>mi_store := iter_Next (mi_store m)\<rparr> else m)"
    define m2 where "m2 = m1\<lparr>mi_bi := mi_bi m1 + 1\<rparr>"
    define m3 where "m3 = m2\<lparr>mi_curKey := m_Key ?b, mi_curVal := m_Value ?b, mi_valid := True\<rparr>"
    have p: "produce m = (if m_Delete ?b then produce m2 else m3)"
      using buf by (subst produce.simps) (simp add: Let_def m1_def m2_def m3_def)
    have lt: "mi_left m2 < mi_left m" "mi_left m3 < mi_left m"
      using buf(1) by (simp_all add: mi_left_def m3_def m2_def m1_def iter_Next_def) arith+
    have st: "mi_store m3 = mi_store m2" "mi_bi m2 = Suc (mi_bi m)" "mi_bi m3 = Suc (mi_bi m)"
      "mi_buf m2 = mi_buf m" "mi_buf m3 = mi_buf m" by (simp_all add: m1_def m2_def m3_def)
    have ov: "overlay ?xs ?bs = emit ?b @ overlay (iter_visit (mi_store m2)) (drop (Suc (mi_bi m)) (mi_buf m))"
      using buf by (cases ?sv) (auto simp: bs iter_visit_valid iter_visit_invalid m2_def m1_def)
    show ?thesis
      using less [OF lt(1)] less [OF lt(2)] p st ov
      by (cases "m_Delete ?b") (simp_all add: emit_def it_visit_merge_valid m3_def)
  next
    case snap
    define m3 where "m3 = m\<lparr>mi_curKey := iter_Key (mi_store m),
        mi_curVal := snap_val (iter_Value (mi_store m)), mi_store := iter_Next (mi_store m), mi_valid := True\<rparr>"
    have p: "produce m = m3" using snap by (subst produce.simps) (auto simp: Let_def m3_def snap_val_def)
    have ne: "si_rest (mi_store m) \<noteq> []" using snap(1) by (auto dest: iter_Valid_rest)
    have lt: "mi_left m3 < mi_left m" using ne by (simp add: mi_left_def m3_def iter_Next_def)
    have ov: "overlay ?xs ?bs = (iter_Key (mi_store m), snap_val (iter_Value (mi_store m)))
        # overlay (iter_visit (iter_Next (mi_store m))) ?bs"
    proof (cases ?bv)
      case True
      then have "\<not> m_Key ?b < iter_Key (mi_store m)" "m_Key ?b \<noteq> iter_Key (mi_store m)"
        using snap by (simp_all add: order_less_imp_le)
      then show ?thesis using bs [OF True] by (simp add: iter_visit_valid [OF snap(1)])
    qed (simp add: iter_visit_valid [OF snap(1)])
    show ?thesis using less [OF lt] p ov by (simp add: it_visit_merge_valid m3_def)
  qed
qed

subsection \<open>What a transaction sees\<close>

text \<open>
  The abstract view: the last buffered write of the key if there is one, else the snapshot.
\<close>

definition last_mut :: "Mutation list \<Rightarrow> Key \<Rightarrow> Mutation option" where
  "last_mut ms = map_of (rev (map (\<lambda>m. (m_Key m, m)) ms))"

definition mut_val :: "Mutation \<Rightarrow> bytes option" where
  "mut_val m = (if m_Delete m then None else Some (m_Value m))"

definition txn_view :: "history \<Rightarrow> Txn \<Rightarrow> Key \<Rightarrow> bytes option" where
  "txn_view h txn k = (case last_mut (t_mutations txn) k of
                         Some m \<Rightarrow> mut_val m | None \<Rightarrow> visible h (t_readUint txn) k)"

lemma last_mut_Some: "last_mut ms k = Some m \<Longrightarrow> m_Key m = k \<and> m \<in> set ms"
  by (auto simp: last_mut_def dest!: map_of_SomeD)

lemma last_mut_None: "last_mut ms k = None \<longleftrightarrow> k \<notin> m_Key ` set ms"
  by (simp add: last_mut_def map_of_eq_None_iff image_image)

lemma buffered_get_eq:
  "buffered_get (rev ms) k =
     map_option (\<lambda>m. if m_Delete m then Inl ErrKeyNotFound else Inr (m_Value m)) (last_mut ms k)"
proof -
  have "buffered_get ns k = map_option (\<lambda>m. if m_Delete m then Inl ErrKeyNotFound else Inr (m_Value m))
      (map_of (map (\<lambda>m. (m_Key m, m)) ns) k)" for ns
    by (induction ns) auto
  then show ?thesis by (simp add: last_mut_def rev_map)
qed

lemma foldl_upd: "foldl (\<lambda>f m. f(m_Key m \<mapsto> m)) g ms = g ++ last_mut ms"
  by (induction ms arbitrary: g) (auto simp: last_mut_def map_add_def fun_eq_iff split: option.splits)

lemma last_mut_filter:
  "P k \<Longrightarrow> last_mut (filter (\<lambda>m. P (m_Key m)) ms) k = last_mut ms k"
  by (induction ms rule: rev_induct) (auto simp: last_mut_def)

lemma bufferedForPrefix_alt:
  "bufferedForPrefix muts p =
     map (\<lambda>k. the (last_mut muts k)) (sort (remdups (filter (prefix p) (map m_Key muts))))"
proof -
  let ?ms = "filter (\<lambda>m. prefix p (m_Key m)) muts"
  have "the (last_mut ?ms k) = the (last_mut muts k)" if "k \<in> set (sort (remdups (map m_Key ?ms)))" for k
    using that last_mut_filter [of "prefix p" k muts] by auto
  moreover have "map m_Key ?ms = filter (prefix p) (map m_Key muts)" by (simp add: filter_map comp_def)
  ultimately show ?thesis
    unfolding bufferedForPrefix_def Let_def hasPrefix_iff foldl_upd by (auto cong: map_cong)
qed

lemma bufferedForPrefix_keys:
  "map m_Key (bufferedForPrefix muts p) = sort (remdups (filter (prefix p) (map m_Key muts)))"
proof -
  have "m_Key (the (last_mut muts k)) = k" if "k \<in> set (sort (remdups (filter (prefix p) (map m_Key muts))))" for k
  proof -
    have "last_mut muts k \<noteq> None" using that by (auto simp: last_mut_None)
    then show ?thesis using last_mut_Some by fastforce
  qed
  then have "map (m_Key \<circ> (\<lambda>k. the (last_mut muts k))) (sort (remdups (filter (prefix p) (map m_Key muts))))
      = sort (remdups (filter (prefix p) (map m_Key muts)))" by (intro map_idI) (simp only: comp_apply)
  then show ?thesis by (simp only: bufferedForPrefix_alt map_map)
qed

lemma bufferedForPrefix_sorted: "sorted_wrt (<) (map m_Key (bufferedForPrefix muts p))"
  unfolding bufferedForPrefix_keys by (simp add: strict_sorted_iff)

lemma bufferedForPrefix_set:
  "b \<in> set (bufferedForPrefix muts p) \<longleftrightarrow> prefix p (m_Key b) \<and> last_mut muts (m_Key b) = Some b"
proof
  assume b: "b \<in> set (bufferedForPrefix muts p)"
  then obtain k where k: "b = the (last_mut muts k)" "prefix p k" "k \<in> m_Key ` set muts"
    by (auto simp: bufferedForPrefix_alt)
  from k(3) have "last_mut muts k \<noteq> None" by (simp add: last_mut_None)
  then have s: "last_mut muts k = Some b" using k(1) by simp
  show "prefix p (m_Key b) \<and> last_mut muts (m_Key b) = Some b" using last_mut_Some [OF s] s k(2) by auto
next
  assume b: "prefix p (m_Key b) \<and> last_mut muts (m_Key b) = Some b"
  then have "m_Key b \<in> m_Key ` set muts" using last_mut_None [of muts "m_Key b"] by simp
  then have "m_Key b \<in> set (sort (remdups (filter (prefix p) (map m_Key muts))))" using b by auto
  then have "the (last_mut muts (m_Key b)) \<in> set (bufferedForPrefix muts p)"
    unfolding bufferedForPrefix_alt by (simp only: set_map) (rule imageI)
  with b show "b \<in> set (bufferedForPrefix muts p)" by simp
qed

lemma overlay_has_view:
  assumes "\<And>k x. (k, x) \<in> set xs \<longleftrightarrow> prefix p k \<and> (\<exists>v. x = Inr v \<and> visible h (t_readUint txn) k = Some v)"
  shows "overlay_has xs (bufferedForPrefix (t_mutations txn) p) k v \<longleftrightarrow> prefix p k \<and> txn_view h txn k = Some v"
proof (cases "prefix p k")
  case False
  then have "\<not> (\<exists>b \<in> set (bufferedForPrefix (t_mutations txn) p). m_Key b = k)"
    by (auto simp: bufferedForPrefix_set)
  with False show ?thesis by (auto simp: overlay_has_def assms)
next
  case True
  show ?thesis
  proof (cases "last_mut (t_mutations txn) k")
    case None
    then have "\<forall>b \<in> set (bufferedForPrefix (t_mutations txn) p). m_Key b \<noteq> k"
      by (auto simp: bufferedForPrefix_set)
    with None True show ?thesis by (auto simp: overlay_has_def assms txn_view_def snap_val_def)
  next
    case (Some m)
    then have k: "m_Key m = k" using last_mut_Some by blast
    have "b \<in> set (bufferedForPrefix (t_mutations txn) p) \<and> m_Key b = k \<longleftrightarrow> b = m" for b
      using Some True k by (auto simp: bufferedForPrefix_set)
    then have "overlay_has xs (bufferedForPrefix (t_mutations txn) p) k v \<longleftrightarrow> \<not> m_Delete m \<and> v = m_Value m"
      unfolding overlay_has_def by metis
    with Some True show ?thesis by (auto simp: txn_view_def mut_val_def)
  qed
qed

subsection \<open>Laws of the engine over a managed store\<close>

definition mut_op :: "Mutation \<Rightarrow> Key \<times> bytes option" where
  "mut_op m = (m_Key m, mut_val m)"

lemma map_of_mut_ops: "map_of (rev (map mut_op ms)) k = map_option mut_val (last_mut ms k)"
proof -
  have "map_of (map mut_op ns) k = map_option mut_val (map_of (map (\<lambda>m. (m_Key m, m)) ns) k)" for ns
    by (induction ns) (auto simp: mut_op_def)
  then show ?thesis by (simp add: last_mut_def rev_map)
qed

text \<open>The key holds a live value written after \<open>r\<close>: the write conflict the engine detects.\<close>

definition newer_live :: "history \<Rightarrow> u64 \<Rightarrow> u64 \<Rightarrow> Key \<Rightarrow> bool" where
  "newer_live h hi r k \<longleftrightarrow> (\<exists>t v. newest (h k) hi = Some (t, Some v) \<and> r < t)"

text \<open>The oracle bounds every version: what \<open>New\<close> establishes and a commit keeps.\<close>

definition oracle_inv :: "('db \<Rightarrow> history) \<Rightarrow> ('db, 'r) engine \<Rightarrow> bool" where
  "oracle_inv hist e \<longleftrightarrow> (\<forall>k t. hist (e_db e) k t \<noteq> None \<longrightarrow> t \<le> e_clock e)"

context managed_badger
begin

lemma engine_Get_cases:
  assumes "\<not> t_done txn"
  obtains (found) v where "engine_Get bd e txn k = Inr v" "txn_view (hist (e_db e)) txn k = Some v"
  | (absent) "engine_Get bd e txn k = Inl ErrKeyNotFound" "txn_view (hist (e_db e)) txn k = None"
  | (io) m where "engine_Get bd e txn k = Inl (ErrIO m)"
proof (cases "last_mut (t_mutations txn) k")
  case None
  then have "engine_Get bd e txn k = store_Get bd (e_db e) (t_readUint txn) k"
    "txn_view (hist (e_db e)) txn k = visible (hist (e_db e)) (t_readUint txn) k"
    using assms by (simp_all add: engine_Get_def buffered_get_eq txn_view_def)
  then show ?thesis using that store_Get_cases [of "e_db e" "t_readUint txn" k] by metis
next
  case (Some m)
  then have "engine_Get bd e txn k = (if m_Delete m then Inl ErrKeyNotFound else Inr (m_Value m))"
    "txn_view (hist (e_db e)) txn k = mut_val m"
    using assms by (simp_all add: engine_Get_def buffered_get_eq txn_view_def)
  then show ?thesis using that(1,2) by (cases "m_Delete m") (auto simp: mut_val_def)
qed

lemma conflict_check_Inr:
  "conflict_check bd db r ms = Inr c \<Longrightarrow> c \<longleftrightarrow> (\<exists>m \<in> set ms. newer_live (hist db) (bg_maxver bd db) r (m_Key m))"
proof (induction ms)
  case (Cons m ms)
  show ?case
  proof (cases rule: LatestVersion_cases [of db "m_Key m"])
    case (found t v)
    then have "newer_live (hist db) (bg_maxver bd db) r (m_Key m) \<longleftrightarrow> r < t" by (simp add: newer_live_def)
    with found Cons show ?thesis by (auto split: if_splits)
  next
    case absent
    then have "\<not> newer_live (hist db) (bg_maxver bd db) r (m_Key m)" by (auto simp: newer_live_def visible_def)
    with absent Cons show ?thesis by simp
  next
    case (io x)
    with Cons.prems show ?thesis by simp
  qed
qed simp

lemma conflict_check_Inl: "conflict_check bd db r ms = Inl e \<Longrightarrow> \<exists>m. e = ErrIO m"
proof (induction ms)
  case (Cons m ms)
  show ?case
    by (cases rule: LatestVersion_cases [of db "m_Key m"]) (use Cons in \<open>auto split: if_splits\<close>)
qed simp

lemma batch_mutations_Inr:
  "batch_mutations bd wb ms = Inr wb' \<Longrightarrow> wops wb' = wops wb @ map mut_op ms \<and> wts wb' = wts wb"
proof (induction ms arbitrary: wb)
  case (Cons m ms)
  then show ?case
    by (auto simp: mut_op_def mut_val_def split: sum.splits if_splits dest!: set_Inr del_Inr Cons.IH)
qed simp

lemma batch_mutations_Inl: "batch_mutations bd wb ms = Inl e \<Longrightarrow> \<exists>m. e = ErrIO m"
  by (induction ms arbitrary: wb) (auto split: sum.splits if_splits dest: write_Inl)

text \<open>A single-node commit of buffered writes that reports success.\<close>

lemma commit_ok:
  assumes "Commit bd None e txn = (e', txn', None)" and "t_mutations txn \<noteq> []"
  shows "\<not> t_done txn \<and> t_done txn' \<and> conflict_check bd (e_db e) (t_readUint txn) (t_mutations txn) = Inr False
    \<and> e_clock e' = e_clock e + 1
    \<and> hist (e_db e') = write_at (e_clock e + 1) (map mut_op (t_mutations txn)) (hist (e_db e))"
  using assms batch_mutations_Inr
  by (auto simp: Commit_def Let_def split: if_splits sum.splits bool.splits prod.splits option.splits dest!: flush_ok)

text \<open>Whatever a single-node commit returns, the store changes at most at the next version.\<close>

lemma commit_below:
  assumes "Commit bd None e txn = (e', txn', err)" and "t < e_clock e + 1"
  shows "hist (e_db e') k t = hist (e_db e) k t"
proof -
  have "hist db k t = hist (e_db e) k t"
    if fl: "bg_flush bd (e_db e) wb = (db, x)"
      and wb: "batch_mutations bd (bg_batch bd (e_clock e + 1)) (t_mutations txn) = Inr wb" for db x wb
  proof -
    have w: "wts wb = e_clock e + 1" using batch_mutations_Inr [OF wb] by simp
    then have ne: "t \<noteq> wts wb" using assms(2) by auto
    show ?thesis
    proof (cases x)
      case None
      with flush_ok fl ne show ?thesis by (auto simp: write_at_def split: option.splits)
    next
      case (Some e)
      with flush_fail fl ne show ?thesis by blast
    qed
  qed
  then show ?thesis using assms(1)
    by (auto simp: Commit_def Let_def split: if_splits sum.splits bool.splits prod.splits option.splits)
qed

lemma commit_clock:
  "Commit bd None e txn = (e', txn', err) \<Longrightarrow>
   e_clock e' = e_clock e \<or> (err = None \<and> e_clock e' = e_clock e + 1)"
  by (auto simp: Commit_def Let_def LocalCommitter_Propose_def
      split: if_splits sum.splits bool.splits prod.splits option.splits)

lemma New_inv: "oracle_inv hist (engine_New bd db r n)"
proof -
  have "bg_maxver bd db \<le> e_clock (engine_New bd db r n)" "e_db (engine_New bd db r n) = db"
    by (simp_all add: engine_New_def Let_def)
  then show ?thesis using maxver_bound [of db] by (auto simp: oracle_inv_def intro: order_trans)
qed

end

end
