(* ===== verification/TxnProps.thy ===== *)
theory TxnProps
  imports Txn
begin

text \<open>
  Correctness of the transaction engine: reads and scans agree with one abstract view,
  commits are atomic and conflict-checked, and open snapshots are stable under any interleaving
  of other transactions.
\<close>

subsection \<open>Reads and scans\<close>

context healthy_badger
begin

lemma engine_Get_view:
  assumes "\<not> t_done txn"
  shows "engine_Get bd e txn k =
    (case txn_view (hist (e_db e)) txn k of Some v \<Rightarrow> Inr v | None \<Rightarrow> Inl ErrKeyNotFound)"
proof (rule engine_Get_cases [OF assms, of e k], goal_cases found absent io)
  case (io m)
  then have "store_Get bd (e_db e) (t_readUint txn) k = Inl (ErrIO m)"
    using assms by (auto simp: engine_Get_def buffered_get_eq split: option.splits if_splits)
  moreover have "store_Get bd (e_db e) (t_readUint txn) k \<noteq> Inl (ErrIO m)"
    by (simp add: store_Get_def get_healthy_eq split: option.splits prod.splits)
  ultimately show ?case by simp
qed simp_all

lemma snapshot_entries:
  "(k, x) \<in> set (iter_visit (iter_Rewind (store_NewIterator bd db r p))) \<longleftrightarrow>
   prefix p k \<and> (\<exists>v. x = Inr v \<and> visible (hist db) r k = Some v)"
proof
  assume "(k, x) \<in> set (iter_visit (iter_Rewind (store_NewIterator bd db r p)))"
  then have m: "(k, x) \<in> set (bg_items bd db r)" and p: "prefix p k" by (auto simp: forward_visit)
  have "k \<in> fst ` set (bg_items bd db r)" using m by force
  then have "visible (hist db) r k \<noteq> None" by (simp add: items_keys)
  with items_vals [OF m] items_healthy [OF m] p
  show "prefix p k \<and> (\<exists>v. x = Inr v \<and> visible (hist db) r k = Some v)" by auto
next
  assume a: "prefix p k \<and> (\<exists>v. x = Inr v \<and> visible (hist db) r k = Some v)"
  then have "k \<in> fst ` set (bg_items bd db r)" by (auto simp: items_keys)
  then obtain y where y: "(k, y) \<in> set (bg_items bd db r)" by force
  with items_vals [OF y] items_healthy [OF y] a have "y = x" by auto
  with y a show "(k, x) \<in> set (iter_visit (iter_Rewind (store_NewIterator bd db r p)))" by (simp add: forward_visit)
qed

lemma snapshot_sorted: "sorted_wrt (<) (map fst (iter_visit (iter_Rewind (store_NewIterator bd db r p))))"
  using items_sorted [of db r] by (simp add: forward_visit sorted_wrt_map sorted_wrt_filter)

text \<open>The scan of a transaction, as one list.\<close>

lemma engine_scan_eq:
  "it_visit (it_Rewind (engine_NewIterator bd e txn p)) =
     (let xs = iter_visit (iter_Rewind (store_NewIterator bd (e_db e) (t_readUint txn) p));
          buf = bufferedForPrefix (t_mutations txn) p
      in if buf = [] then xs else as_entries (overlay xs buf))"
proof -
  have "it_visit (SnapIter i) = iter_visit i" for i
  proof (induction i rule: iter_visit.induct)
    case (1 i)
    then show ?case by (subst it_visit.simps, subst iter_visit.simps) simp
  qed
  then show ?thesis
    by (simp add: engine_NewIterator_def Let_def merged_Rewind_def merged_visit)
qed

lemma engine_scan_set:
  "(k, x) \<in> set (it_visit (it_Rewind (engine_NewIterator bd e txn p))) \<longleftrightarrow>
   prefix p k \<and> (\<exists>v. x = Inr v \<and> txn_view (hist (e_db e)) txn k = Some v)"
proof -
  let ?xs = "iter_visit (iter_Rewind (store_NewIterator bd (e_db e) (t_readUint txn) p))"
  let ?buf = "bufferedForPrefix (t_mutations txn) p"
  show ?thesis
  proof (cases "?buf = []")
    case True
    have "txn_view (hist (e_db e)) txn k = visible (hist (e_db e)) (t_readUint txn) k" if "prefix p k"
    proof (cases "last_mut (t_mutations txn) k")
      case (Some m)
      then have "m \<in> set ?buf" using that last_mut_Some [OF Some] by (simp add: bufferedForPrefix_set)
      with True show ?thesis by simp
    qed (simp add: txn_view_def)
    then show ?thesis using snapshot_entries [of k x "e_db e" "t_readUint txn" p]
      by (auto simp: engine_scan_eq True Let_def)
  next
    case False
    have "(k, x) \<in> set (as_entries (overlay ?xs ?buf)) \<longleftrightarrow> (\<exists>v. x = Inr v \<and> (k, v) \<in> set (overlay ?xs ?buf))"
      by force
    also have "\<dots> \<longleftrightarrow> (\<exists>v. x = Inr v \<and> overlay_has ?xs ?buf k v)"
      by (simp only: overlay_set [OF snapshot_sorted bufferedForPrefix_sorted])
    also have "\<dots> \<longleftrightarrow> prefix p k \<and> (\<exists>v. x = Inr v \<and> txn_view (hist (e_db e)) txn k = Some v)"
      by (simp only: overlay_has_view [OF snapshot_entries]) blast
    finally show ?thesis by (simp add: engine_scan_eq False Let_def)
  qed
qed

lemma engine_scan_sorted: "sorted_wrt (<) (map fst (it_visit (it_Rewind (engine_NewIterator bd e txn p))))"
proof -
  have "map fst (as_entries ps) = map fst ps" for ps :: "(Key \<times> bytes) list" by simp
  then show ?thesis
    using snapshot_sorted [of "e_db e" "t_readUint txn" p]
      overlay_sorted [OF snapshot_sorted bufferedForPrefix_sorted, of "e_db e" "t_readUint txn" p "t_mutations txn" p]
    by (simp only: engine_scan_eq Let_def split: if_split) blast
qed

end

text \<open>
  C2. Scans and point reads agree inside a transaction: over a store without I/O errors, a
  forward scan of an open transaction yields, in strictly ascending key order, exactly the pairs
  \<open>(k, v)\<close> under the prefix for which \<open>Get\<close> of \<open>k\<close> returns \<open>v\<close>; both
  see the transaction's own writes and deletes over its snapshot.
\<close>

theorem scan_agrees_with_get:
  assumes "healthy_badger bd hist wops wts" and "\<not> t_done txn"
  shows "sorted_wrt (<) (map fst (it_visit (it_Rewind (engine_NewIterator bd e txn p))))
       \<and> (\<forall>k x. (k, x) \<in> set (it_visit (it_Rewind (engine_NewIterator bd e txn p)))
            \<longleftrightarrow> prefix p k \<and> (\<exists>v. x = Inr v \<and> engine_Get bd e txn k = Inr v))
       \<and> (\<forall>k. engine_Get bd e txn k =
            (case txn_view (hist (e_db e)) txn k of Some v \<Rightarrow> Inr v | None \<Rightarrow> Inl ErrKeyNotFound))"
proof -
  have g: "engine_Get bd e txn k =
      (case txn_view (hist (e_db e)) txn k of Some v \<Rightarrow> Inr v | None \<Rightarrow> Inl ErrKeyNotFound)" for k
    by (rule healthy_badger.engine_Get_view [OF assms])
  show ?thesis
    using healthy_badger.engine_scan_sorted [OF assms(1), of e txn p]
      healthy_badger.engine_scan_set [OF assms(1), of _ _ e txn p]
    by (auto simp: g split: option.splits)
qed

definition example_session :: auth_session where
  "example_session = \<lparr>as_Namespace = NamespaceID ''acme'', as_Branch = [], as_Sub = ''u'',
     as_JTI = ''j'', as_AZP = [], as_Role = ''user''\<rparr>"

definition example_txn :: Txn where
  "example_txn = \<lparr>t_ReadTS = \<lparr>WallNanos = 0, Logical = 0, NodeID = 1\<rparr>, t_readUint = 5, t_sess = example_session,
     t_mutations = [\<lparr>m_Key = ''a/3'', m_Value = [], m_Delete = True\<rparr>,
                    \<lparr>m_Key = ''a/0'', m_Value = ''n'', m_Delete = False\<rparr>], t_done = False\<rparr>"

theorem scan_agrees_with_get_witness:
  "engine_Get mem_badger (engine_New mem_badger example_db () 1) example_txn ''a/3'' = Inl ErrKeyNotFound
   \<and> (''a/0'', Inr ''n'') \<in> set (it_visit (it_Rewind
        (engine_NewIterator mem_badger (engine_New mem_badger example_db () 1) example_txn ''a/'')))"
proof -
  have nd: "\<not> t_done example_txn" by (simp add: example_txn_def)
  have "engine_Get mem_badger (engine_New mem_badger example_db () 1) example_txn ''a/0'' = Inr ''n''"
    "engine_Get mem_badger (engine_New mem_badger example_db () 1) example_txn ''a/3'' = Inl ErrKeyNotFound"
    by (simp_all add: engine_Get_def example_txn_def)
  with scan_agrees_with_get [OF mem.healthy_badger_axioms nd, of "engine_New mem_badger example_db () 1" "''a/''"]
  show ?thesis by simp
qed

subsection \<open>Atomic commit\<close>

lemma u64_less_succ: "x < x + 1 \<longleftrightarrow> x \<noteq> - 1" for x :: u64
  by (metis add.commute add_eq_0_iff2 lessI less_irrefl unatSuc word_less_nat_alt word_not_simps(1))

context managed_badger
begin

lemma commit_visible:
  assumes inv: "oracle_inv hist e" and nowrap: "e_clock e \<noteq> - 1"
    and c: "Commit bd None e txn = (e', txn', None)" and ne: "t_mutations txn \<noteq> []"
  shows "oracle_inv hist e'" and "e_clock e' = e_clock e + 1"
    and "r \<le> e_clock e \<Longrightarrow> visible (hist (e_db e')) r k = visible (hist (e_db e)) r k"
    and "visible (hist (e_db e')) (e_clock e') k =
      (case last_mut (t_mutations txn) k of Some m \<Rightarrow> mut_val m | None \<Rightarrow> visible (hist (e_db e)) (e_clock e) k)"
proof -
  have lt: "e_clock e < e_clock e + 1" using nowrap by (simp add: u64_less_succ)
  have h: "hist (e_db e') = write_at (e_clock e + 1) (map mut_op (t_mutations txn)) (hist (e_db e))"
    and cl: "e_clock e' = e_clock e + 1" using commit_ok [OF c ne] by auto
  show "e_clock e' = e_clock e + 1" by (rule cl)
  have le: "t \<le> e_clock e + 1" if "hist (e_db e) k t \<noteq> None" for k t
    using inv that lt unfolding oracle_inv_def by (meson order.strict_implies_order order.trans)
  show "oracle_inv hist e'"
    unfolding oracle_inv_def h cl using write_at_dom le by (metis order_refl)
  show "visible (hist (e_db e')) r k = visible (hist (e_db e)) r k" if "r \<le> e_clock e"
    unfolding h using that lt by (intro visible_write_above) simp
  have same: "visible (hist (e_db e)) (e_clock e + 1) k = visible (hist (e_db e)) (e_clock e) k"
    using newest_stable [of "hist (e_db e) k" "e_clock e" "e_clock e + 1"] inv lt
    by (simp add: visible_def oracle_inv_def)
  show "visible (hist (e_db e')) (e_clock e') k =
      (case last_mut (t_mutations txn) k of Some m \<Rightarrow> mut_val m | None \<Rightarrow> visible (hist (e_db e)) (e_clock e) k)"
    using visible_write_at [of "hist (e_db e)" "e_clock e + 1" "map mut_op (t_mutations txn)" k] le
    by (simp add: h cl map_of_mut_ops same split: option.split)
qed

end

text \<open>
  C3. A successful commit is atomic: it advances the oracle by one; every snapshot taken before
  it reads every key as before, and a snapshot taken after it sees all of the transaction's writes
  and deletes, the last one of each key, over the state before; none of the keys it wrote held a
  live version newer than its snapshot; and the oracle still bounds every version in the store.
\<close>

theorem commit_atomic:
  assumes "managed_badger bd hist wops wts" and "oracle_inv hist e" and "e_clock e \<noteq> - 1"
    and "Commit bd None e txn = (e', txn', None)" and "t_mutations txn \<noteq> []"
  shows "oracle_inv hist e' \<and> e_clock e' = e_clock e + 1 \<and> t_done txn'
       \<and> (\<forall>r k. r \<le> e_clock e \<longrightarrow> visible (hist (e_db e')) r k = visible (hist (e_db e)) r k)
       \<and> (\<forall>k. visible (hist (e_db e')) (e_clock e') k =
            (case last_mut (t_mutations txn) k of
               Some m \<Rightarrow> mut_val m | None \<Rightarrow> visible (hist (e_db e)) (e_clock e) k))
       \<and> (\<forall>m \<in> set (t_mutations txn).
            \<not> newer_live (hist (e_db e)) (bg_maxver bd (e_db e)) (t_readUint txn) (m_Key m))"
  using managed_badger.commit_visible [OF assms] managed_badger.commit_ok [OF assms(1,4,5)]
    managed_badger.conflict_check_Inr [OF assms(1)] by blast

theorem commit_atomic_witness:
  "\<exists>e' txn'. Commit mem_badger None (engine_New mem_badger example_db () 1) example_txn = (e', txn', None)
     \<and> visible (mem_hist (e_db e')) (e_clock e') ''a/0'' = Some ''n''
     \<and> visible (mem_hist (e_db e')) (e_clock e') ''a/3'' = None"
proof -
  let ?e = "engine_New mem_badger example_db () 1"
  have "snd (snd (Commit mem_badger None ?e example_txn)) = None"
    by (simp add: Commit_def example_txn_def engine_New_def LatestVersion_def mem_get_def mem_newest_def
        mem_versions_def example_db_def LocalCommitter_Propose_def Let_def)
  then obtain e' txn' where c: "Commit mem_badger None ?e example_txn = (e', txn', None)"
    by (metis prod.collapse)
  have "e_clock ?e \<noteq> - 1" "t_mutations example_txn \<noteq> []"
    by (simp_all add: engine_New_def example_db_def Let_def example_txn_def)
  from commit_atomic [OF mem.managed_badger_axioms mem.New_inv this(1) c this(2)] c show ?thesis
    by (auto simp: example_txn_def last_mut_def mut_val_def)
qed

subsection \<open>First committer wins\<close>

context healthy_badger
begin

lemma conflict_check_decided: "\<exists>c. conflict_check bd db r ms = Inr c"
proof (induction ms)
  case (Cons m ms)
  have "\<exists>p. LatestVersion bd db (m_Key m) = Inr p"
    by (auto simp: LatestVersion_def get_healthy_eq split: option.split prod.split intro: exI [of _ True] exI [of _ False])
  then obtain ts found where "LatestVersion bd db (m_Key m) = Inr (ts, found)" by (metis prod.collapse)
  with Cons show ?case by (cases "found \<and> r < ts") auto
qed auto

lemma conflict_check_eq:
  "conflict_check bd db r ms = Inr (\<exists>m \<in> set ms. newer_live (hist db) (bg_maxver bd db) r (m_Key m))"
proof -
  obtain c where c: "conflict_check bd db r ms = Inr c" using conflict_check_decided by blast
  show ?thesis using conflict_check_Inr [OF c] by (simp only: c)
qed

lemma batch_mutations_ok:
  "\<forall>m \<in> set ms. m_Key m \<noteq> [] \<Longrightarrow> \<exists>wb'. batch_mutations bd wb ms = Inr wb'"
proof (induction ms arbitrary: wb)
  case (Cons m ms)
  obtain wb' where "(if m_Delete m then bg_del bd wb (m_Key m) else bg_set bd wb (m_Key m) (m_Value m)) = Inr wb'"
    using del_healthy [of "m_Key m" wb] set_healthy [of "m_Key m" wb "m_Value m"] Cons.prems
    by (cases "m_Delete m") auto
  with Cons show ?case by simp
qed simp

lemma commit_decides:
  assumes "\<not> t_done txn" and "t_mutations txn \<noteq> []" and "\<forall>m \<in> set (t_mutations txn). m_Key m \<noteq> []"
  shows "if \<exists>m \<in> set (t_mutations txn). newer_live (hist (e_db e)) (bg_maxver bd (e_db e)) (t_readUint txn) (m_Key m)
    then Commit bd None e txn = (e, txn\<lparr>t_done := True\<rparr>, Some ErrWriteConflict)
    else \<exists>e'. Commit bd None e txn = (e', txn\<lparr>t_done := True\<rparr>, None)"
proof -
  obtain wb where wb: "batch_mutations bd (bg_batch bd (e_clock e + 1)) (t_mutations txn) = Inr wb"
    using batch_mutations_ok [OF assms(3)] by blast
  obtain db where fl: "bg_flush bd (e_db e) wb = (db, None)"
    using flush_healthy [of "e_db e" wb] by (metis prod.collapse)
  show ?thesis using assms(1,2) wb fl
    by (simp add: Commit_def conflict_check_eq Let_def LocalCommitter_Propose_def)
qed

lemma written_newer_live:
  assumes inv: "oracle_inv hist e" and nowrap: "e_clock e \<noteq> - 1"
    and c: "Commit bd None e txn = (e', txn', None)"
    and m: "last_mut (t_mutations txn) k = Some m" "\<not> m_Delete m" and r: "r \<le> e_clock e"
  shows "newer_live (hist (e_db e')) (bg_maxver bd (e_db e')) r k"
proof -
  have ne: "t_mutations txn \<noteq> []" using m(1) by (auto simp: last_mut_def)
  have h: "hist (e_db e') k (e_clock e + 1) = Some (Some (m_Value m))"
    using commit_ok [OF c ne] map_of_mut_ops [of "t_mutations txn" k] m
    by (auto simp: write_at_def mut_val_def)
  have inv': "oracle_inv hist e'" and cl: "e_clock e' = e_clock e + 1"
    using commit_visible [OF inv nowrap c ne] by auto
  have "newest (hist (e_db e') k) (bg_maxver bd (e_db e')) = Some (e_clock e + 1, Some (m_Value m))"
    using h inv' cl maxver_bound [of "e_db e'" k "e_clock e + 1"]
    by (intro newest_SomeI) (auto simp: oracle_inv_def)
  moreover have "r < e_clock e + 1" using r nowrap u64_less_succ [of "e_clock e"] by auto
  ultimately show ?thesis by (auto simp: newer_live_def)
qed

end


abbreviation set_txn :: "u64 \<Rightarrow> Key \<Rightarrow> bytes \<Rightarrow> Txn" where
  "set_txn r k v \<equiv> \<lparr>t_ReadTS = \<lparr>WallNanos = 0, Logical = 0, NodeID = 1\<rparr>, t_readUint = r, t_sess = example_session,
     t_mutations = [\<lparr>m_Key = k, m_Value = v, m_Delete = False\<rparr>], t_done = False\<rparr>"

abbreviation del_txn :: "u64 \<Rightarrow> Key \<Rightarrow> Txn" where
  "del_txn r k \<equiv> \<lparr>t_ReadTS = \<lparr>WallNanos = 0, Logical = 0, NodeID = 1\<rparr>, t_readUint = r, t_sess = example_session,
     t_mutations = [\<lparr>m_Key = k, m_Value = [], m_Delete = True\<rparr>], t_done = False\<rparr>"


subsection \<open>Retrying\<close>

lemma buffer_all: "foldl Buffer t ms = t\<lparr>t_mutations := t_mutations t @ ms\<rparr>"
  by (induction ms arbitrary: t) (simp_all add: Buffer_def)

context healthy_badger
begin

lemma fresh_commit:
  assumes inv: "oracle_inv hist e" and "ms \<noteq> []" and "\<forall>m \<in> set ms. m_Key m \<noteq> []"
    and t: "\<not> t_done t" "t_mutations t = ms" "t_readUint t = e_clock e"
  shows "\<exists>e'. Commit bd None e t = (e', t\<lparr>t_done := True\<rparr>, None)"
proof -
  have "\<not> newer_live (hist (e_db e)) (bg_maxver bd (e_db e)) (t_readUint t) k" for k
  proof
    assume "newer_live (hist (e_db e)) (bg_maxver bd (e_db e)) (t_readUint t) k"
    then obtain u v where "newest (hist (e_db e) k) (bg_maxver bd (e_db e)) = Some (u, Some v)" "e_clock e < u"
      by (auto simp: newer_live_def t(3))
    then show False using inv newest_SomeD by (fastforce simp: oracle_inv_def)
  qed
  then show ?thesis using commit_decides [of t e] assms by auto
qed

end

text \<open>
  C6. A refused transaction makes progress by retrying: begun again after the refusal, with the same writes and no other
  commit in between, it commits, and the store then holds its writes.
\<close>

theorem retry_commits:
  assumes "healthy_badger bd hist wops wts" and "oracle_inv hist e" and "e_clock e \<noteq> - 1"
    and "Commit bd None e t = (e1, t1, Some ErrWriteConflict)" and "\<forall>m \<in> set (t_mutations t). m_Key m \<noteq> []"
    and "Begin None wall e1 sess = (e2, retry)"
  shows "\<exists>e3 t3. Commit bd None e2 (foldl Buffer retry (t_mutations t)) = (e3, t3, None)
     \<and> (\<forall>k m. last_mut (t_mutations t) k = Some m \<longrightarrow> visible (hist (e_db e3)) (e_clock e3) k = mut_val m)"
proof -
  let ?t = "foldl Buffer retry (t_mutations t)"
  have ne: "t_mutations t \<noteq> []" and nd: "\<not> t_done t" using assms(4) by (auto simp: Commit_def split: if_splits)
  have e1: "e1 = e" using healthy_badger.commit_decides [OF assms(1) nd ne assms(5), of e] assms(4) by (auto split: if_splits)
  obtain h where h: "e2 = e\<lparr>e_hlc := h\<rparr>" and t: "\<not> t_done ?t" "t_mutations ?t = t_mutations t" "t_readUint ?t = e_clock e"
    using assms(6) by (auto simp: e1 Begin_def Let_def buffer_all split: prod.splits)
  have e2: "oracle_inv hist e2" "e_clock e2 = e_clock e" "\<not> t_done ?t" "t_mutations ?t = t_mutations t" "t_readUint ?t = e_clock e2"
    using assms(2) t by (simp_all add: h oracle_inv_def)
  obtain e3 where c: "Commit bd None e2 ?t = (e3, ?t\<lparr>t_done := True\<rparr>, None)"
    using healthy_badger.fresh_commit [OF assms(1) e2(1) ne assms(5) e2(3-5)] by blast
  have "visible (hist (e_db e3)) (e_clock e3) k =
      (case last_mut (t_mutations ?t) k of Some m \<Rightarrow> mut_val m | None \<Rightarrow> visible (hist (e_db e2)) (e_clock e2) k)" for k
    using managed_badger.commit_visible [OF healthy_badger.axioms(1) [OF assms(1)] e2(1) _ c] assms(3) ne e2(2,4) by simp
  with c show ?thesis by (auto simp: e2(4))
qed

theorem retry_commits_witness:
  "\<exists>e1 t1 e2 t2 e3 t3 e4 t4. Commit mem_badger None (engine_New mem_badger example_db () 1) (set_txn 5 ''a/3'' ''p'') = (e1, t1, None)
     \<and> Commit mem_badger None e1 (set_txn 5 ''a/3'' ''q'') = (e2, t2, Some ErrWriteConflict)
     \<and> Begin None 7 e2 example_session = (e3, t3)
     \<and> Commit mem_badger None e3 (foldl Buffer t3 [\<lparr>m_Key = ''a/3'', m_Value = ''q'', m_Delete = False\<rparr>]) = (e4, t4, None)
     \<and> visible (mem_hist (e_db e4)) (e_clock e4) ''a/3'' = Some ''q''"
proof -
  let ?e = "engine_New mem_badger example_db () 1"
  let ?m = "\<lambda>v. \<lparr>m_Key = ''a/3'', m_Value = v, m_Delete = False\<rparr>"
  have cl: "e_clock ?e = 5" by (simp add: engine_New_def example_db_def Let_def)
  have "snd (snd (Commit mem_badger None ?e (set_txn 5 ''a/3'' ''p''))) = None"
    by (simp add: Commit_def engine_New_def LatestVersion_def mem_get_def mem_newest_def
        mem_versions_def example_db_def LocalCommitter_Propose_def Let_def)
  then obtain e1 t1 where c: "Commit mem_badger None ?e (set_txn 5 ''a/3'' ''p'') = (e1, t1, None)"
    by (metis prod.collapse)
  have v: "oracle_inv mem_hist e1" "e_clock e1 = 6"
    using mem.commit_visible [OF mem.New_inv _ c] cl by simp_all
  have "newer_live (mem_hist (e_db e1)) (bg_maxver mem_badger (e_db e1)) 5 ''a/3''"
    using mem.written_newer_live [OF mem.New_inv _ c, of "''a/3''" "?m ''p''" 5] cl by (simp add: last_mut_def)
  then have r: "Commit mem_badger None e1 (set_txn 5 ''a/3'' ''q'') = (e1, (set_txn 5 ''a/3'' ''q'')\<lparr>t_done := True\<rparr>, Some ErrWriteConflict)"
    using mem.commit_decides [of "set_txn 5 ''a/3'' ''q''" e1] by simp
  obtain e3 t3 where b: "Begin None 7 e1 example_session = (e3, t3)" by fastforce
  have "e_clock e1 \<noteq> - 1" by (simp add: v(2))
  from retry_commits [OF mem.healthy_badger_axioms v(1) this r _ b] obtain e4 t4 where
    "Commit mem_badger None e3 (foldl Buffer t3 [?m ''q'']) = (e4, t4, None)"
    "\<forall>k m. last_mut [?m ''q''] k = Some m \<longrightarrow> visible (mem_hist (e_db e4)) (e_clock e4) k = mut_val m"
    by auto
  with c r b show ?thesis by (fastforce simp: last_mut_def mut_val_def)
qed

subsection \<open>What the conflict check misses\<close>

context healthy_badger
begin

lemma delete_hides_version:
  assumes inv: "oracle_inv hist e" and nowrap: "e_clock e \<noteq> - 1"
    and c: "Commit bd None e (del_txn (e_clock e) k) = (e1, t1, None)"
  shows "newest (hist (e_db e1) k) (bg_maxver bd (e_db e1)) = Some (e_clock e + 1, None)"
proof -
  have h: "hist (e_db e1) k (e_clock e + 1) = Some None"
    using commit_ok [OF c] by (simp add: write_at_def mut_op_def mut_val_def)
  have "oracle_inv hist e1" "e_clock e1 = e_clock e + 1" using commit_visible [OF inv nowrap c] by simp_all
  then show ?thesis using h maxver_bound [of "e_db e1" k "e_clock e + 1"]
    by (intro newest_SomeI) (auto simp: oracle_inv_def)
qed

lemma delete_then_set_commits:
  assumes inv: "oracle_inv hist e" and nowrap: "e_clock e \<noteq> - 1" and k: "k \<noteq> []"
    and c: "Commit bd None e (del_txn (e_clock e) k) = (e1, t1, None)"
  shows "LatestVersion bd (e_db e1) k = Inr (0, False)"
    and "\<exists>e2. Commit bd None e1 (set_txn (e_clock e) k v) = (e2, (set_txn (e_clock e) k v)\<lparr>t_done := True\<rparr>, None)"
proof -
  note n = delete_hides_version [OF inv nowrap c]
  show "LatestVersion bd (e_db e1) k = Inr (0, False)" by (simp add: LatestVersion_def get_healthy_eq n)
  have nl: "\<not> newer_live (hist (e_db e1)) (bg_maxver bd (e_db e1)) (e_clock e) k" by (simp add: newer_live_def n)
  then show "\<exists>e2. Commit bd None e1 (set_txn (e_clock e) k v) = (e2, (set_txn (e_clock e) k v)\<lparr>t_done := True\<rparr>, None)"
    using commit_decides [of "set_txn (e_clock e) k v" e1] k by simp
qed

end

text \<open>
  The check does not see deletes: \<open>LatestVersion\<close> reports a deleted key as never
  written, so when one transaction has deleted a key, a second one with the same snapshot that
  writes the key commits too, and the delete is lost.
\<close>

theorem concurrent_delete_not_detected:
  assumes "healthy_badger bd hist wops wts" and "oracle_inv hist e"
    and "e_clock e \<noteq> - 1" and "k \<noteq> []"
    and "Commit bd None e (del_txn (e_clock e) k) = (e1, t1, None)"
  shows "visible (hist (e_db e1)) (e_clock e1) k = None
       \<and> LatestVersion bd (e_db e1) k = Inr (0, False)
       \<and> (\<exists>e2 t2. Commit bd None e1 (set_txn (e_clock e) k v) = (e2, t2, None))"
proof -
  have mb: "managed_badger bd hist wops wts" using assms(1) by (simp add: healthy_badger_def)
  have "visible (hist (e_db e1)) (e_clock e1) k = None"
    using managed_badger.commit_visible(4) [OF mb assms(2,3,5), of k] by (simp add: last_mut_def mut_val_def)
  then show ?thesis using healthy_badger.delete_then_set_commits(1) [OF assms]
      healthy_badger.delete_then_set_commits(2) [OF assms, of v] by blast
qed

theorem concurrent_delete_not_detected_witness:
  "\<exists>e1 t1. Commit mem_badger None (engine_New mem_badger example_db () 1) (del_txn 5 ''a/3'') = (e1, t1, None)
     \<and> snd (snd (Commit mem_badger None e1 (set_txn 5 ''a/3'' ''q''))) = None"
proof -
  let ?e = "engine_New mem_badger example_db () 1"
  have cl: "e_clock ?e = 5" by (simp add: engine_New_def example_db_def Let_def)
  have "snd (snd (Commit mem_badger None ?e (del_txn (e_clock ?e) ''a/3''))) = None"
    by (simp add: cl) (simp add: Commit_def engine_New_def LatestVersion_def mem_get_def mem_newest_def
        mem_versions_def example_db_def LocalCommitter_Propose_def Let_def)
  then obtain e1 t1 where c: "Commit mem_badger None ?e (del_txn (e_clock ?e) ''a/3'') = (e1, t1, None)"
    by (metis prod.collapse)
  show ?thesis
    using concurrent_delete_not_detected [OF mem.healthy_badger_axioms mem.New_inv _ _ c, of "''q''"] c
    by (auto simp: cl)
qed

subsection \<open>After a failed flush\<close>

text \<open>
  A store whose flush of more than one write stops after the first: an in-memory store with the
  same laws, without the promise that writes succeed.
\<close>

definition flaky_badger :: "(mem_db, mem_wb) badger" where
  "flaky_badger = mem_badger\<lparr>bg_flush := (\<lambda>db (t, ops).
     case ops of
       (k, ov) # _ # _ \<Rightarrow> (((k, t), ov) # db, Some (ErrIO ''flush''))
     | _ \<Rightarrow> bg_flush mem_badger db (t, ops))\<rparr>"

lemma flaky_sel [simp]:
  "bg_get flaky_badger = mem_get" "bg_items flaky_badger = mem_items"
  "bg_maxver flaky_badger = bg_maxver mem_badger" "bg_batch flaky_badger = bg_batch mem_badger"
  "bg_set flaky_badger = bg_set mem_badger" "bg_setat flaky_badger = bg_setat mem_badger"
  "bg_del flaky_badger = bg_del mem_badger" "bg_drop flaky_badger = bg_drop mem_badger"
  by (simp_all add: flaky_badger_def)

lemma flaky_flush:
  "bg_flush flaky_badger db (t, ops) =
     (case ops of (k, ov) # _ # _ \<Rightarrow> (((k, t), ov) # db, Some (ErrIO ''flush''))
      | _ \<Rightarrow> bg_flush mem_badger db (t, ops))"
  by (simp add: flaky_badger_def)

interpretation flaky: managed_badger flaky_badger mem_hist snd fst
proof (unfold_locales, goal_cases)
  case (3 db r) show ?case by (simp add: mem_items_sorted)
next
  case (4 db r) show ?case by (simp add: mem_items_keys)
next
  case (6 db k t) then show ?case by (simp add: mem_hist_def mem_maxver)
next
  case (15 db wb db')
  then show ?case using mem.flush_ok [of db wb db']
    by (cases wb) (auto simp: flaky_flush split: list.splits)
next
  case (16 db wb db' e)
  then show ?case by (cases wb) (auto simp: flaky_flush mem_hist_def split: list.splits)
qed (auto simp: mem_get_def mem_newest_eq visible_def mem_items_set mem_drop_hist
    split: option.splits prod.splits)

text \<open>
  A failed commit can become visible: the oracle is not advanced when the flush fails, and
  the next transaction commits at the same timestamp. If the failed flush had already stored one of
  its writes, that write is part of the next snapshot although its transaction reported an error.
\<close>

theorem failed_commit_resurfaces:
  assumes "managed_badger bd hist wops wts"
    and "Commit bd None e t1 = (e1, t1', Some err)" and "hist (e_db e1) k (e_clock e + 1) = Some ov"
    and "Commit bd None e1 t2 = (e2, t2', None)" and "t_mutations t2 \<noteq> []" and "k \<notin> m_Key ` set (t_mutations t2)"
  shows "e_clock e2 = e_clock e + 1 \<and> visible (hist (e_db e2)) (e_clock e2) k = ov"
proof -
  have cl: "e_clock e1 = e_clock e" using managed_badger.commit_clock [OF assms(1,2)] by simp
  have c: "e_clock e2 = e_clock e + 1"
    and h: "hist (e_db e2) = write_at (e_clock e + 1) (map mut_op (t_mutations t2)) (hist (e_db e1))"
    using managed_badger.commit_ok [OF assms(1,4,5)] by (simp_all add: cl)
  have "last_mut (t_mutations t2) k = None" using assms(6) by (simp add: last_mut_None)
  then have "hist (e_db e2) k = hist (e_db e1) k" by (simp add: h write_at_def map_of_mut_ops)
  then have "newest (hist (e_db e2) k) (e_clock e + 1) = Some (e_clock e + 1, ov)"
    using assms(3) by (intro newest_SomeI) simp_all
  then show ?thesis by (simp add: c visible_def)
qed

theorem failed_commit_resurfaces_witness:
  "\<exists>e1 e2 t1 t2. Commit flaky_badger None (engine_New flaky_badger [] () 1)
        ((set_txn 1 ''x'' ''1'')\<lparr>t_mutations := [\<lparr>m_Key = ''x'', m_Value = ''1'', m_Delete = False\<rparr>,
           \<lparr>m_Key = ''y'', m_Value = ''1'', m_Delete = False\<rparr>]\<rparr>) = (e1, t1, Some (ErrIO ''flush''))
     \<and> Commit flaky_badger None e1 (set_txn 1 ''z'' ''1'') = (e2, t2, None)
     \<and> visible (mem_hist (e_db e2)) (e_clock e2) ''x'' = Some ''1''"
proof -
  let ?e = "engine_New flaky_badger [] () 1"
  let ?t = "(set_txn 1 ''x'' ''1'')\<lparr>t_mutations := [\<lparr>m_Key = ''x'', m_Value = ''1'', m_Delete = False\<rparr>,
           \<lparr>m_Key = ''y'', m_Value = ''1'', m_Delete = False\<rparr>]\<rparr>"
  obtain e1 t1 where c: "Commit flaky_badger None ?e ?t = (e1, t1, Some (ErrIO ''flush''))"
    and db: "e_db e1 = [((''x'', 2), Some ''1'')]" and cl: "e_clock e1 = 1"
    by (simp add: Commit_def engine_New_def LatestVersion_def mem_get_def mem_newest_def mem_versions_def
        flaky_flush Let_def)
  have "snd (snd (Commit flaky_badger None e1 (set_txn 1 ''z'' ''1''))) = None"
    by (simp add: Commit_def LatestVersion_def mem_get_def mem_newest_def mem_versions_def db cl
        flaky_flush Let_def LocalCommitter_Propose_def)
  then obtain e2 t2 where c2: "Commit flaky_badger None e1 (set_txn 1 ''z'' ''1'') = (e2, t2, None)"
    by (metis prod.collapse)
  have "mem_hist (e_db e1) ''x'' (e_clock ?e + 1) = Some (Some ''1'')"
    by (simp add: db mem_hist_def engine_New_def Let_def)
  from failed_commit_resurfaces [OF flaky.managed_badger_axioms c this c2] c c2 show ?thesis by auto
qed

subsection \<open>Snapshot stability\<close>

text \<open>
  A run of a single-node engine: transactions are begun, buffer writes, commit and roll back in
  any order. Transactions are numbered in the order they begin.
\<close>

datatype eng_op =
    OBegin u64 auth_session
  | OBuffer nat Mutation
  | OCommit nat
  | ORollback nat

fun eng_step :: "('db, 'wb) badger \<Rightarrow> ('db, 'r) engine \<times> Txn list \<Rightarrow> eng_op \<Rightarrow> ('db, 'r) engine \<times> Txn list" where
  "eng_step bd (e, ts) (OBegin wall sess) = (let (e', t) = Begin None wall e sess in (e', ts @ [t]))"
| "eng_step bd (e, ts) (OBuffer i m) = (e, if i < length ts then ts[i := Buffer (ts ! i) m] else ts)"
| "eng_step bd (e, ts) (OCommit i) =
     (if i < length ts then let (e', t, _) = Commit bd None e (ts ! i) in (e', ts[i := t]) else (e, ts))"
| "eng_step bd (e, ts) (ORollback i) = (e, if i < length ts then ts[i := fst (Rollback (ts ! i))] else ts)"

definition eng_run :: "('db, 'wb) badger \<Rightarrow> ('db, 'r) engine \<times> Txn list \<Rightarrow> eng_op list \<Rightarrow> ('db, 'r) engine \<times> Txn list" where
  "eng_run bd = foldl (eng_step bd)"

lemma pairs_from_keys: "distinct (map fst xs) \<Longrightarrow> map (\<lambda>k. (k, the (map_of xs k))) (map fst xs) = xs"
  by (simp add: comp_def) (intro map_idI, auto)

lemma sorted_pairs_unique:
  fixes xs ys :: "(bytes \<times> 'a) list"
  assumes "sorted_wrt (<) (map fst xs)" "sorted_wrt (<) (map fst ys)" "set xs = set ys"
  shows "xs = ys"
proof -
  have d: "distinct (map fst xs)" "distinct (map fst ys)" using assms(1,2) by (simp_all add: strict_sorted_iff)
  have "map fst xs = map fst ys"
    using assms by (intro sorted_distinct_set_unique) (simp_all add: strict_sorted_iff)
  moreover have "map_of xs = map_of ys" using d assms(3) by (simp add: map_of_inject_set)
  ultimately show ?thesis using pairs_from_keys [OF d(1)] pairs_from_keys [OF d(2)] by metis
qed

lemma u64_succ: "unat (x + 1) \<le> Suc (unat x)" for x :: u64
  by (cases "1 + x = 0") (simp_all add: unatSuc add.commute)

context managed_badger
begin

lemma commit_stable:
  assumes c: "Commit bd None e txn = (e', txn', err)" and nowrap: "e_clock e \<noteq> - 1"
  shows "r \<le> e_clock e \<Longrightarrow> visible (hist (e_db e')) r k = visible (hist (e_db e)) r k"
    and "e_clock e \<le> e_clock e'" and "unat (e_clock e') \<le> Suc (unat (e_clock e))"
proof -
  have lt: "e_clock e < e_clock e + 1" using nowrap by (simp add: u64_less_succ)
  show "visible (hist (e_db e')) r k = visible (hist (e_db e)) r k" if "r \<le> e_clock e"
  proof -
    have "newest (hist (e_db e') k) r = newest (hist (e_db e) k) r"
      using commit_below [OF c] that lt by (intro newest_cong) (meson order_le_less_trans)
    then show ?thesis by (simp add: visible_def)
  qed
  show "e_clock e \<le> e_clock e'" "unat (e_clock e') \<le> Suc (unat (e_clock e))"
    using commit_clock [OF c] lt u64_succ [of "e_clock e"] by auto
qed

lemma step_stable:
  assumes st: "eng_step bd (e, ts) x = (e', ts')" and nowrap: "e_clock e \<noteq> - 1"
  shows "(r \<le> e_clock e \<longrightarrow> visible (hist (e_db e')) r k = visible (hist (e_db e)) r k)
    \<and> e_clock e \<le> e_clock e' \<and> unat (e_clock e') \<le> Suc (unat (e_clock e))"
proof (cases x)
  case (OBegin wall sess)
  with st have "e_db e' = e_db e" "e_clock e' = e_clock e"
    by (auto simp: Begin_def Let_def split: prod.splits)
  then show ?thesis by simp
next
  case (OBuffer i m)
  with st show ?thesis by simp
next
  case (OCommit i)
  show ?thesis
  proof (cases "i < length ts")
    case True
    then obtain t err where "Commit bd None e (ts ! i) = (e', t, err)"
      using st OCommit by (auto split: prod.splits)
    from commit_stable [OF this nowrap] show ?thesis by blast
  next
    case False
    with st OCommit show ?thesis by simp
  qed
next
  case (ORollback i)
  with st show ?thesis by simp
qed

lemma run_stable:
  assumes "unat (e_clock e) + length ops < 2 ^ 64" and "eng_run bd (e, ts) ops = (e', ts')" and "r \<le> e_clock e"
  shows "visible (hist (e_db e')) r k = visible (hist (e_db e)) r k"
  using assms
proof (induction ops arbitrary: e ts)
  case Nil
  then show ?case by (simp add: eng_run_def)
next
  case (Cons x ops)
  obtain e1 ts1 where st: "eng_step bd (e, ts) x = (e1, ts1)" by (cases "eng_step bd (e, ts) x")
  have "unat (e_clock e) < 2 ^ 64 - 1" using Cons.prems(1) by simp
  moreover have "unat (- 1 :: u64) = 2 ^ 64 - 1" by (simp add: unsigned_minus_1_eq_mask mask_eq_exp_minus_1)
  ultimately have nowrap: "e_clock e \<noteq> - 1" by auto
  note s = step_stable [OF st nowrap, of r k]
  have "visible (hist (e_db e')) r k = visible (hist (e_db e1)) r k"
    using Cons.prems s st by (intro Cons.IH [of e1 ts1]) (auto simp: eng_run_def)
  with s Cons.prems(3) show ?case by simp
qed

end

text \<open>
  C1. Snapshot isolation: whatever other transactions begin, buffer, commit or roll back in the
  meantime, in any order and number (up to the range of the 64-bit oracle), an open transaction keeps reading the same value for every key, and every scan
  yields the same list: no dirty reads, no unrepeatable reads and no phantoms.
\<close>

theorem snapshot_isolation:
  assumes "healthy_badger bd hist wops wts" and "\<not> t_done txn" and "t_readUint txn \<le> e_clock e"
    and "unat (e_clock e) + length ops < 2 ^ 64" and "eng_run bd (e, ts) ops = (e', ts')"
  shows "engine_Get bd e' txn k = engine_Get bd e txn k
       \<and> it_visit (it_Rewind (engine_NewIterator bd e' txn p)) = it_visit (it_Rewind (engine_NewIterator bd e txn p))"
proof -
  have mb: "managed_badger bd hist wops wts" using assms(1) by (simp add: healthy_badger_def)
  have v: "txn_view (hist (e_db e')) txn k = txn_view (hist (e_db e)) txn k" for k
    using managed_badger.run_stable [OF mb assms(4,5,3)] by (simp add: txn_view_def split: option.split)
  have "it_visit (it_Rewind (engine_NewIterator bd e' txn p)) = it_visit (it_Rewind (engine_NewIterator bd e txn p))"
  proof (rule sorted_pairs_unique)
    show "set (it_visit (it_Rewind (engine_NewIterator bd e' txn p))) = set (it_visit (it_Rewind (engine_NewIterator bd e txn p)))"
      by (rule set_eqI) (simp add: healthy_badger.engine_scan_set [OF assms(1)] v split_paired_all)
  qed (rule healthy_badger.engine_scan_sorted [OF assms(1)])+
  then show ?thesis by (simp add: healthy_badger.engine_Get_view [OF assms(1,2)] v)
qed

theorem snapshot_isolation_witness:
  "\<exists>e' ts'. eng_run mem_badger (engine_New mem_badger example_db () 1, [set_txn 5 ''a/2'' ''n'']) [OCommit 0] = (e', ts')
     \<and> engine_Get mem_badger e' example_txn ''a/2'' = Inr ''y''"
proof -
  let ?e = "engine_New mem_badger example_db () 1"
  obtain e' ts' where r: "eng_run mem_badger (?e, [set_txn 5 ''a/2'' ''n'']) [OCommit 0] = (e', ts')"
    by (metis prod.exhaust)
  have e: "e_clock ?e = 5" by (simp add: engine_New_def example_db_def Let_def)
  have g: "engine_Get mem_badger ?e example_txn ''a/2'' = Inr ''y''"
    by (simp add: engine_Get_def example_txn_def engine_New_def store_Get_def mem_get_def mem_newest_def
        mem_versions_def example_db_def Let_def)
  have t: "\<not> t_done example_txn" "t_readUint example_txn \<le> e_clock ?e"
    unfolding e by (simp_all add: example_txn_def)
  have "unat (e_clock ?e) + length [OCommit 0] < 2 ^ 64" unfolding e by simp
  from snapshot_isolation [OF mem.healthy_badger_axioms t this r] r g show ?thesis by auto
qed

end
