(* ===== verification/Branch.thy ===== *)
theory Branch
  imports TxnProps
begin

text \<open>
  Branch lifecycle and merge: \<open>branch/branch.go\<close> and \<open>branch/merge.go\<close>. A manager
  operation takes the engine and returns it with the result; \<open>clk\<close> gives the successive
  wall-clock readings the operation makes. The deferred rollbacks only complete the
  transaction value, so they leave no trace in the engine.
\<close>

subsection \<open>Branch metadata\<close>

record Meta =
  mt_Parent :: string
  mt_CreatedAtHLC :: u64

definition encodeMeta :: "Meta \<Rightarrow> bytes" where
  "encodeMeta m = be 8 (unat (mt_CreatedAtHLC m)) @ mt_Parent m"

definition decodeMeta :: "bytes \<Rightarrow> Meta res" where
  "decodeMeta b =
     (if length b < 8 then Inl (ErrMsg ''branch: corrupt metadata'')
      else Inr \<lparr>mt_Parent = drop 8 b, mt_CreatedAtHLC = word_of_nat (unbe (take 8 b))\<rparr>)"

definition mgr_metaOf ::
  "('db, 'wb) badger \<Rightarrow> ('db, 'r) ReplicatedCommitter option \<Rightarrow> u64 \<Rightarrow> ('db, 'r) engine \<Rightarrow> auth_session \<Rightarrow> string
     \<Rightarrow> ('db, 'r) engine \<times> Meta res" where
  "mgr_metaOf bd rc wall e sess name =
     (let (e, tx) = Begin rc wall e sess
      in case engine_Get bd e tx (BranchMetaKey (as_Namespace sess) name) of
           Inl err \<Rightarrow> (e, Inl err)
         | Inr mb \<Rightarrow> (e, decodeMeta mb))"

subsection \<open>Lifecycle (branch.go)\<close>

definition mgr_Exists ::
  "('db, 'wb) badger \<Rightarrow> ('db, 'r) ReplicatedCommitter option \<Rightarrow> u64 \<Rightarrow> ('db, 'r) engine \<Rightarrow> auth_session \<Rightarrow> string
     \<Rightarrow> ('db, 'r) engine \<times> bool res" where
  "mgr_Exists bd rc wall e sess name =
     (if name = ''main'' then (e, Inr True)
      else
        let (e, tx) = Begin rc wall e sess;
            key = BranchMetaKey (as_Namespace sess) name
        in case engine_Get bd e tx key of
             Inl err \<Rightarrow> if err = ErrKeyNotFound then (e, Inr False) else (e, Inl err)
           | Inr _ \<Rightarrow> (e, Inr True))"

definition mgr_Create ::
  "('db, 'wb) badger \<Rightarrow> ('db, 'r) ReplicatedCommitter option \<Rightarrow> (nat \<Rightarrow> u64) \<Rightarrow> ('db, 'r) engine \<Rightarrow> auth_session
     \<Rightarrow> string \<Rightarrow> string \<Rightarrow> ('db, 'r) engine \<times> go_error option" where
  "mgr_Create bd rc clk e sess name from' =
     (if name = ''main'' then (e, Some ErrCannotModifyMain)
      else
        let from' = (if from' = [] then ''main'' else from') in
        case mgr_Exists bd rc (clk 0) e sess name of
          (e, Inl err) \<Rightarrow> (e, Some err)
        | (e, Inr exists) \<Rightarrow>
            if exists then (e, Some ErrBranchExists)
            else
              let (e, tx) = Begin rc (clk 1) e sess;
                  (h, ts) = hlc_Now (clk 2) (e_hlc e);
                  e = e\<lparr>e_hlc := h\<rparr>;
                  meta = \<lparr>mt_Parent = from', mt_CreatedAtHLC = Encode ts\<rparr>;
                  key = BranchMetaKey (as_Namespace sess) name;
                  tx = Buffer tx \<lparr>m_Key = key, m_Value = encodeMeta meta, m_Delete = False\<rparr>;
                  (e, _, err) = Commit bd rc e tx
              in (e, err))"

definition bytes_equal :: "bytes \<Rightarrow> bytes \<Rightarrow> bool" where
  "bytes_equal a b \<longleftrightarrow> length a = length b \<and> list_all2 (=) a b"

fun last_index_loop :: "bytes \<Rightarrow> bytes \<Rightarrow> nat \<Rightarrow> nat option" where
  "last_index_loop b sub i =
     (if bytes_equal (take (length sub) (drop i b)) sub then Some i
      else case i of 0 \<Rightarrow> None | Suc j \<Rightarrow> last_index_loop b sub j)"

declare last_index_loop.simps [simp del]

definition lastIndex :: "bytes \<Rightarrow> bytes \<Rightarrow> nat option" where
  "lastIndex b sub = (if length b < length sub then None else last_index_loop b sub (length b - length sub))"

definition branchSubtreePrefix :: "NamespaceID \<Rightarrow> string \<Rightarrow> bytes" where
  "branchSubtreePrefix ns name =
     (let full = RowPrefix ns name ''x''; marker = ''/data/''
      in case lastIndex full marker of Some idx \<Rightarrow> take (idx + 1) full | None \<Rightarrow> full)"

definition mgr_Drop ::
  "('db, 'wb) badger \<Rightarrow> ('db, 'r) ReplicatedCommitter option \<Rightarrow> (nat \<Rightarrow> u64) \<Rightarrow> ('db, 'r) engine \<Rightarrow> auth_session
     \<Rightarrow> string \<Rightarrow> ('db, 'r) engine \<times> go_error option" where
  "mgr_Drop bd rc clk e sess name =
     (if name = ''main'' then (e, Some ErrCannotModifyMain)
      else
        case mgr_Exists bd rc (clk 0) e sess name of
          (e, Inl err) \<Rightarrow> (e, Some err)
        | (e, Inr exists) \<Rightarrow>
            if \<not> exists then (e, Some ErrNoSuchBranch)
            else case bg_drop bd (e_db e) (branchSubtreePrefix (as_Namespace sess) name) of
              (db, Some err) \<Rightarrow> (e\<lparr>e_db := db\<rparr>, Some err)
            | (db, None) \<Rightarrow>
                let e = e\<lparr>e_db := db\<rparr>;
                    (e, tx) = Begin rc (clk 1) e sess;
                    tx = Buffer tx \<lparr>m_Key = BranchMetaKey (as_Namespace sess) name, m_Value = [], m_Delete = True\<rparr>;
                    (e, _, err) = Commit bd rc e tx
                in (e, err))"

subsection \<open>Merge (merge.go)\<close>

record MergeResult =
  mr_RowsMerged :: nat
  mr_RowsDeleted :: nat
  mr_Conflicts :: "(string \<times> string) list"

definition dataRoot :: "bytes \<Rightarrow> bytes" where
  "dataRoot p = (let marker = ''/data/'' in
     case lastIndex p marker of Some idx \<Rightarrow> take (idx + length marker) p | None \<Rightarrow> p)"

definition afterRoot :: "bytes \<Rightarrow> bytes \<Rightarrow> bytes option" where
  "afterRoot key root =
     (if length key < length root \<or> \<not> bytes_equal (take (length root) key) root then None
      else Some (drop (length root) key))"

text \<open>The loop over the branch's rows: the mutations for the parent and the counters.\<close>

fun merge_loop ::
  "('db, 'wb) badger \<Rightarrow> ('db, 'r) engine \<Rightarrow> Txn \<Rightarrow> bytes \<Rightarrow> bytes \<Rightarrow> (Key \<times> bytes res) list
     \<Rightarrow> Mutation list \<times> MergeResult \<Rightarrow> (Mutation list \<times> MergeResult) res" where
  "merge_loop bd e tx broot proot [] acc = Inr acc"
| "merge_loop bd e tx broot proot ((bkey, v) # its) (ops, r) =
     (case afterRoot bkey broot of
        None \<Rightarrow> merge_loop bd e tx broot proot its (ops, r)
      | Some tail \<Rightarrow>
          (case v of
             Inl err \<Rightarrow> Inl err
           | Inr val \<Rightarrow>
               let parentKey = proot @ tail;
                   parentHas = (case engine_Get bd e tx parentKey of Inr _ \<Rightarrow> True | Inl _ \<Rightarrow> False)
               in if IsTombstone val then
                    (if parentHas then
                       merge_loop bd e tx broot proot its
                         (ops @ [\<lparr>m_Key = parentKey, m_Value = [], m_Delete = True\<rparr>],
                          r\<lparr>mr_RowsDeleted := mr_RowsDeleted r + 1\<rparr>)
                     else merge_loop bd e tx broot proot its (ops, r))
                  else merge_loop bd e tx broot proot its
                         (ops @ [\<lparr>m_Key = parentKey, m_Value = val, m_Delete = False\<rparr>],
                          r\<lparr>mr_RowsMerged := mr_RowsMerged r + 1\<rparr>)))"

definition mgr_Merge ::
  "('db, 'wb) badger \<Rightarrow> ('db, 'r) ReplicatedCommitter option \<Rightarrow> (nat \<Rightarrow> u64) \<Rightarrow> ('db, 'r) engine \<Rightarrow> auth_session
     \<Rightarrow> string \<Rightarrow> ('db, 'r) engine \<times> MergeResult res" where
  "mgr_Merge bd rc clk e sess src =
     (if src = ''main'' then (e, Inl ErrCannotModifyMain)
      else
        case mgr_Exists bd rc (clk 0) e sess src of
          (e, Inl err) \<Rightarrow> (e, Inl err)
        | (e, Inr exists) \<Rightarrow>
            if \<not> exists then (e, Inl ErrNoSuchBranch)
            else
              let (e, tx) = Begin rc (clk 1) e sess
              in case mgr_metaOf bd rc (clk 2) e sess src of
                   (e, Inl err) \<Rightarrow> (e, Inl err)
                 | (e, Inr meta) \<Rightarrow>
                     let parent = (if mt_Parent meta = [] then ''main'' else mt_Parent meta);
                         proot = dataRoot (RowPrefix (as_Namespace sess) parent ''x'');
                         broot = dataRoot (RowPrefix (as_Namespace sess) src ''x'')
                     in case merge_loop bd e tx broot proot
                               (it_visit (it_Rewind (engine_NewIterator bd e tx broot)))
                               ([], \<lparr>mr_RowsMerged = 0, mr_RowsDeleted = 0, mr_Conflicts = []\<rparr>) of
                          Inl err \<Rightarrow> (e, Inl err)
                        | Inr (ops, r) \<Rightarrow>
                            if mr_Conflicts r \<noteq> [] then (e, Inl (ErrMsg ''merge conflict''))
                            else
                              let tx = foldl Buffer tx ops;
                                  (e, _, cerr) = Commit bd rc e tx
                              in (case cerr of Some err \<Rightarrow> (e, Inl err) | None \<Rightarrow> (e, Inr r)))"

subsection \<open>The roots\<close>

lemma bytes_equal_iff [simp]: "bytes_equal a b \<longleftrightarrow> a = b"
  by (auto simp: bytes_equal_def list.rel_eq)

lemma lastIndex_data_x: "lastIndex (r @ ''/data/x/'') ''/data/'' = Some (length r)"
proof -
  let ?b = "r @ ''/data/x/''"
  have l: "length ?b - length ''/data/'' = Suc (Suc (length r))" by simp
  have t: "take 6 (drop (Suc (Suc (length r))) ?b) = ''ata/x/''" "take 6 (drop (Suc (length r)) ?b) = ''data/x''"
    "take 6 (drop (length r) ?b) = ''/data/''" by simp_all
  show ?thesis unfolding lastIndex_def l using t by (simp add: last_index_loop.simps)
qed

abbreviation branch_root :: "NamespaceID \<Rightarrow> string \<Rightarrow> bytes" where
  "branch_root ns b \<equiv> nsRoot ns @ branchSegment b"

lemma branchSubtreePrefix_eq: "branchSubtreePrefix ns b = branch_root ns b @ ''/''"
proof -
  have "RowPrefix ns b ''x'' = branch_root ns b @ ''/data/x/''" by (simp add: RowPrefix_alt)
  then show ?thesis unfolding branchSubtreePrefix_def Let_def by (simp only: lastIndex_data_x) simp
qed

lemma dataRoot_eq: "dataRoot (RowPrefix ns b ''x'') = branch_root ns b @ ''/data/''"
proof -
  have "RowPrefix ns b ''x'' = branch_root ns b @ ''/data/x/''" by (simp add: RowPrefix_alt)
  then show ?thesis unfolding dataRoot_def Let_def by (simp only: lastIndex_data_x) simp
qed

lemma RowKey_dataRoot: "RowKey ns b t pk = (branch_root ns b @ ''/data/'') @ t @ CHR ''/'' # be 4 (length pk) @ pk"
  by (simp add: RowKey_alt)

lemma afterRoot_iff: "afterRoot k r = (if prefix r k then Some (drop (length r) k) else None)"
proof (cases "prefix r k")
  case True
  then show ?thesis by (auto simp: afterRoot_def prefix_def)
next
  case False
  then have "take (length r) k \<noteq> r" by (metis take_is_prefix)
  with False show ?thesis by (simp add: afterRoot_def)
qed

lemma decode_encodeMeta: "decodeMeta (encodeMeta m) = Inr m"
proof -
  have "unat (mt_CreatedAtHLC m) < 256 ^ 8" using unsigned_less [of "mt_CreatedAtHLC m"] by simp
  then show ?thesis by (simp add: decodeMeta_def encodeMeta_def)
qed

subsection \<open>Laws of the lifecycle\<close>

text \<open>On a single node \<open>Begin\<close> opens a snapshot at the oracle and ticks the clock.\<close>

definition fresh_txn :: "('db, 'r) engine \<Rightarrow> u64 \<Rightarrow> auth_session \<Rightarrow> Txn" where
  "fresh_txn e wall sess = snd (Begin None wall e sess)"

lemma Begin_single:
  "Begin None wall e sess = (e\<lparr>e_hlc := fst (hlc_Now wall (e_hlc e))\<rparr>, fresh_txn e wall sess)"
  "t_readUint (fresh_txn e wall sess) = e_clock e" "t_mutations (fresh_txn e wall sess) = []"
  "\<not> t_done (fresh_txn e wall sess)"
  by (simp_all add: fresh_txn_def Begin_def Let_def split_beta)

lemma fresh_view [simp]: "txn_view h (fresh_txn e wall sess) k = visible h (e_clock e) k"
  by (simp add: txn_view_def Begin_single last_mut_def)

context healthy_badger
begin

lemma Get_fresh:
  "engine_Get bd e' (fresh_txn e wall sess) k =
     (case visible (hist (e_db e')) (e_clock e) k of Some v \<Rightarrow> Inr v | None \<Rightarrow> Inl ErrKeyNotFound)"
  by (simp add: engine_Get_view Begin_single)

lemma Exists_eq:
  "\<exists>h. mgr_Exists bd None wall e sess name =
     (e\<lparr>e_hlc := h\<rparr>, Inr (name = ''main'' \<or> visible (hist (e_db e)) (e_clock e) (BranchMetaKey (as_Namespace sess) name) \<noteq> None))"
proof (cases "name = ''main''")
  case True
  then show ?thesis by (intro exI [of _ "e_hlc e"]) (simp add: mgr_Exists_def)
next
  case False
  then show ?thesis
    by (intro exI [of _ "fst (hlc_Now wall (e_hlc e))"])
       (simp add: mgr_Exists_def Begin_single Let_def Get_fresh split: option.split)
qed

lemma metaOf_eq:
  "\<exists>h. mgr_metaOf bd None wall e sess name =
     (e\<lparr>e_hlc := h\<rparr>, case visible (hist (e_db e)) (e_clock e) (BranchMetaKey (as_Namespace sess) name) of
        None \<Rightarrow> Inl ErrKeyNotFound | Some mb \<Rightarrow> decodeMeta mb)"
  by (intro exI [of _ "fst (hlc_Now wall (e_hlc e))"])
     (simp add: mgr_metaOf_def Begin_single Let_def Get_fresh split: option.split)

end

lemma BranchMetaKey_ne [simp]: "BranchMetaKey ns b \<noteq> []"
  by (simp add: BranchMetaKey_def appendStr_def)

text \<open>What the store holds for a key at the newest snapshot.\<close>

definition current :: "('db \<Rightarrow> history) \<Rightarrow> ('db, 'r) engine \<Rightarrow> Key \<Rightarrow> bytes option" where
  "current hist e k = visible (hist (e_db e)) (e_clock e) k"

lemma current_hlc [simp]: "current hist (e\<lparr>e_hlc := h\<rparr>) = current hist e"
  by (simp add: current_def fun_eq_iff)

lemma oracle_inv_hlc [simp]: "oracle_inv hist (e\<lparr>e_hlc := h\<rparr>) = oracle_inv hist e"
  by (simp add: oracle_inv_def)

lemma no_conflict_at_clock: "oracle_inv hist e \<Longrightarrow> \<not> newer_live (hist (e_db e)) hi (e_clock e) k"
  unfolding newer_live_def oracle_inv_def by (metis leD newest_SomeD option.distinct(1))

context healthy_badger
begin

text \<open>A transaction at the newest snapshot commits, and its writes are the new current state.\<close>

lemma commit_current:
  assumes "oracle_inv hist e" "e_clock e \<noteq> - 1" "\<not> t_done tx" "t_readUint tx = e_clock e"
    "t_mutations tx \<noteq> []" "\<forall>m \<in> set (t_mutations tx). m_Key m \<noteq> []"
  obtains e' where "Commit bd None e tx = (e', tx\<lparr>t_done := True\<rparr>, None)" "oracle_inv hist e'"
    "e_clock e' = e_clock e + 1"
    "\<And>k. current hist e' k = (case last_mut (t_mutations tx) k of Some m \<Rightarrow> mut_val m | None \<Rightarrow> current hist e k)"
proof -
  have "\<not> (\<exists>m \<in> set (t_mutations tx). newer_live (hist (e_db e)) (bg_maxver bd (e_db e)) (t_readUint tx) (m_Key m))"
    using no_conflict_at_clock [OF assms(1)] by (simp add: assms(4))
  then obtain e' where c: "Commit bd None e tx = (e', tx\<lparr>t_done := True\<rparr>, None)"
    using commit_decides [OF assms(3,5,6), of e] by auto
  note v = commit_visible [OF assms(1,2) c assms(5)]
  show ?thesis by (rule that [OF c v(1) v(2)]) (simp only: current_def v(4))
qed

lemma Create_new:
  assumes "oracle_inv hist e" "e_clock e \<noteq> - 1" "name \<noteq> ''main''"
    "current hist e (BranchMetaKey (as_Namespace sess) name) = None"
  obtains e' ts where "mgr_Create bd None clk e sess name from' = (e', None)" "oracle_inv hist e'"
    "e_clock e' = e_clock e + 1"
    "current hist e' = (current hist e)(BranchMetaKey (as_Namespace sess) name \<mapsto>
       encodeMeta \<lparr>mt_Parent = (if from' = [] then ''main'' else from'), mt_CreatedAtHLC = ts\<rparr>)"
proof -
  let ?key = "BranchMetaKey (as_Namespace sess) name"
  obtain h1 where ex: "mgr_Exists bd None (clk 0) e sess name = (e\<lparr>e_hlc := h1\<rparr>, Inr False)"
    using Exists_eq [of "clk 0" e sess name] assms(3,4) by (auto simp: current_def)
  define e1 where "e1 = e\<lparr>e_hlc := h1\<rparr>"
  define h2 where "h2 = fst (hlc_Now (clk 1) (e_hlc e1))"
  define ts where "ts = Encode (snd (hlc_Now (clk 2) h2))"
  define e2 where "e2 = e1\<lparr>e_hlc := fst (hlc_Now (clk 2) h2)\<rparr>"
  define tx where "tx = Buffer (fresh_txn e1 (clk 1) sess) \<lparr>m_Key = ?key,
      m_Value = encodeMeta \<lparr>mt_Parent = (if from' = [] then ''main'' else from'), mt_CreatedAtHLC = ts\<rparr>, m_Delete = False\<rparr>"
  have cr: "mgr_Create bd None clk e sess name from' = (let (e', _, err) = Commit bd None e2 tx in (e', err))"
    unfolding mgr_Create_def using assms(3)
    by (simp add: ex Begin_single Let_def split_beta tx_def e2_def ts_def h2_def e1_def)
  have tx: "\<not> t_done tx" "t_readUint tx = e_clock e2"
    by (simp_all add: tx_def Buffer_def Begin_single e1_def e2_def)
  have mu: "t_mutations tx = [\<lparr>m_Key = ?key,
      m_Value = encodeMeta \<lparr>mt_Parent = (if from' = [] then ''main'' else from'), mt_CreatedAtHLC = ts\<rparr>, m_Delete = False\<rparr>]"
    by (simp add: tx_def Buffer_def Begin_single)
  have inv: "oracle_inv hist e2" "e_clock e2 \<noteq> - 1" using assms(1,2) by (simp_all add: e2_def e1_def)
  obtain e' where c: "Commit bd None e2 tx = (e', tx\<lparr>t_done := True\<rparr>, None)" "oracle_inv hist e'"
    "e_clock e' = e_clock e2 + 1"
    "\<And>k. current hist e' k = (case last_mut (t_mutations tx) k of Some m \<Rightarrow> mut_val m | None \<Rightarrow> current hist e2 k)"
    using commit_current [OF inv tx] by (auto simp: mu)
  show ?thesis
  proof (rule that [of e' ts])
    show "current hist e' = (current hist e)(?key \<mapsto>
       encodeMeta \<lparr>mt_Parent = (if from' = [] then ''main'' else from'), mt_CreatedAtHLC = ts\<rparr>)"
      by (rule ext) (simp add: c(4) mu last_mut_def mut_val_def e2_def e1_def)
  qed (use c in \<open>simp_all add: cr e2_def e1_def\<close>)
qed

lemma Create_exists:
  assumes "name \<noteq> ''main''" "current hist e (BranchMetaKey (as_Namespace sess) name) \<noteq> None"
  shows "\<exists>h. mgr_Create bd None clk e sess name from' = (e\<lparr>e_hlc := h\<rparr>, Some ErrBranchExists)"
  using Exists_eq [of "clk 0" e sess name] assms by (auto simp: mgr_Create_def current_def)

end

subsection \<open>Keys of a branch\<close>

text \<open>The keys the encoder places on a branch.\<close>

inductive branch_key :: "NamespaceID \<Rightarrow> string \<Rightarrow> Key \<Rightarrow> bool" for ns b where
  bk_Row: "branch_key ns b (RowKey ns b t pk)"
| bk_Index: "branch_key ns b (IndexKey ns b t c v pk)"
| bk_FTS: "branch_key ns b (FTSKey ns b t f tm d)"
| bk_Vector: "branch_key ns b (VectorKey ns b t c i)"
| bk_OtelSpan: "branch_key ns b (OtelSpanKey ns b tr sp)"
| bk_OtelIndex: "branch_key ns b (OtelIndexKey ns b ix vs)"

lemma branch_key_root: "branch_key ns b k \<Longrightarrow> \<exists>r. k = nsRoot ns @ branchSegment b @ CHR ''/'' # r"
proof (induction rule: branch_key.induct)
  case (bk_OtelIndex ix vs)
  let ?p = "appendStr (appendStr (appendStr (nsRoot ns @ branchSegment b) ''idx'') ''otel_spans'') ix"
  have "prefix ?p (OtelIndexKey ns b ix vs)"
    unfolding OtelIndexKey_def Let_def by (rule prefix_foldl_appendBin)
  then obtain r where "OtelIndexKey ns b ix vs = ?p @ r" by (auto simp: prefix_def)
  then show ?case by (simp add: appendStr_def)
qed (simp_all add: RowKey_def IndexKey_def IndexColumnPrefix_def FTSKey_def VectorKey_def OtelSpanKey_def
    appendStr_def appendBin_def Let_def)

lemma branch_root_prefix_iff:
  assumes "seg_free (raw ns)" "seg_free (raw m)" "seg_free a" "seg_free b" "branch_key m b k"
  shows "prefix (branchSubtreePrefix ns a) k \<longleftrightarrow> ns = m \<and> canon_branch a = canon_branch b"
proof -
  obtain r where k: "k = nsRoot m @ branchSegment b @ CHR ''/'' # r" using branch_key_root [OF assms(5)] by auto
  show ?thesis using root_split_prefix [OF assms(1-4), of "[]" r]
    unfolding branchSubtreePrefix_eq k by simp
qed

lemma meta_not_branch_key:
  assumes "seg_free (raw ns)" "seg_free (raw m)" "branch_key m b k"
  shows "k \<noteq> BranchMetaKey ns name"
proof
  assume eq: "k = BranchMetaKey ns name"
  obtain r where k: "k = nsRoot m @ branchSegment b @ CHR ''/'' # r" using branch_key_root [OF assms(3)] by auto
  have "\<exists>s. branchSegment b = CHR ''/'' # s \<and> (s = ''main'' \<or> hasPrefix s ''br/'')"
    by (cases b rule: branchSegment_cases) (auto simp: hasPrefix_def)
  then obtain s where s: "branchSegment b = CHR ''/'' # s" "s = ''main'' \<or> hasPrefix s ''br/''" by blast
  have "nsRoot m @ CHR ''/'' # (s @ CHR ''/'' # r) = nsRoot ns @ CHR ''/'' # (''meta/branches/'' @ name)"
    using eq k s(1) by (simp add: BranchMetaKey_def appendStr_def)
  then have "prefix (nsRoot m @ CHR ''/'' # (s @ CHR ''/'' # r)) (nsRoot ns @ CHR ''/'' # (''meta/branches/'' @ name))"
    by simp
  then have "prefix (s @ CHR ''/'' # r) (''meta/branches/'' @ name)"
    using nsRoot_split_prefix [OF assms(2,1)] by blast
  with s(2) show False by (auto simp: hasPrefix_iff prefix_def)
qed

lemma subtree_not_meta:
  assumes "seg_free (raw ns)" "name \<noteq> ''main''" "name \<noteq> []"
  shows "\<not> prefix (branchSubtreePrefix ns name) (BranchMetaKey ns b)"
proof
  assume "prefix (branchSubtreePrefix ns name) (BranchMetaKey ns b)"
  then have "prefix (nsRoot ns @ CHR ''/'' # (''br/'' @ name @ ''/'')) (nsRoot ns @ CHR ''/'' # (''meta/branches/'' @ b))"
    using assms(2,3) by (simp add: branchSubtreePrefix_eq branchSegment_def BranchMetaKey_def appendStr_def)
  then have "prefix (''br/'' @ name @ ''/'') (''meta/branches/'' @ b)"
    using nsRoot_split_prefix [OF assms(1,1)] by blast
  then show False by simp
qed

context healthy_badger
begin

lemma Drop_existing:
  assumes "oracle_inv hist e" "e_clock e \<noteq> - 1" "name \<noteq> ''main''"
    "current hist e (BranchMetaKey (as_Namespace sess) name) \<noteq> None"
  obtains e' where "mgr_Drop bd None clk e sess name = (e', None)" "oracle_inv hist e'"
    "\<And>k. current hist e' k = (if prefix (branchSubtreePrefix (as_Namespace sess) name) k
             \<or> k = BranchMetaKey (as_Namespace sess) name then None else current hist e k)"
proof -
  let ?key = "BranchMetaKey (as_Namespace sess) name" and ?p = "branchSubtreePrefix (as_Namespace sess) name"
  obtain h1 where ex: "mgr_Exists bd None (clk 0) e sess name = (e\<lparr>e_hlc := h1\<rparr>, Inr True)"
    using Exists_eq [of "clk 0" e sess name] assms(3,4) by (auto simp: current_def)
  obtain db where d: "bg_drop bd (e_db e) ?p = (db, None)"
    using drop_healthy [of "e_db e" ?p] by (metis prod.collapse)
  define e1 where "e1 = e\<lparr>e_hlc := h1, e_db := db\<rparr>"
  define e2 where "e2 = e1\<lparr>e_hlc := fst (hlc_Now (clk 1) (e_hlc e1))\<rparr>"
  define tx where "tx = Buffer (fresh_txn e1 (clk 1) sess) \<lparr>m_Key = ?key, m_Value = [], m_Delete = True\<rparr>"
  have dr: "mgr_Drop bd None clk e sess name = (let (e', _, err) = Commit bd None e2 tx in (e', err))"
    unfolding mgr_Drop_def using assms(3)
    by (simp add: ex d Begin_single Let_def split_beta tx_def e2_def e1_def)
  have h: "hist (e_db e1) = drop_keys ?p (hist (e_db e))" using drop_ok [OF d] by (simp add: e1_def)
  have inv: "oracle_inv hist e2" "e_clock e2 \<noteq> - 1"
    using assms(1,2) h by (auto simp: e2_def e1_def oracle_inv_def drop_keys_def split: if_splits)
  have cur: "current hist e2 k = (if prefix ?p k then None else current hist e k)" for k
    by (simp add: current_def e2_def h visible_drop) (simp add: e1_def)
  have tx: "\<not> t_done tx" "t_readUint tx = e_clock e2"
    by (simp_all add: tx_def Buffer_def Begin_single e2_def)
  have mu: "t_mutations tx = [\<lparr>m_Key = ?key, m_Value = [], m_Delete = True\<rparr>]"
    by (simp add: tx_def Buffer_def Begin_single)
  obtain e' where c: "Commit bd None e2 tx = (e', tx\<lparr>t_done := True\<rparr>, None)" "oracle_inv hist e'"
    "\<And>k. current hist e' k = (case last_mut (t_mutations tx) k of Some m \<Rightarrow> mut_val m | None \<Rightarrow> current hist e2 k)"
    using commit_current [OF inv tx] by (auto simp: mu)
  show ?thesis
  proof (rule that [of e'])
    show "current hist e' k = (if prefix ?p k \<or> k = ?key then None else current hist e k)" for k
      by (simp add: c(3) mu last_mut_def mut_val_def cur)
  qed (use c in \<open>simp_all add: dr\<close>)
qed

end

subsection \<open>What a merge writes\<close>

text \<open>The mutation for one branch row, given what the parent holds under the same tail.\<close>

definition merge_mut :: "(Key \<Rightarrow> bytes option) \<Rightarrow> Key \<Rightarrow> bytes \<Rightarrow> Mutation list" where
  "merge_mut cur pk v =
     (if IsTombstone v then (if cur pk \<noteq> None then [\<lparr>m_Key = pk, m_Value = [], m_Delete = True\<rparr>] else [])
      else [\<lparr>m_Key = pk, m_Value = v, m_Delete = False\<rparr>])"

definition merge_muts :: "(Key \<Rightarrow> bytes option) \<Rightarrow> bytes \<Rightarrow> bytes \<Rightarrow> (Key \<times> bytes res) list \<Rightarrow> Mutation list" where
  "merge_muts cur broot proot its =
     concat (map (\<lambda>(k, x). merge_mut cur (proot @ drop (length broot) k) (projr x)) its)"

lemma last_mut_unique:
  assumes "\<And>m m'. m \<in> set ms \<Longrightarrow> m' \<in> set ms \<Longrightarrow> m_Key m = m_Key m' \<Longrightarrow> m = m'" and "m \<in> set ms"
  shows "last_mut ms (m_Key m) = Some m"
proof (cases "last_mut ms (m_Key m)")
  case None
  with assms(2) show ?thesis by (auto simp: last_mut_None)
next
  case (Some m')
  with last_mut_Some [OF Some] assms(1) [of m' m] assms(2) show ?thesis by simp
qed

text \<open>What the parent holds under a tail after the merge.\<close>

definition merged_value :: "(Key \<Rightarrow> bytes option) \<Rightarrow> bytes \<Rightarrow> bytes \<Rightarrow> bytes \<Rightarrow> bytes option" where
  "merged_value cur broot proot tail' =
     (case cur (broot @ tail') of
        None \<Rightarrow> cur (proot @ tail')
      | Some v \<Rightarrow> if IsTombstone v then None else Some v)"

lemma set_merge_muts:
  assumes "\<And>k x. (k, x) \<in> set its \<longleftrightarrow> prefix broot k \<and> (\<exists>v. x = Inr v \<and> cur k = Some v)"
  shows "m \<in> set (merge_muts cur broot proot its) \<longleftrightarrow>
    (\<exists>tail' v. cur (broot @ tail') = Some v \<and> m \<in> set (merge_mut cur (proot @ tail') v))"
proof
  assume "m \<in> set (merge_muts cur broot proot its)"
  then obtain k x where kx: "(k, x) \<in> set its" "m \<in> set (merge_mut cur (proot @ drop (length broot) k) (projr x))"
    by (auto simp: merge_muts_def)
  then obtain v tail' where "x = Inr v" "cur k = Some v" "k = broot @ tail'"
    using assms [of k x] by (auto simp: prefix_def)
  with kx(2) show "\<exists>tail' v. cur (broot @ tail') = Some v \<and> m \<in> set (merge_mut cur (proot @ tail') v)" by auto
next
  assume "\<exists>tail' v. cur (broot @ tail') = Some v \<and> m \<in> set (merge_mut cur (proot @ tail') v)"
  then obtain tail' v where v: "cur (broot @ tail') = Some v" "m \<in> set (merge_mut cur (proot @ tail') v)" by blast
  then have "(broot @ tail', Inr v) \<in> set its" using assms by simp
  with v(2) show "m \<in> set (merge_muts cur broot proot its)" unfolding merge_muts_def by force
qed

lemma merge_mut_key: "m \<in> set (merge_mut cur pk v) \<Longrightarrow> m_Key m = pk"
  by (auto simp: merge_mut_def split: if_splits)

lemma merge_mut_single: "m \<in> set (merge_mut cur pk v) \<Longrightarrow> m' \<in> set (merge_mut cur pk v) \<Longrightarrow> m = m'"
  by (auto simp: merge_mut_def split: if_splits)

lemma merge_muts_effect:
  assumes "\<And>k x. (k, x) \<in> set its \<longleftrightarrow> prefix broot k \<and> (\<exists>v. x = Inr v \<and> cur k = Some v)"
  shows "(case last_mut (merge_muts cur broot proot its) (proot @ tail') of
            Some m \<Rightarrow> mut_val m | None \<Rightarrow> cur (proot @ tail')) = merged_value cur broot proot tail'"
    and "\<not> prefix proot k \<Longrightarrow> last_mut (merge_muts cur broot proot its) k = None"
proof -
  let ?ms = "merge_muts cur broot proot its"
  have uniq: "m = m'" if m: "m \<in> set ?ms" "m' \<in> set ?ms" "m_Key m = m_Key m'" for m m'
  proof -
    obtain t v t' v' where "cur (broot @ t) = Some v" "m \<in> set (merge_mut cur (proot @ t) v)"
      "cur (broot @ t') = Some v'" "m' \<in> set (merge_mut cur (proot @ t') v')"
      using m(1,2) unfolding set_merge_muts [OF assms] by blast
    moreover from this have "t = t'" using merge_mut_key m(3) by (metis same_append_eq)
    ultimately show ?thesis using merge_mut_single by auto
  qed
  have none: "last_mut ?ms k = None" if "\<And>m. m \<in> set ?ms \<Longrightarrow> m_Key m \<noteq> k" for k
    using that by (auto simp: last_mut_None)
  show "\<not> prefix proot k \<Longrightarrow> last_mut ?ms k = None"
    by (rule none) (auto simp: set_merge_muts [OF assms] dest: merge_mut_key)
  show "(case last_mut ?ms (proot @ tail') of Some m \<Rightarrow> mut_val m | None \<Rightarrow> cur (proot @ tail')) = merged_value cur broot proot tail'"
  proof (cases "\<exists>v m. cur (broot @ tail') = Some v \<and> m \<in> set (merge_mut cur (proot @ tail') v)")
    case True
    then obtain v m where v: "cur (broot @ tail') = Some v" "m \<in> set (merge_mut cur (proot @ tail') v)" by blast
    then have "m \<in> set ?ms" unfolding set_merge_muts [OF assms] by blast
    then have lm: "last_mut ?ms (m_Key m) = Some m" by (rule last_mut_unique [rotated]) (rule uniq)
    have "mut_val m = merged_value cur broot proot tail'"
      using v by (auto simp: merged_value_def merge_mut_def mut_val_def split: if_splits)
    with lm show ?thesis by (simp add: merge_mut_key [OF v(2)])
  next
    case False
    have "last_mut ?ms (proot @ tail') = None"
    proof (rule none)
      fix m assume "m \<in> set ?ms"
      then show "m_Key m \<noteq> proot @ tail'"
        using False merge_mut_key unfolding set_merge_muts [OF assms] by fastforce
    qed
    with False show ?thesis
      by (auto simp: merged_value_def merge_mut_def split: option.split if_splits)
  qed
qed

context healthy_badger
begin

lemma merge_loop_eq:
  assumes "\<And>k x. (k, x) \<in> set its \<Longrightarrow> prefix broot k \<and> (\<exists>v. x = Inr v)"
    and "\<And>k. (\<exists>v. engine_Get bd e tx k = Inr v) \<longleftrightarrow> cur k \<noteq> None"
    and "mr_Conflicts r = []"
  shows "\<exists>r'. merge_loop bd e tx broot proot its (ops, r) = Inr (ops @ merge_muts cur broot proot its, r') \<and> mr_Conflicts r' = []"
  using assms(1,3)
proof (induction its arbitrary: ops r)
  case Nil
  then show ?case by (simp add: merge_muts_def)
next
  case (Cons p its)
  obtain k x where p: "p = (k, x)" by (cases p)
  with Cons.prems(1) [of k x] obtain v where v: "x = Inr v" "prefix broot k" by auto
  have has: "(case engine_Get bd e tx pk of Inr _ \<Rightarrow> True | Inl _ \<Rightarrow> False) \<longleftrightarrow> cur pk \<noteq> None" for pk
    using assms(2) [of pk] by (cases "engine_Get bd e tx pk") auto
  have m: "merge_muts cur broot proot ((k, Inr v) # its) = merge_mut cur (proot @ drop (length broot) k) v @ merge_muts cur broot proot its"
    by (simp add: merge_muts_def)
  have IH: "\<exists>r'. merge_loop bd e tx broot proot its (ops', r1) = Inr (ops' @ merge_muts cur broot proot its, r') \<and> mr_Conflicts r' = []"
    if "mr_Conflicts r1 = []" for ops' r1
    by (rule Cons.IH) (use Cons.prems(1) that in auto)
  show ?case
    using IH [of r ops] IH [of "r\<lparr>mr_RowsDeleted := mr_RowsDeleted r + 1\<rparr>" "ops @ [\<lparr>m_Key = proot @ drop (length broot) k, m_Value = [], m_Delete = True\<rparr>]"]
      IH [of "r\<lparr>mr_RowsMerged := mr_RowsMerged r + 1\<rparr>" "ops @ [\<lparr>m_Key = proot @ drop (length broot) k, m_Value = v, m_Delete = False\<rparr>]"]
      Cons.prems(2)
    by (simp add: p v(1) afterRoot_iff v(2) Let_def has m merge_mut_def [of cur])
qed

lemma foldl_Buffer: "foldl Buffer tx ms = tx\<lparr>t_mutations := t_mutations tx @ ms\<rparr>"
  by (induction ms arbitrary: tx) (auto simp: Buffer_def)

lemma Merge_existing:
  assumes "oracle_inv hist e" "e_clock e \<noteq> - 1" "src \<noteq> ''main''"
    and mb: "current hist e (BranchMetaKey (as_Namespace sess) src) = Some mb" and meta: "decodeMeta mb = Inr meta"
  obtains e' r where "mgr_Merge bd None clk e sess src = (e', Inr r)" "oracle_inv hist e'" "mr_Conflicts r = []"
    "\<And>tail'. current hist e' ((branch_root (as_Namespace sess) (if mt_Parent meta = [] then ''main'' else mt_Parent meta) @ ''/data/'') @ tail')
       = merged_value (current hist e) (branch_root (as_Namespace sess) src @ ''/data/'')
           (branch_root (as_Namespace sess) (if mt_Parent meta = [] then ''main'' else mt_Parent meta) @ ''/data/'') tail'"
    "\<And>k. \<not> prefix (branch_root (as_Namespace sess) (if mt_Parent meta = [] then ''main'' else mt_Parent meta) @ ''/data/'') k
       \<Longrightarrow> current hist e' k = current hist e k"
proof -
  let ?ns = "as_Namespace sess"
  define proot where "proot = branch_root ?ns (if mt_Parent meta = [] then ''main'' else mt_Parent meta) @ ''/data/''"
  define broot where "broot = branch_root ?ns src @ ''/data/''"
  obtain h1 where ex: "mgr_Exists bd None (clk 0) e sess src = (e\<lparr>e_hlc := h1\<rparr>, Inr True)"
    using Exists_eq [of "clk 0" e sess src] mb assms(3) by (auto simp: current_def)
  define e1 where "e1 = e\<lparr>e_hlc := h1\<rparr>"
  define tx where "tx = fresh_txn e1 (clk 1) sess"
  define e2 where "e2 = e1\<lparr>e_hlc := fst (hlc_Now (clk 1) (e_hlc e1))\<rparr>"
  obtain h3 where mo: "mgr_metaOf bd None (clk 2) e2 sess src = (e2\<lparr>e_hlc := h3\<rparr>, Inr meta)"
    using metaOf_eq [of "clk 2" e2 sess src] mb meta by (auto simp: current_def e2_def e1_def)
  define e3 where "e3 = e2\<lparr>e_hlc := h3\<rparr>"
  have same: "e_db e3 = e_db e" "e_clock e3 = e_clock e" by (simp_all add: e3_def e2_def e1_def)
  have view: "txn_view (hist (e_db e3)) tx = current hist e"
    by (rule ext) (simp add: tx_def current_def same e1_def)
  let ?its = "it_visit (it_Rewind (engine_NewIterator bd e3 tx broot))"
  have its: "(k, x) \<in> set ?its \<longleftrightarrow> prefix broot k \<and> (\<exists>v. x = Inr v \<and> current hist e k = Some v)" for k x
    by (simp add: engine_scan_set view)
  let ?ms = "merge_muts (current hist e) broot proot ?its"
  have get: "(\<exists>v. engine_Get bd e3 tx k = Inr v) \<longleftrightarrow> current hist e k \<noteq> None" for k
  proof -
    have "\<not> t_done tx" by (simp add: tx_def Begin_single)
    then show ?thesis by (simp add: engine_Get_view view split: option.split)
  qed
  have ent: "prefix broot k \<and> (\<exists>v. x = Inr v)" if "(k, x) \<in> set ?its" for k x using its [of k x] that by blast
  let ?r0 = "\<lparr>mr_RowsMerged = 0, mr_RowsDeleted = 0, mr_Conflicts = []\<rparr> :: MergeResult"
  have "\<exists>r'. merge_loop bd e3 tx broot proot ?its ([], ?r0) = Inr ([] @ ?ms, r') \<and> mr_Conflicts r' = []"
    by (rule merge_loop_eq [OF ent get MergeResult.select_convs(3)])
  then obtain r where loop: "merge_loop bd e3 tx broot proot ?its ([], ?r0) = Inr (?ms, r)"
    and nc: "mr_Conflicts r = []" by auto
  define tx' where "tx' = foldl Buffer tx ?ms"
  have mg: "mgr_Merge bd None clk e sess src = (let (e', _, cerr) = Commit bd None e3 tx' in case cerr of Some err \<Rightarrow> (e', Inl err) | None \<Rightarrow> (e', Inr r))"
  proof -
    have X: "mgr_Exists bd None (clk 0) e sess src = (e1, Inr True)" by (simp add: ex e1_def)
    have B: "Begin None (clk 1) e1 sess = (e2, tx)" by (simp add: Begin_single(1) e2_def tx_def)
    have M: "mgr_metaOf bd None (clk 2) e2 sess src = (e3, Inr meta)" by (simp add: mo e3_def)
    have P: "dataRoot (RowPrefix ?ns (if mt_Parent meta = [] then ''main'' else mt_Parent meta) ''x'') = proot"
      "dataRoot (RowPrefix ?ns src ''x'') = broot"
      by (simp_all only: dataRoot_eq proot_def broot_def)
    show ?thesis unfolding mgr_Merge_def tx'_def
      by (simp only: assms(3) X B M P loop nc Let_def prod.case sum.case if_False not_True_eq_False simp_thms)
  qed
  have tx': "\<not> t_done tx'" "t_readUint tx' = e_clock e3" "t_mutations tx' = ?ms"
    by (simp_all add: tx'_def foldl_Buffer tx_def Begin_single same e1_def)
  have inv: "oracle_inv hist e3" "e_clock e3 \<noteq> - 1" using assms(1,2) by (simp_all add: e3_def e2_def e1_def)
  have cur3: "current hist e3 = current hist e" by (simp add: e3_def e2_def e1_def)
  obtain e' where c: "Commit bd None e3 tx' = (e', tx'\<lparr>t_done := True\<rparr>, None)" "oracle_inv hist e'"
    "\<And>k. current hist e' k = (case last_mut ?ms k of Some m \<Rightarrow> mut_val m | None \<Rightarrow> current hist e k)"
  proof (cases "?ms = []")
    case True
    then have "Commit bd None e3 tx' = (e3, tx'\<lparr>t_done := True\<rparr>, None)" using tx' by (simp add: Commit_def)
    with that [of e3] inv(1) show ?thesis by (simp add: True last_mut_def cur3)
  next
    case False
    have "proot \<noteq> []" by (simp add: proot_def nsRoot_def)
    then have "m_Key m \<noteq> []" if "m \<in> set ?ms" for m
      using that unfolding set_merge_muts [OF its] by (auto dest!: merge_mut_key)
    then have ks: "\<forall>m \<in> set (t_mutations tx'). m_Key m \<noteq> []" by (simp only: tx'(3)) blast
    have ne: "t_mutations tx' \<noteq> []" using False by (simp add: tx'(3))
    obtain e' where c: "Commit bd None e3 tx' = (e', tx'\<lparr>t_done := True\<rparr>, None)" "oracle_inv hist e'"
      "\<And>k. current hist e' k = (case last_mut (t_mutations tx') k of Some m \<Rightarrow> mut_val m | None \<Rightarrow> current hist e3 k)"
      using commit_current [OF inv tx'(1,2) ne ks] by blast
    show ?thesis by (rule that [OF c(1,2)]) (simp only: c(3) tx'(3) cur3)
  qed
  have res: "mgr_Merge bd None clk e sess src = (e', Inr r)" by (simp add: mg c(1))
  show ?thesis
  proof (rule that [OF res c(2) nc], fold proot_def broot_def)
    show "current hist e' (proot @ tail') = merged_value (current hist e) broot proot tail'" for tail'
      unfolding c(3) by (rule merge_muts_effect(1) [OF its])
    show "current hist e' k = current hist e k" if "\<not> prefix proot k" for k
      by (simp add: c(3) merge_muts_effect(2) [OF its that])
  qed
qed

end

subsection \<open>Correctness of the lifecycle\<close>

text \<open>
  \<open>CREATE BRANCH\<close> is decided by the metadata key: \<open>main\<close> is refused, an existing
  branch is refused without a write, and otherwise the call succeeds, records the parent
  (\<open>main\<close> when none is given), makes the branch exist, and changes no other key.
\<close>

theorem create_branch_total:
  assumes "healthy_badger bd hist wops wts" and "oracle_inv hist e" and "e_clock e \<noteq> - 1"
  shows "if name = ''main'' then mgr_Create bd None clk e sess name from' = (e, Some ErrCannotModifyMain)
    else if current hist e (BranchMetaKey (as_Namespace sess) name) \<noteq> None then
      \<exists>h. mgr_Create bd None clk e sess name from' = (e\<lparr>e_hlc := h\<rparr>, Some ErrBranchExists)
    else \<exists>e' mb ts. mgr_Create bd None clk e sess name from' = (e', None) \<and> oracle_inv hist e'
      \<and> current hist e' = (current hist e)(BranchMetaKey (as_Namespace sess) name \<mapsto> mb)
      \<and> decodeMeta mb = Inr \<lparr>mt_Parent = (if from' = [] then ''main'' else from'), mt_CreatedAtHLC = ts\<rparr>
      \<and> snd (mgr_Exists bd None wall e' sess name) = Inr True"
proof -
  consider (main) "name = ''main''"
    | (old) "name \<noteq> ''main''" "current hist e (BranchMetaKey (as_Namespace sess) name) \<noteq> None"
    | (new) "name \<noteq> ''main''" "current hist e (BranchMetaKey (as_Namespace sess) name) = None" by blast
  then show ?thesis
  proof cases
    case main
    then show ?thesis by (simp add: mgr_Create_def)
  next
    case old
    then show ?thesis using healthy_badger.Create_exists [OF assms(1) old] by simp
  next
    case new
    obtain e' ts where c: "mgr_Create bd None clk e sess name from' = (e', None)" "oracle_inv hist e'"
      "current hist e' = (current hist e)(BranchMetaKey (as_Namespace sess) name \<mapsto>
         encodeMeta \<lparr>mt_Parent = (if from' = [] then ''main'' else from'), mt_CreatedAtHLC = ts\<rparr>)"
      using healthy_badger.Create_new [OF assms new, of clk from'] by blast
    have "visible (hist (e_db e')) (e_clock e') (BranchMetaKey (as_Namespace sess) name) \<noteq> None"
      using c(3) by (simp add: current_def fun_eq_iff)
    then have "snd (mgr_Exists bd None wall e' sess name) = Inr True"
      using healthy_badger.Exists_eq [OF assms(1), of wall e' sess name] by auto
    with c new show ?thesis by (auto simp: decode_encodeMeta)
  qed
qed

theorem create_branch_total_witness:
  "snd (mgr_Create mem_badger None (\<lambda>_. 7) (engine_New mem_badger [] () 1) example_session ''dev'' []) = None"
proof -
  let ?e = "engine_New mem_badger [] () 1"
  have cl: "e_clock ?e \<noteq> - 1" by (simp add: engine_New_def Let_def)
  have "current mem_hist ?e (BranchMetaKey (as_Namespace example_session) ''dev'') = None"
    by (simp add: current_def mem_visible mem_newest_def mem_versions_def engine_New_def Let_def)
  with create_branch_total [OF mem.healthy_badger_axioms mem.New_inv cl, of "''dev''" "\<lambda>_. 7" example_session "[]" 9]
  show ?thesis by auto
qed

text \<open>The effect of a drop on every key of a branch; the empty name is the key segment of \<open>main\<close>.\<close>

lemma drop_branch_keys:
  assumes "healthy_badger bd hist wops wts" and "oracle_inv hist e" and "e_clock e \<noteq> - 1"
    and "name \<noteq> ''main''" and "current hist e (BranchMetaKey (as_Namespace sess) name) \<noteq> None"
    and "namespaceRe (raw (as_Namespace sess))" and "namespaceRe (raw m)" and "seg_free name" and "seg_free b"
    and "branch_key m b k"
  shows "\<exists>e'. mgr_Drop bd None clk e sess name = (e', None)
      \<and> current hist e' k = (if m = as_Namespace sess \<and> canon_branch b = canon_branch name then None else current hist e k)
      \<and> snd (mgr_Exists bd None wall e' sess name) = Inr False"
proof -
  obtain e' where d: "mgr_Drop bd None clk e sess name = (e', None)"
    "\<And>k. current hist e' k = (if prefix (branchSubtreePrefix (as_Namespace sess) name) k
             \<or> k = BranchMetaKey (as_Namespace sess) name then None else current hist e k)"
    using healthy_badger.Drop_existing [OF assms(1-5), of clk] by blast
  have "prefix (branchSubtreePrefix (as_Namespace sess) name) k \<longleftrightarrow> as_Namespace sess = m \<and> canon_branch name = canon_branch b"
    by (rule branch_root_prefix_iff) (use assms(6-10) in \<open>simp_all add: namespaceRe_no_slash\<close>)
  moreover have "k \<noteq> BranchMetaKey (as_Namespace sess) name"
    by (rule meta_not_branch_key [OF _ _ assms(10)]) (use assms(6,7) in \<open>simp_all add: namespaceRe_no_slash\<close>)
  moreover have "visible (hist (e_db e')) (e_clock e') (BranchMetaKey (as_Namespace sess) name) = None"
    using d(2) [of "BranchMetaKey (as_Namespace sess) name"] by (simp add: current_def)
  then have "snd (mgr_Exists bd None wall e' sess name) = Inr False"
    using healthy_badger.Exists_eq [OF assms(1), of wall e' sess name] assms(4) by auto
  ultimately show ?thesis using d by auto
qed


abbreviation dev_meta_db :: mem_db where
  "dev_meta_db \<equiv> [((BranchMetaKey (NamespaceID ''acme'') ''dev'', 1), Some (encodeMeta \<lparr>mt_Parent = ''main'', mt_CreatedAtHLC = 0\<rparr>)),
     ((RowKey (NamespaceID ''acme'') ''dev'' ''t'' ''1'', 1), Some [RowTagLive]),
     ((RowKey (NamespaceID ''acme'') ''main'' ''t'' ''1'', 1), Some [RowTagLive, RowTagLive])]"

lemma dev_meta_current:
  "current mem_hist (engine_New mem_badger dev_meta_db () 1) (BranchMetaKey (NamespaceID ''acme'') ''dev'')
     = Some (encodeMeta \<lparr>mt_Parent = ''main'', mt_CreatedAtHLC = 0\<rparr>)"
  "e_clock (engine_New mem_badger dev_meta_db () 1) = 1"
  by (simp_all add: current_def mem_visible mem_newest_def mem_versions_def engine_New_def Let_def
      BranchMetaKey_def RowKey_alt appendStr_def branchSegment_def nsRoot_def)


text \<open>
  The guard against dropping \<open>main\<close> compares the name with \<open>''main''\<close> only, while
  the key encoder writes the empty name as \<open>main\<close>: a branch with the empty name can be
  created, and dropping it erases every key of \<open>main\<close>.
\<close>

theorem drop_empty_name_erases_main:
  assumes "healthy_badger bd hist wops wts" and "oracle_inv hist e" and "e_clock e \<noteq> - 1" and "e_clock e + 1 \<noteq> - 1"
    and "current hist e (BranchMetaKey (as_Namespace sess) []) = None"
    and "namespaceRe (raw (as_Namespace sess))" and "branch_key (as_Namespace sess) ''main'' k"
  shows "\<exists>e' e''. mgr_Create bd None clk e sess [] from' = (e', None)
     \<and> mgr_Drop bd None clk' e' sess [] = (e'', None) \<and> current hist e'' k = None"
proof -
  obtain e' ts where c: "mgr_Create bd None clk e sess [] from' = (e', None)" "oracle_inv hist e'" "e_clock e' = e_clock e + 1"
    "current hist e' = (current hist e)(BranchMetaKey (as_Namespace sess) [] \<mapsto>
       encodeMeta \<lparr>mt_Parent = (if from' = [] then ''main'' else from'), mt_CreatedAtHLC = ts\<rparr>)"
    by (rule healthy_badger.Create_new [OF assms(1-3) _ assms(5), of clk from']) simp
  have "\<exists>e''. mgr_Drop bd None clk' e' sess [] = (e'', None) \<and> current hist e'' k = None"
    using drop_branch_keys [OF assms(1) c(2) _ _ _ assms(6) assms(6) _ _ assms(7), of "[]" clk' 0] c(3,4) assms(4)
    by (auto simp: canon_branch_def)
  with c(1) show ?thesis by blast
qed

text \<open>
  \<open>DROP BRANCH\<close> of \<open>a\<close> also erases the rows of every branch named \<open>a/b\<close>:
  the subtree prefix of a branch selects the rows of a branch whose name extends it with a
  separator, although that branch is not dropped.
\<close>

theorem drop_branch_erases_nested_names:
  assumes "healthy_badger bd hist wops wts" and "oracle_inv hist e" and "e_clock e \<noteq> - 1"
    and "name \<noteq> ''main''" and "name \<noteq> []" and "current hist e (BranchMetaKey (as_Namespace sess) name) \<noteq> None"
  shows "\<exists>e'. mgr_Drop bd None clk e sess name = (e', None)
      \<and> current hist e' (RowKey (as_Namespace sess) (name @ CHR ''/'' # b) t pk) = None"
proof -
  obtain e' where d: "mgr_Drop bd None clk e sess name = (e', None)"
    "\<And>k. current hist e' k = (if prefix (branchSubtreePrefix (as_Namespace sess) name) k
             \<or> k = BranchMetaKey (as_Namespace sess) name then None else current hist e k)"
    using healthy_badger.Drop_existing [OF assms(1-4,6), of clk] by blast
  have "name @ CHR ''/'' # b \<noteq> ''main''"
  proof
    assume "name @ CHR ''/'' # b = ''main''"
    then have "CHR ''/'' \<in> set ''main''" by (metis in_set_conv_decomp)
    then show False by simp
  qed
  then have "prefix (branchSubtreePrefix (as_Namespace sess) name) (RowKey (as_Namespace sess) (name @ CHR ''/'' # b) t pk)"
    using assms(4,5) by (simp add: branchSubtreePrefix_eq RowKey_alt branchSegment_def)
  with d show ?thesis by auto
qed

theorem drop_branch_erases_nested_names_witness:
  "\<exists>e'. mgr_Drop mem_badger None (\<lambda>_. 7) (engine_New mem_badger dev_meta_db () 1) example_session ''dev'' = (e', None)
     \<and> current mem_hist e' (RowKey (NamespaceID ''acme'') ''dev/login'' ''t'' ''1'') = None"
proof -
  let ?e = "engine_New mem_badger dev_meta_db () 1"
  have ns: "as_Namespace example_session = NamespaceID ''acme''" by (simp add: example_session_def)
  have cur: "current mem_hist ?e (BranchMetaKey (as_Namespace example_session) ''dev'') \<noteq> None"
    unfolding ns dev_meta_current by simp
  have cl: "e_clock ?e \<noteq> - 1" unfolding dev_meta_current by simp
  show ?thesis
    using drop_branch_erases_nested_names [OF mem.healthy_badger_axioms mem.New_inv cl _ _ cur, of "\<lambda>_. 7" "''login''" "''t''" "''1''"]
    by (simp add: ns)
qed

subsection \<open>Correctness of merge\<close>

text \<open>
  C17. \<open>MERGE BRANCH\<close> of an existing branch succeeds and makes the parent's rows what the
  branch shows: a row the branch holds replaces the parent's row of the same table and key, whatever
  that was; a branch tombstone removes it; a row the branch does not hold is left alone. No other
  key changes, and no conflict is ever reported.
\<close>

theorem merge_branch_effect:
  assumes "healthy_badger bd hist wops wts" and "oracle_inv hist e" and "e_clock e \<noteq> - 1" and "src \<noteq> ''main''"
    and "current hist e (BranchMetaKey (as_Namespace sess) src) = Some mb" and "decodeMeta mb = Inr meta"
    and "parent = (if mt_Parent meta = [] then ''main'' else mt_Parent meta)"
  shows "\<exists>e' r. mgr_Merge bd None clk e sess src = (e', Inr r) \<and> mr_Conflicts r = [] \<and> oracle_inv hist e'
    \<and> (\<forall>t pk. current hist e' (RowKey (as_Namespace sess) parent t pk) =
          (case current hist e (RowKey (as_Namespace sess) src t pk) of
             None \<Rightarrow> current hist e (RowKey (as_Namespace sess) parent t pk)
           | Some v \<Rightarrow> if IsTombstone v then None else Some v))
    \<and> (\<forall>k. \<not> prefix (nsRoot (as_Namespace sess) @ branchSegment parent @ ''/data/'') k
          \<longrightarrow> current hist e' k = current hist e k)"
proof -
  obtain e' r where m: "mgr_Merge bd None clk e sess src = (e', Inr r)" "oracle_inv hist e'" "mr_Conflicts r = []"
    "\<And>tail'. current hist e' ((branch_root (as_Namespace sess) parent @ ''/data/'') @ tail')
       = merged_value (current hist e) (branch_root (as_Namespace sess) src @ ''/data/'')
           (branch_root (as_Namespace sess) parent @ ''/data/'') tail'"
    "\<And>k. \<not> prefix (branch_root (as_Namespace sess) parent @ ''/data/'') k \<Longrightarrow> current hist e' k = current hist e k"
    using healthy_badger.Merge_existing [OF assms(1-6), of clk] unfolding assms(7) [symmetric] by blast
  have "current hist e' (RowKey (as_Namespace sess) parent t pk) =
          (case current hist e (RowKey (as_Namespace sess) src t pk) of
             None \<Rightarrow> current hist e (RowKey (as_Namespace sess) parent t pk)
           | Some v \<Rightarrow> if IsTombstone v then None else Some v)" for t pk
    unfolding RowKey_dataRoot m(4) merged_value_def ..
  with m(1-3,5) show ?thesis by auto
qed

theorem merge_branch_effect_witness:
  "\<exists>e' r. mgr_Merge mem_badger None (\<lambda>_. 7) (engine_New mem_badger dev_meta_db () 1) example_session ''dev'' = (e', Inr r)
     \<and> current mem_hist e' (RowKey (NamespaceID ''acme'') ''main'' ''t'' ''1'') = Some [RowTagLive]"
proof -
  let ?e = "engine_New mem_badger dev_meta_db () 1"
  have ns: "as_Namespace example_session = NamespaceID ''acme''" by (simp add: example_session_def)
  have cur: "current mem_hist ?e (BranchMetaKey (as_Namespace example_session) ''dev'')
      = Some (encodeMeta \<lparr>mt_Parent = ''main'', mt_CreatedAtHLC = 0\<rparr>)" unfolding ns dev_meta_current by simp
  have cl: "e_clock ?e \<noteq> - 1" unfolding dev_meta_current by simp
  have row: "current mem_hist ?e (RowKey (NamespaceID ''acme'') ''dev'' ''t'' ''1'') = Some [RowTagLive]"
    by (simp add: current_def mem_visible mem_newest_def mem_versions_def engine_New_def Let_def
        BranchMetaKey_def RowKey_alt appendStr_def branchSegment_def nsRoot_def)
  show ?thesis
    using merge_branch_effect [OF mem.healthy_badger_axioms mem.New_inv cl _ cur decode_encodeMeta, of "''main''" "\<lambda>_. 7"] row
    by (auto simp: ns tombstone_not_live)
qed

end
