(* ===== verification/Consensus.thy ===== *)
theory Consensus
  imports TxnProps
begin

text \<open>
  Replication: the proposal codec (\<open>consensus/codec.go\<close>), the replicated state machine
  (\<open>consensus/statemachine.go\<close>) and the proposing side of a node
  (\<open>consensus/node.go\<close>). The Raft library is a parameter: what it applies locally before a
  proposal returns, and the log index it gives the proposal.
\<close>

subsection \<open>The proposal codec\<close>

definition noConflictReadTS :: u64 where
  "noConflictReadTS = - 1"

definition marshal_mut :: "Mutation \<Rightarrow> bytes" where
  "marshal_mut m =
     (if m_Delete m then [CHR 0x01] else [CHR 0x00])
     @ be 4 (length (m_Key m)) @ m_Key m
     @ be 4 (length (m_Value m)) @ m_Value m"

definition marshalProposal :: "u64 \<Rightarrow> Mutation list \<Rightarrow> bytes" where
  "marshalProposal readTS muts =
     foldl (\<lambda>out m. out @ marshal_mut m) (be 8 (unat readTS) @ be 4 (length muts)) muts"

definition marshalBatch :: "Mutation list \<Rightarrow> bytes" where
  "marshalBatch muts = marshalProposal noConflictReadTS muts"

text \<open>
  The decoding loop, on the bytes from the read position on. The guards of the source compare the
  position plus the lengths with the length of the buffer. An \<open>appliedMutation\<close> has the fields
  of a mutation.
\<close>

primrec unmarshal_muts :: "nat \<Rightarrow> bytes \<Rightarrow> Mutation list res" where
  "unmarshal_muts 0 b = Inr []"
| "unmarshal_muts (Suc n) b =
     (if length b < 1 + 4 then Inl (ErrMsg ''consensus: truncated mutation header'')
      else
        let del = (hd b = CHR 0x01);
            b = tl b;
            klen = unbe (take 4 b);
            b = drop 4 b
        in if length b < klen + 4 then Inl (ErrMsg ''consensus: truncated key'')
           else
             let key = take klen b;
                 b = drop klen b;
                 vlen = unbe (take 4 b);
                 b = drop 4 b
             in if length b < vlen then Inl (ErrMsg ''consensus: truncated value'')
                else case unmarshal_muts n (drop vlen b) of
                       Inl e \<Rightarrow> Inl e
                     | Inr ms \<Rightarrow> Inr (\<lparr>m_Key = key, m_Value = take vlen b, m_Delete = del\<rparr> # ms))"

definition unmarshalProposal :: "bytes \<Rightarrow> (u64 \<times> Mutation list) res" where
  "unmarshalProposal b =
     (if length b < 12 then Inl (ErrMsg ''consensus: short proposal'')
      else
        let readTS = word_of_nat (unbe (take 8 b));
            n = unbe (take 4 (drop 8 b))
        in case unmarshal_muts n (drop 12 b) of
             Inl e \<Rightarrow> Inl e
           | Inr ms \<Rightarrow> Inr (readTS, ms))"

subsection \<open>The state machine\<close>

text \<open>An entry of the log: its index and its command.\<close>

type_synonym raft_entry = "u64 \<times> bytes"

record 'db stateMachine =
  sm_db :: 'db
  sm_lastApplied :: u64

definition resultAborted :: u64 where
  "resultAborted = 0"

definition sm_Update :: "('db, 'wb) badger \<Rightarrow> 'db stateMachine \<Rightarrow> raft_entry \<Rightarrow> 'db stateMachine \<times> u64 res" where
  "sm_Update bd s e =
     (case unmarshalProposal (snd e) of
        Inl err \<Rightarrow> (s, Inl err)
      | Inr (readTS, muts) \<Rightarrow>
          (case conflict_check bd (sm_db s) readTS muts of
             Inl err \<Rightarrow> (s, Inl err)
           | Inr True \<Rightarrow> (s\<lparr>sm_lastApplied := fst e\<rparr>, Inr resultAborted)
           | Inr False \<Rightarrow>
               (case batch_mutations bd (bg_batch bd (fst e)) muts of
                  Inl err \<Rightarrow> (s, Inl err)
                | Inr wb \<Rightarrow>
                    (case bg_flush bd (sm_db s) wb of
                       (db, Some err) \<Rightarrow> (s\<lparr>sm_db := db\<rparr>, Inl err)
                     | (db, None) \<Rightarrow> (s\<lparr>sm_db := db, sm_lastApplied := fst e\<rparr>, Inr (fst e))))))"

definition SaveSnapshot :: "('s \<Rightarrow> bytes \<Rightarrow> 's \<times> go_error option) \<Rightarrow> 'db stateMachine \<Rightarrow> 's \<Rightarrow> 's \<times> go_error option" where
  "SaveSnapshot wr s w = wr w (be 8 (unat (sm_lastApplied s)))"

definition RecoverFromSnapshot :: "bytes \<Rightarrow> 'db stateMachine \<Rightarrow> 'db stateMachine \<times> go_error option" where
  "RecoverFromSnapshot src s =
     (case readFull 8 src of
        Inl e \<Rightarrow> (s, Some e)
      | Inr (b, _) \<Rightarrow> (s\<lparr>sm_lastApplied := word_of_nat (unbe b)\<rparr>, None))"

text \<open>A replica applies the committed entries in log order.\<close>

definition sm_run :: "('db, 'wb) badger \<Rightarrow> 'db stateMachine \<Rightarrow> raft_entry list \<Rightarrow> 'db stateMachine" where
  "sm_run bd s es = foldl (\<lambda>s e. fst (sm_Update bd s e)) s es"

subsection \<open>The node\<close>

text \<open>
  \<open>SyncPropose\<close> returns after the proposal is applied on this replica: the entries of other
  proposers that this replica applies first, then either the index of the proposal or an error.
  The environment \<open>'e\<close> is the state of the library.
\<close>

datatype raft_reply = Applied u64 | Failed go_error

type_synonym 'e raft = "'e \<Rightarrow> u64 \<Rightarrow> bytes \<Rightarrow> 'e \<times> raft_entry list \<times> raft_reply"

text \<open>The shard's state machine, if it is started, keeps its last applied index here; its store is the engine's.\<close>

record 'e node =
  nd_lastApplied :: "u64 option"
  nd_raft :: 'e

definition node_machine :: "'db \<Rightarrow> 'e node \<Rightarrow> 'db stateMachine" where
  "node_machine db n = \<lparr>sm_db = db, sm_lastApplied = (case nd_lastApplied n of None \<Rightarrow> 0 | Some i \<Rightarrow> i)\<rparr>"

definition SyncPropose :: "('db, 'wb) badger \<Rightarrow> 'e raft \<Rightarrow> 'db \<times> 'e node \<Rightarrow> u64 \<Rightarrow> bytes \<Rightarrow> ('db \<times> 'e node) \<times> u64 res" where
  "SyncPropose bd rf dn shardID cmd =
     (let (db, n) = dn;
          (env, before, reply) = rf (nd_raft n) shardID cmd;
          s = sm_run bd (node_machine db n) before;
          (s, res) = (case reply of Failed err \<Rightarrow> (s, Inl err) | Applied i \<Rightarrow> sm_Update bd s (i, cmd))
      in ((sm_db s, n\<lparr>nd_lastApplied := Some (sm_lastApplied s), nd_raft := env\<rparr>), res))"

definition node_ReadTimestamp :: "'db \<times> 'e node \<Rightarrow> u64 \<Rightarrow> u64" where
  "node_ReadTimestamp dn shardID = (case nd_lastApplied (snd dn) of None \<Rightarrow> 0 | Some i \<Rightarrow> i)"

definition node_Propose :: "('db, 'wb) badger \<Rightarrow> 'e raft \<Rightarrow> 'db \<times> 'e node \<Rightarrow> u64 \<Rightarrow> Mutation list \<Rightarrow> ('db \<times> 'e node) \<times> go_error option" where
  "node_Propose bd rf dn shardID batch =
     (if batch = [] then (dn, None)
      else case SyncPropose bd rf dn shardID (marshalBatch batch) of
             (dn, Inl err) \<Rightarrow> (dn, Some err)
           | (dn, Inr _) \<Rightarrow> (dn, None))"

definition node_ProposeTxn ::
  "('db, 'wb) badger \<Rightarrow> 'e raft \<Rightarrow> 'db \<times> 'e node \<Rightarrow> u64 \<Rightarrow> u64 \<Rightarrow> Mutation list \<Rightarrow> ('db \<times> 'e node) \<times> (bool \<times> u64) res" where
  "node_ProposeTxn bd rf dn shardID readTS batch =
     (if batch = [] then (dn, Inr (True, node_ReadTimestamp dn shardID))
      else case SyncPropose bd rf dn shardID (marshalProposal readTS batch) of
             (dn, Inl err) \<Rightarrow> (dn, Inl err)
           | (dn, Inr v) \<Rightarrow> if v = resultAborted then (dn, Inr (False, 0)) else (dn, Inr (True, v)))"

definition node_committer :: "('db, 'wb) badger \<Rightarrow> 'e raft \<Rightarrow> ('db, 'e node) ReplicatedCommitter" where
  "node_committer bd rf = \<lparr>rc_ProposeTxn = node_ProposeTxn bd rf, rc_ReadTimestamp = node_ReadTimestamp\<rparr>"

subsection \<open>Codec round trip\<close>

definition wire_ok :: "Mutation list \<Rightarrow> bool" where
  "wire_ok ms \<longleftrightarrow> length ms < chunk_max \<and> (\<forall>m \<in> set ms. length (m_Key m) < chunk_max \<and> length (m_Value m) < chunk_max)"

lemma foldl_marshal: "foldl (\<lambda>out m. out @ marshal_mut m) b ms = b @ concat (map marshal_mut ms)"
  by (induction ms arbitrary: b) auto

lemma unmarshal_muts_cons:
  assumes "length (m_Key m) < chunk_max" "length (m_Value m) < chunk_max"
  shows "unmarshal_muts (Suc n) (marshal_mut m @ rest) =
    (case unmarshal_muts n rest of Inl e \<Rightarrow> Inl e | Inr ms \<Rightarrow> Inr (m # ms))"
proof -
  let ?d = "if m_Delete m then CHR 0x01 else CHR 0x00"
  have d: "(?d = CHR 0x01) = m_Delete m" by simp
  have mm: "marshal_mut m @ rest = ?d # be 4 (length (m_Key m)) @ m_Key m @ be 4 (length (m_Value m)) @ m_Value m @ rest"
    by (simp add: marshal_mut_def)
  have "m\<lparr>m_Key := m_Key m, m_Value := m_Value m, m_Delete := m_Delete m\<rparr> = m" by simp
  then have r: "\<lparr>m_Key = m_Key m, m_Value = m_Value m, m_Delete = m_Delete m\<rparr> = m" by (cases m) simp
  show ?thesis unfolding mm using assms
    by (simp add: Let_def d r split: sum.split)
qed

lemma unmarshal_muts_marshal:
  "\<forall>m \<in> set ms. length (m_Key m) < chunk_max \<and> length (m_Value m) < chunk_max \<Longrightarrow>
   unmarshal_muts (length ms) (concat (map marshal_mut ms) @ rest) = Inr ms"
proof (induction ms)
  case (Cons m ms)
  then show ?case using unmarshal_muts_cons [of m "length ms" "concat (map marshal_mut ms) @ rest"]
    by (simp del: unmarshal_muts.simps)
qed simp

lemma unmarshal_marshal:
  assumes "wire_ok ms"
  shows "unmarshalProposal (marshalProposal r ms) = Inr (r, ms)"
proof -
  have "unat r < 256 ^ 8" using unsigned_less [of r] by simp
  then show ?thesis using assms unmarshal_muts_marshal [of ms "[]"]
    by (simp add: unmarshalProposal_def marshalProposal_def foldl_marshal wire_ok_def Let_def)
qed

text \<open>Decoding reads only what it consumes, and consumes what the mutations need.\<close>

lemma unmarshal_muts_extend: "unmarshal_muts n b = Inr ms \<Longrightarrow> unmarshal_muts n (b @ x) = Inr ms"
proof (induction n arbitrary: b ms)
  case (Suc n)
  obtain c b1 where b: "b = c # b1" "4 \<le> length b1" using Suc.prems by (cases b) (auto split: if_splits)
  show ?case using Suc.prems b Suc.IH by (auto simp: Let_def split: if_splits sum.splits)
qed simp

definition mut_size :: "Mutation \<Rightarrow> nat" where
  "mut_size m = 9 + length (m_Key m) + length (m_Value m)"

lemma length_marshal_mut [simp]: "length (marshal_mut m) = mut_size m"
  by (simp add: marshal_mut_def mut_size_def)

lemma unmarshal_muts_size: "unmarshal_muts n b = Inr ms \<Longrightarrow> sum_list (map mut_size ms) \<le> length b"
proof (induction n arbitrary: b ms)
  case (Suc n)
  obtain c b1 where b: "b = c # b1" "4 \<le> length b1" using Suc.prems by (cases b) (auto split: if_splits)
  let ?k = "unbe (take 4 b1)"
  let ?b2 = "drop (4 + ?k) b1"
  let ?v = "unbe (take 4 ?b2)"
  obtain ms' where ms': "unmarshal_muts n (drop ?v (drop 4 ?b2)) = Inr ms'"
    and ms: "ms = \<lparr>m_Key = take ?k (drop 4 b1), m_Value = take ?v (drop 4 ?b2), m_Delete = (c = CHR 0x01)\<rparr> # ms'"
    and le: "?k + 8 \<le> length b1" "?v \<le> length b1 - (8 + ?k)"
    using Suc.prems b by (auto simp: Let_def add.commute split: if_splits sum.splits)
  have "sum_list (map mut_size ms') \<le> length b1 - (8 + ?k) - ?v" using Suc.IH [OF ms'] by simp
  moreover have "mut_size (hd ms) = 9 + ?k + ?v" using le by (simp add: ms mut_size_def)
  ultimately show ?case using le by (simp add: ms b)
qed simp

lemma length_marshalProposal: "length (marshalProposal r ms) = 12 + sum_list (map mut_size ms)"
  by (simp add: marshalProposal_def foldl_marshal length_concat comp_def)

lemma unmarshalProposal_extend: "unmarshalProposal b = Inr p \<Longrightarrow> unmarshalProposal (b @ x) = Inr p"
  by (auto simp: unmarshalProposal_def Let_def split: if_splits sum.splits dest: unmarshal_muts_extend [where x = x])

lemma unmarshalProposal_size: "unmarshalProposal b = Inr (r, ms) \<Longrightarrow> 12 + sum_list (map mut_size ms) \<le> length b"
  by (auto simp: unmarshalProposal_def Let_def split: if_splits sum.splits dest!: unmarshal_muts_size)

text \<open>
  C21. A proposal survives the log unchanged: decoding an encoded proposal gives back the read
  snapshot and the mutations, and every strict prefix of the encoding is rejected with an error.
  The fields are 32-bit lengths.
\<close>

theorem proposal_codec_exact:
  assumes "wire_ok ms"
  shows "unmarshalProposal (marshalProposal r ms) = Inr (r, ms)
       \<and> (\<forall>b. strict_prefix b (marshalProposal r ms) \<longrightarrow> (\<exists>err. unmarshalProposal b = Inl err))"
proof (intro conjI allI impI)
  show full: "unmarshalProposal (marshalProposal r ms) = Inr (r, ms)" by (rule unmarshal_marshal [OF assms])
  fix b assume pre: "strict_prefix b (marshalProposal r ms)"
  then obtain x where x: "marshalProposal r ms = b @ x" "length b < length (marshalProposal r ms)"
    by (auto simp: strict_prefix_def prefix_def)
  show "\<exists>err. unmarshalProposal b = Inl err"
  proof (cases "unmarshalProposal b")
    case (Inr p)
    with unmarshalProposal_extend [OF Inr, of x] full x(1) have "p = (r, ms)" by simp
    with unmarshalProposal_size [of b r ms] Inr x(2) show ?thesis by (simp add: length_marshalProposal)
  qed simp
qed

theorem proposal_codec_exact_witness:
  "unmarshalProposal (marshalProposal 7 [\<lparr>m_Key = ''k'', m_Value = ''v'', m_Delete = False\<rparr>])
     = Inr (7, [\<lparr>m_Key = ''k'', m_Value = ''v'', m_Delete = False\<rparr>])"
  using proposal_codec_exact [of "[\<lparr>m_Key = ''k'', m_Value = ''v'', m_Delete = False\<rparr>]" 7]
  by (simp add: wire_ok_def)

subsection \<open>The abstract state machine\<close>

text \<open>
  What a replica promises: a function of the version history alone. A proposal is applied at its
  index unless one of its keys holds a live value newer than the proposer's snapshot.
\<close>

definition spec_update :: "history \<times> u64 \<Rightarrow> raft_entry \<Rightarrow> (history \<times> u64) \<times> u64 res" where
  "spec_update s e =
     (case unmarshalProposal (snd e) of
        Inl err \<Rightarrow> (s, Inl err)
      | Inr (r, ms) \<Rightarrow>
          if \<exists>m \<in> set ms. newer_live (fst s) (- 1) r (m_Key m)
          then ((fst s, fst e), Inr resultAborted)
          else ((write_at (fst e) (map mut_op ms) (fst s), fst e), Inr (fst e)))"

definition spec_run :: "history \<times> u64 \<Rightarrow> raft_entry list \<Rightarrow> history \<times> u64" where
  "spec_run s es = foldl (\<lambda>s e. fst (spec_update s e)) s es"

definition sm_abs :: "('db \<Rightarrow> history) \<Rightarrow> 'db stateMachine \<Rightarrow> history \<times> u64" where
  "sm_abs hist s = (hist (sm_db s), sm_lastApplied s)"

definition entry_ok :: "raft_entry \<Rightarrow> bool" where
  "entry_ok e \<longleftrightarrow> (\<forall>r ms. unmarshalProposal (snd e) = Inr (r, ms) \<longrightarrow> (\<forall>m \<in> set ms. m_Key m \<noteq> []))"

lemma u64_max [simp]: "x \<le> (- 1 :: u64)"
  by (rule word_order.extremum)

context healthy_badger
begin

lemma newer_live_max: "newer_live (hist db) (bg_maxver bd db) r k = newer_live (hist db) (- 1) r k"
  using newest_stable [of "hist db k" "bg_maxver bd db" "- 1"] maxver_bound [of db k]
  by (simp add: newer_live_def)

lemma sm_Update_refines:
  assumes "entry_ok e"
  shows "sm_abs hist (fst (sm_Update bd s e)) = fst (spec_update (sm_abs hist s) e)
    \<and> snd (sm_Update bd s e) = snd (spec_update (sm_abs hist s) e)"
proof (cases "unmarshalProposal (snd e)")
  case (Inl err)
  then show ?thesis by (simp add: sm_Update_def spec_update_def)
next
  case (Inr p)
  obtain r ms where p: "p = (r, ms)" by (cases p)
  have ne: "\<forall>m \<in> set ms. m_Key m \<noteq> []" using assms Inr p by (simp add: entry_ok_def)
  obtain wb where wb: "batch_mutations bd (bg_batch bd (fst e)) ms = Inr wb" using batch_mutations_ok [OF ne] by blast
  obtain db where fl: "bg_flush bd (sm_db s) wb = (db, None)"
    using flush_healthy [of "sm_db s" wb] by (metis prod.collapse)
  have h: "hist db = write_at (fst e) (map mut_op ms) (hist (sm_db s))"
    using flush_ok [OF fl] batch_mutations_Inr [OF wb] by simp
  show ?thesis
    by (simp add: sm_Update_def spec_update_def Inr p conflict_check_eq newer_live_max wb fl sm_abs_def h)
qed

lemma sm_run_refines:
  "\<forall>e \<in> set es. entry_ok e \<Longrightarrow> sm_abs hist (sm_run bd s es) = spec_run (sm_abs hist s) es"
proof (induction es arbitrary: s)
  case (Cons e es)
  then show ?case using sm_Update_refines [of e s] by (simp add: sm_run_def spec_run_def)
qed (simp add: sm_run_def spec_run_def)

end

text \<open>
  C20. Replicas converge: two replicas, on two stores of any implementation, that start with the
  same version history and apply the same log end with the same version history and the same applied
  index, and each reports for the next entry the result the abstract state machine defines.
\<close>

theorem replicas_converge:
  assumes "healthy_badger bd1 hist1 wops1 wts1" and "healthy_badger bd2 hist2 wops2 wts2"
    and "hist1 (sm_db s1) = hist2 (sm_db s2)" and "sm_lastApplied s1 = sm_lastApplied s2"
    and "\<forall>e \<in> set es. entry_ok e" and "entry_ok e"
  shows "sm_abs hist1 (sm_run bd1 s1 es) = spec_run (sm_abs hist1 s1) es
       \<and> sm_abs hist1 (sm_run bd1 s1 es) = sm_abs hist2 (sm_run bd2 s2 es)
       \<and> snd (sm_Update bd1 (sm_run bd1 s1 es) e) = snd (sm_Update bd2 (sm_run bd2 s2 es) e)"
proof -
  have "sm_abs hist1 s1 = sm_abs hist2 s2" using assms(3,4) by (simp add: sm_abs_def)
  then show ?thesis
    using healthy_badger.sm_run_refines [OF assms(1,5), of s1] healthy_badger.sm_run_refines [OF assms(2,5), of s2]
      healthy_badger.sm_Update_refines [OF assms(1,6)] healthy_badger.sm_Update_refines [OF assms(2,6)] by metis
qed

abbreviation set_mut :: "Key \<Rightarrow> bytes \<Rightarrow> Mutation" where
  "set_mut k v \<equiv> \<lparr>m_Key = k, m_Value = v, m_Delete = False\<rparr>"

abbreviation del_mut :: "Key \<Rightarrow> Mutation" where
  "del_mut k \<equiv> \<lparr>m_Key = k, m_Value = [], m_Delete = True\<rparr>"

lemma entry_ok_marshal: "wire_ok ms \<Longrightarrow> \<forall>m \<in> set ms. m_Key m \<noteq> [] \<Longrightarrow> entry_ok (i, marshalProposal r ms)"
  by (simp add: entry_ok_def unmarshal_marshal)

theorem replicas_converge_witness:
  "sm_abs mem_hist (sm_run mem_badger \<lparr>sm_db = [((''k'', 1), Some ''a'')], sm_lastApplied = 1\<rparr> [(2, marshalProposal 1 [set_mut ''k'' ''b''])])
     = sm_abs mem_hist (sm_run mem_badger \<lparr>sm_db = [((''k'', 1), Some ''a''), ((''k'', 1), Some ''old'')], sm_lastApplied = 1\<rparr>
         [(2, marshalProposal 1 [set_mut ''k'' ''b''])])"
proof -
  have ok: "entry_ok (i, marshalProposal 1 [set_mut ''k'' ''b''])" for i
    by (rule entry_ok_marshal) (simp_all add: wire_ok_def)
  let ?s1 = "\<lparr>sm_db = [((''k'', 1), Some ''a'')], sm_lastApplied = 1\<rparr>"
  let ?s2 = "\<lparr>sm_db = [((''k'', 1), Some ''a''), ((''k'', 1), Some ''old'')], sm_lastApplied = 1\<rparr>"
  have h: "mem_hist (sm_db ?s1) = mem_hist (sm_db ?s2)" by (simp add: mem_hist_def fun_eq_iff)
  have la: "sm_lastApplied ?s1 = sm_lastApplied ?s2" by simp
  have es: "\<forall>e \<in> set [(2, marshalProposal 1 [set_mut ''k'' ''b''])]. entry_ok e" using ok by simp
  show ?thesis
    by (rule replicas_converge [OF mem.healthy_badger_axioms mem.healthy_badger_axioms h la es ok [of 3],
          THEN conjunct2, THEN conjunct1])
qed

subsection \<open>Replaying the log\<close>

text \<open>After a restart the log is applied again to a store that already holds its effects.\<close>

definition no_delete :: "raft_entry \<Rightarrow> bool" where
  "no_delete e \<longleftrightarrow> (\<forall>r ms. unmarshalProposal (snd e) = Inr (r, ms) \<longrightarrow> (\<forall>m \<in> set ms. \<not> m_Delete m))"

lemma spec_run_Cons: "spec_run s (e # es) = spec_run (fst (spec_update s e)) es"
  by (simp add: spec_run_def)

text \<open>One entry writes at its own index only, and without deletes it writes values only.\<close>

lemma spec_update_frame: "u \<noteq> fst e \<Longrightarrow> fst (fst (spec_update s e)) k u = fst s k u"
  by (auto simp: spec_update_def write_at_def split: sum.splits prod.splits option.splits)

lemma spec_update_live:
  assumes nd: "no_delete e" and H: "fst (fst (spec_update s e)) k u = Some None"
  shows "fst s k u = Some None"
proof (cases "unmarshalProposal (snd e)")
  case (Inl err)
  with H show ?thesis by (simp add: spec_update_def)
next
  case (Inr p)
  obtain r ms where p: "p = (r, ms)" by (cases p)
  have "mut_val m \<noteq> None" if "last_mut ms k = Some m" for m
    using nd Inr p last_mut_Some [OF that] by (auto simp: no_delete_def mut_val_def)
  with H Inr p show ?thesis
    by (cases "last_mut ms k") (auto simp: spec_update_def write_at_def map_of_mut_ops split: if_splits)
qed

lemma spec_run_frame: "u \<notin> fst ` set es \<Longrightarrow> fst (spec_run s es) k u = fst s k u"
proof (induction es arbitrary: s)
  case (Cons e es)
  then show ?case using spec_update_frame [of u e s k] by (simp add: spec_run_Cons)
qed (simp add: spec_run_def)

lemma spec_run_live:
  "\<forall>e \<in> set es. no_delete e \<Longrightarrow> fst (spec_run s es) k u = Some None \<Longrightarrow> fst s k u = Some None"
proof (induction es arbitrary: s)
  case (Cons e es)
  then show ?case using spec_update_live [of e s k u] by (simp add: spec_run_Cons)
qed (simp add: spec_run_def)

text \<open>
  An entry whose effect is already in a later history changes nothing when it is applied to that
  history: either it writes what is there, or it is refused again.
\<close>

lemma spec_update_again:
  assumes later: "\<And>k u. u \<le> fst e \<Longrightarrow> H k u = fst (fst (spec_update s e)) k u"
    and old: "\<And>k u. fst s k u \<noteq> None \<Longrightarrow> u < fst e"
    and live: "\<And>k u. H k u = Some None \<Longrightarrow> fst s k u = Some None"
  shows "fst (fst (spec_update (H, la) e)) = H"
proof (cases "unmarshalProposal (snd e)")
  case (Inl err)
  then show ?thesis by (simp add: spec_update_def)
next
  case (Inr p)
  obtain r ms where p: "p = (r, ms)" by (cases p)
  show ?thesis
  proof (cases "\<exists>m \<in> set ms. newer_live (fst s) (- 1) r (m_Key m)")
    case True
    then obtain m t v where m: "m \<in> set ms" and t: "newest (fst s (m_Key m)) (- 1) = Some (t, Some v)" "r < t"
      by (auto simp: newer_live_def)
    let ?k = "m_Key m"
    have same: "H ?k u = fst s ?k u" if "u \<le> fst e" for u
      using later [OF that, of ?k] True by (simp add: spec_update_def Inr p)
    have st: "fst s ?k t = Some (Some v)" using newest_SomeD [OF t(1)] by simp
    with old [of ?k t] same [of t] have Ht: "H ?k t = Some (Some v)" by simp
    obtain t' ov where n: "newest (H ?k) (- 1) = Some (t', ov)"
      using Ht newest_None_iff [of "H ?k" "- 1"] by (cases "newest (H ?k) (- 1)") auto
    have "t \<le> t'" using newest_SomeD [OF n] Ht by simp
    moreover have "ov \<noteq> None"
    proof
      assume "ov = None"
      then have "H ?k t' = Some None" using newest_SomeD [OF n] by simp
      then have "fst s ?k t' = Some None" by (rule live)
      then have "t' \<le> t" using newest_SomeD [OF t(1)] by simp
      with \<open>t \<le> t'\<close> \<open>fst s ?k t' = Some None\<close> st show False by simp
    qed
    ultimately have "newer_live H (- 1) r ?k" using n t(2) by (auto simp: newer_live_def)
    with m show ?thesis by (auto simp: spec_update_def Inr p)
  next
    case False
    have "write_at (fst e) (map mut_op ms) H = H"
    proof (rule ext, rule ext)
      fix k u
      show "write_at (fst e) (map mut_op ms) H k u = H k u"
        using later [of "fst e" k] False
        by (auto simp: write_at_def spec_update_def Inr p split: option.split)
    qed
    then show ?thesis by (auto simp: spec_update_def Inr p)
  qed
qed

lemma spec_run_replay:
  assumes "\<forall>e \<in> set es. no_delete e" and "sorted_wrt (<) (map fst es)"
    and "\<And>k u e. fst s k u \<noteq> None \<Longrightarrow> e \<in> set es \<Longrightarrow> u < fst e"
    and "H = fst (spec_run s es)" and "e \<in> set es"
  shows "fst (fst (spec_update (H, la) e)) = H"
  using assms
proof (induction es arbitrary: s)
  case (Cons a es)
  let ?s1 = "fst (spec_update s a)"
  have gt: "\<And>b. b \<in> set es \<Longrightarrow> fst a < fst b" using Cons.prems(2) by simp
  have old1: "u < fst b" if "fst ?s1 k u \<noteq> None" "b \<in> set es" for k u b
  proof (cases "u = fst a")
    case False
    then show ?thesis using that Cons.prems(3) [of k u b] spec_update_frame [of u a s k] by simp
  qed (use gt that in simp)
  have H: "H = fst (spec_run ?s1 es)" using Cons.prems(4) by (simp add: spec_run_Cons)
  show ?case
  proof (cases "e \<in> set es")
    case True
    then show ?thesis
      by (intro Cons.IH [of ?s1]) (use Cons.prems(1,2) old1 H in auto)
  next
    case False
    then have e: "e = a" using Cons.prems(5) by simp
    show ?thesis unfolding e
    proof (rule spec_update_again [of _ _ s])
      show "H k u = fst ?s1 k u" if "u \<le> fst a" for k u
        unfolding H using that gt by (intro spec_run_frame) (auto dest: leD)
      show "u < fst a" if "fst s k u \<noteq> None" for k u using Cons.prems(3) [OF that] by simp
      show "fst s k u = Some None" if "H k u = Some None" for k u
        using spec_run_live [of "a # es" s k u] Cons.prems(1,4) that by simp
    qed
  qed
qed simp

lemma spec_run_fixed:
  assumes "\<And>e la. e \<in> set es \<Longrightarrow> fst (fst (spec_update (H, la) e)) = H"
  shows "fst (spec_run (H, la) es) = H"
  using assms
proof (induction es arbitrary: la)
  case (Cons e es)
  obtain la' where eq: "fst (spec_update (H, la) e) = (H, la')"
    using Cons.prems [of e la] by (metis list.set_intros(1) prod.collapse)
  show ?case using Cons by (simp add: spec_run_Cons eq)
qed (simp add: spec_run_def)

text \<open>
  Replay is idempotent for a log without deletes: a replica that applies the whole log again
  to the store it left behind ends with the same version history, as long as the log's indices
  increase and are newer than what the store held before the log.
\<close>

theorem replay_idempotent_without_deletes:
  assumes "healthy_badger bd hist wops wts" and "\<forall>e \<in> set es. entry_ok e \<and> no_delete e"
    and "sorted_wrt (<) (map fst es)"
    and "\<And>k u e. hist (sm_db s) k u \<noteq> None \<Longrightarrow> e \<in> set es \<Longrightarrow> u < fst e"
  shows "hist (sm_db (sm_run bd (sm_run bd s es) es)) = hist (sm_db (sm_run bd s es))"
proof -
  let ?H = "fst (spec_run (sm_abs hist s) es)"
  have ok: "\<forall>e \<in> set es. entry_ok e" "\<forall>e \<in> set es. no_delete e" using assms(2) by auto
  have r: "sm_abs hist (sm_run bd t es) = spec_run (sm_abs hist t) es" for t
    by (rule healthy_badger.sm_run_refines [OF assms(1) ok(1)])
  have "fst (fst (spec_update (?H, la) e)) = ?H" if "e \<in> set es" for e la
    by (rule spec_run_replay [OF ok(2) assms(3) _ refl that]) (use assms(4) in \<open>simp add: sm_abs_def\<close>)
  then have "fst (spec_run (?H, la) es) = ?H" for la by (rule spec_run_fixed)
  then have "fst (spec_run (spec_run (sm_abs hist s) es) es) = ?H" by (metis prod.collapse)
  then show ?thesis using r [of s] r [of "sm_run bd s es"] by (metis fst_conv sm_abs_def)
qed

theorem replay_idempotent_without_deletes_witness:
  "mem_hist (sm_db (sm_run mem_badger (sm_run mem_badger \<lparr>sm_db = [], sm_lastApplied = 0\<rparr>
       [(1, marshalProposal 0 [set_mut ''k'' ''a'']), (2, marshalProposal 0 [set_mut ''k'' ''b''])])
       [(1, marshalProposal 0 [set_mut ''k'' ''a'']), (2, marshalProposal 0 [set_mut ''k'' ''b''])]))
   = mem_hist (sm_db (sm_run mem_badger \<lparr>sm_db = [], sm_lastApplied = 0\<rparr>
       [(1, marshalProposal 0 [set_mut ''k'' ''a'']), (2, marshalProposal 0 [set_mut ''k'' ''b''])]))"
proof (rule replay_idempotent_without_deletes [OF mem.healthy_badger_axioms])
  have "entry_ok (i, marshalProposal 0 [set_mut ''k'' v]) \<and> no_delete (i, marshalProposal 0 [set_mut ''k'' v])"
    if "length v = 1" for i v
    using that by (auto simp: entry_ok_def no_delete_def unmarshal_marshal wire_ok_def)
  then show "\<forall>e \<in> set [(1, marshalProposal 0 [set_mut ''k'' ''a'']), (2, marshalProposal 0 [set_mut ''k'' ''b''])].
      entry_ok e \<and> no_delete e" by simp
qed (simp_all add: mem_hist_def)

text \<open>A log in which a refused proposal is followed by a delete of the key it lost on.\<close>

definition delete_log :: "Key \<Rightarrow> bytes \<Rightarrow> bytes \<Rightarrow> Key \<Rightarrow> bytes \<Rightarrow> raft_entry list" where
  "delete_log k a b x c =
     [(1, marshalProposal 0 [set_mut k a]), (2, marshalProposal 0 [set_mut k b, set_mut x c]),
      (3, marshalProposal 2 [del_mut k])]"

lemma delete_log_mem:
  assumes "wire_ok [set_mut k a, set_mut k b, set_mut x c]" and "k \<noteq> x"
  shows "sm_run mem_badger \<lparr>sm_db = [], sm_lastApplied = la\<rparr> (delete_log k a b x c) =
      \<lparr>sm_db = [((k, 3), None), ((k, 1), Some a)], sm_lastApplied = 3\<rparr>"
    and "sm_run mem_badger \<lparr>sm_db = [((k, 3), None), ((k, 1), Some a)], sm_lastApplied = 3\<rparr> (delete_log k a b x c) =
      \<lparr>sm_db = [((k, 3), None), ((x, 2), Some c), ((k, 2), Some b), ((k, 1), Some a), ((k, 3), None), ((k, 1), Some a)],
       sm_lastApplied = 3\<rparr>"
proof -
  have u: "unmarshalProposal (marshalProposal 0 [set_mut k a]) = Inr (0, [set_mut k a])"
    "unmarshalProposal (marshalProposal 0 [set_mut k b, set_mut x c]) = Inr (0, [set_mut k b, set_mut x c])"
    "unmarshalProposal (marshalProposal 2 [del_mut k]) = Inr (2, [del_mut k])"
    using assms(1) by (auto simp: wire_ok_def intro!: unmarshal_marshal)
  note ev = sm_run_def sm_Update_def delete_log_def u LatestVersion_def mem_get_def mem_newest_def mem_versions_def resultAborted_def
  show "sm_run mem_badger \<lparr>sm_db = [], sm_lastApplied = la\<rparr> (delete_log k a b x c) =
      \<lparr>sm_db = [((k, 3), None), ((k, 1), Some a)], sm_lastApplied = 3\<rparr>"
    using assms(2) by (simp add: ev)
  show "sm_run mem_badger \<lparr>sm_db = [((k, 3), None), ((k, 1), Some a)], sm_lastApplied = 3\<rparr> (delete_log k a b x c) =
      \<lparr>sm_db = [((k, 3), None), ((x, 2), Some c), ((k, 2), Some b), ((k, 1), Some a), ((k, 3), None), ((k, 1), Some a)],
       sm_lastApplied = 3\<rparr>"
    using assms(2) by (simp add: ev)
qed

text \<open>
  With deletes, replay is not idempotent: in such a log the second proposal is refused when
  the log is first applied, and is applied when the log is replayed after the delete, since the key it
  lost on then counts as never written. A restarted replica holds its write, the others do not.
\<close>

theorem replay_applies_refused_proposal:
  assumes "healthy_badger bd hist wops wts" and "\<And>k u. hist (sm_db s) k u = None"
    and "wire_ok [set_mut k a, set_mut k b, set_mut x c]" and "k \<noteq> x" and "k \<noteq> []" and "x \<noteq> []"
  shows "visible (hist (sm_db (sm_run bd s (delete_log k a b x c)))) 3 x = None
       \<and> visible (hist (sm_db (sm_run bd (sm_run bd s (delete_log k a b x c)) (delete_log k a b x c)))) 3 x = Some c"
proof -
  let ?L = "delete_log k a b x c" and ?m = "\<lparr>sm_db = [] :: mem_db, sm_lastApplied = sm_lastApplied s\<rparr>"
  have ok: "\<forall>e \<in> set ?L. entry_ok e"
    using assms(3,5,6) by (auto simp: delete_log_def wire_ok_def intro!: entry_ok_marshal)
  have "hist (sm_db s) = mem_hist (sm_db ?m)" using assms(2) by (simp add: mem_hist_def fun_eq_iff)
  then have 0: "sm_abs hist s = sm_abs mem_hist ?m" by (simp add: sm_abs_def)
  have 1: "sm_abs hist (sm_run bd s ?L) = sm_abs mem_hist (sm_run mem_badger ?m ?L)"
    using healthy_badger.sm_run_refines [OF assms(1) ok, of s] mem.sm_run_refines [OF ok, of ?m] 0 by simp
  have 2: "sm_abs hist (sm_run bd (sm_run bd s ?L) ?L) = sm_abs mem_hist (sm_run mem_badger (sm_run mem_badger ?m ?L) ?L)"
    using healthy_badger.sm_run_refines [OF assms(1) ok, of "sm_run bd s ?L"]
      mem.sm_run_refines [OF ok, of "sm_run mem_badger ?m ?L"] 1 by simp
  show ?thesis
    using 1 2 assms(4) by (simp add: sm_abs_def delete_log_mem [OF assms(3,4)])
      (simp add: mem_visible mem_newest_def mem_versions_def)
qed

theorem replay_applies_refused_proposal_witness:
  "visible (mem_hist (sm_db (sm_run mem_badger (sm_run mem_badger \<lparr>sm_db = [], sm_lastApplied = 0\<rparr>
      (delete_log ''k'' ''a'' ''b'' ''x'' ''c'')) (delete_log ''k'' ''a'' ''b'' ''x'' ''c'')))) 3 ''x'' = Some ''c''"
  using replay_applies_refused_proposal [OF mem.healthy_badger_axioms, of "\<lparr>sm_db = [], sm_lastApplied = 0\<rparr>" "''k''" "''a''" "''b''" "''x''" "''c''"]
  by (simp add: mem_hist_def wire_ok_def)

subsection \<open>Commit through the cluster\<close>

lemma spec_run_bounded:
  assumes "\<forall>e \<in> set es. fst e < i" and "\<And>k u. fst s k u \<noteq> None \<Longrightarrow> u < i"
    and "fst (spec_run s es) k u \<noteq> None"
  shows "u < i"
proof (cases "u \<in> fst ` set es")
  case True then show ?thesis using assms(1) by auto
next
  case False then show ?thesis using assms(2,3) spec_run_frame [of u es s k] by metis
qed



end
