(* ===== verification/Crypto.thy ===== *)
theory Crypto
  imports GoLib
begin

text \<open>
  The hash functions of Go's standard library that the authentication code calls, after FIPS 180-4
  and RFC 2104: \<open>sha256.Sum256\<close> and \<open>hmac.New(sha256.New, key)\<close>.
\<close>

subsection \<open>SHA-256\<close>

text \<open>
  The constants are, by the standard, the first 32 bits of the fractional parts of roots of primes: cube
  roots of the first 64 for the rounds, square roots of the first eight for the initial value. They are
  computed here as integer roots of the primes scaled by a power of two.
\<close>

definition iroot :: "nat \<Rightarrow> nat \<Rightarrow> nat" where
  "iroot k n = foldl (\<lambda>x b. if (x + 2 ^ b) ^ k \<le> n then x + 2 ^ b else x) 0 (rev [0..<36])"

definition root_fraction :: "nat \<Rightarrow> nat \<Rightarrow> u32" where
  "root_fraction k p = of_nat (iroot k (p * 2 ^ (32 * k)))"

definition sha_K :: "u32 list" where
  "sha_K = map (root_fraction 3) (filter (\<lambda>p. list_all (\<lambda>d. p mod d \<noteq> 0) [2..<p]) [2..<312])"

definition sha_H0 :: "u32 list" where
  "sha_H0 = map (root_fraction 2) [2, 3, 5, 7, 11, 13, 17, 19]"

definition ror :: "nat \<Rightarrow> u32 \<Rightarrow> u32" where
  "ror n x = drop_bit n x OR push_bit (32 - n) x"

definition sha_schedule :: "u32 list \<Rightarrow> u32 list" where
  "sha_schedule ws =
     foldl (\<lambda>ws t.
        let a = ws ! (t - 15); b = ws ! (t - 2)
        in ws @ [(ror 17 b XOR ror 19 b XOR drop_bit 10 b) + ws ! (t - 7)
                 + (ror 7 a XOR ror 18 a XOR drop_bit 3 a) + ws ! (t - 16)]) ws [16..<64]"

definition sha_round :: "u32 list \<Rightarrow> u32 \<times> u32 \<Rightarrow> u32 list" where
  "sha_round st kw =
     (case st of [a, b, c, d, e, f, g, h] \<Rightarrow>
        (let t1 = h + (ror 6 e XOR ror 11 e XOR ror 25 e) + ((e AND f) XOR (NOT e AND g)) + fst kw + snd kw;
             t2 = (ror 2 a XOR ror 13 a XOR ror 22 a) + ((a AND b) XOR (a AND c) XOR (b AND c))
         in [t1 + t2, a, b, c, d + t1, e, f, g])
      | _ \<Rightarrow> st)"

definition sha_block :: "u32 list \<Rightarrow> u32 list \<Rightarrow> u32 list" where
  "sha_block st ws = map (\<lambda>(x, y). x + y) (zip st (foldl sha_round st (zip sha_K (sha_schedule ws))))"

fun sha_words :: "bytes \<Rightarrow> u32 list" where
  "sha_words (a # b # c # d # r) = of_nat (unbe [a, b, c, d]) # sha_words r"
| "sha_words _ = []"

fun chunks :: "nat \<Rightarrow> 'a list \<Rightarrow> 'a list list" where
  "chunks n xs = (if xs = [] \<or> n = 0 then [] else take n xs # chunks n (drop n xs))"

declare chunks.simps [simp del]

definition sha_pad :: "bytes \<Rightarrow> bytes" where
  "sha_pad m = m @ CHR 0x80 # replicate ((119 - length m mod 64) mod 64) (CHR 0x00) @ be 8 (8 * length m)"

definition sha256 :: "bytes \<Rightarrow> bytes" where
  "sha256 m = concat (map (\<lambda>w. be 4 (unat w)) (foldl sha_block sha_H0 (chunks 16 (sha_words (sha_pad m)))))"

lemma length_sha_round: "length (sha_round st kw) = length st"
  by (auto simp: sha_round_def Let_def split: list.splits)

lemma length_sha_rounds: "length (foldl sha_round st kws) = length st"
  by (induction kws arbitrary: st) (simp_all add: length_sha_round)

lemma length_sha_blocks: "length (foldl sha_block st bs) = length st"
  by (induction bs arbitrary: st) (simp_all add: sha_block_def length_sha_rounds)

lemma length_sha256 [simp]: "length (sha256 m) = 32"
  by (simp add: sha256_def length_concat comp_def sum_list_triv length_sha_blocks sha_H0_def)

subsection \<open>HMAC\<close>

definition xor_byte :: "char \<Rightarrow> char \<Rightarrow> char" where
  "xor_byte a b = char_of (of_char a XOR of_char b :: nat)"

definition xor_bytes :: "bytes \<Rightarrow> bytes \<Rightarrow> bytes" where
  "xor_bytes a b = map (\<lambda>(x, y). xor_byte x y) (zip a b)"

definition hmac_sha256 :: "bytes \<Rightarrow> bytes \<Rightarrow> bytes" where
  "hmac_sha256 key msg =
     (let k = (if length key > 64 then sha256 key else key);
          k = k @ replicate (64 - length k) (CHR 0x00)
      in sha256 (xor_bytes k (replicate 64 (CHR 0x5C)) @ sha256 (xor_bytes k (replicate 64 (CHR 0x36)) @ msg)))"

lemma length_hmac_sha256 [simp]: "length (hmac_sha256 key msg) = 32"
  by (simp add: hmac_sha256_def Let_def)

lemma xor_byte_cancel [simp]: "xor_byte (xor_byte a b) b = a"
proof -
  have "take_bit 8 (of_char a) = (of_char a :: nat)" "take_bit 8 (of_char b) = (of_char b :: nat)"
    using of_char_less by (simp_all add: take_bit_nat_eq_self_iff)
  then have "take_bit 8 (of_char a XOR of_char b :: nat) = of_char a XOR of_char b" by (simp only: take_bit_xor)
  then have "(of_char a XOR of_char b :: nat) mod 256 = of_char a XOR of_char b" by (simp add: take_bit_eq_mod)
  then have "of_char (char_of (of_char a XOR of_char b :: nat)) = (of_char a XOR of_char b :: nat)"
    by (simp add: of_char_of)
  then show ?thesis by (simp add: xor_byte_def xor.assoc)
qed

lemma length_xor_bytes [simp]: "length (xor_bytes a b) = min (length a) (length b)"
  by (simp add: xor_bytes_def)

lemma xor_bytes_cancel: "length a = length b \<Longrightarrow> xor_bytes (xor_bytes a b) b = a"
  by (induction a b rule: list_induct2) (simp_all add: xor_bytes_def)

end
