(* ===== verification/Scram.thy ===== *)
theory Scram
  imports Crypto
begin

text \<open>
  SCRAM-SHA-256, server side (auth/scram.go): deriving a verifier from a password, and the two steps of
  a conversation. PBKDF2 comes from golang.org/x/crypto and is a parameter \<open>pbkdf2\<close> (password,
  salt, iterations, length of the key); the random bytes of \<open>crypto/rand\<close> are an argument of
  the operation that draws them, an error or the bytes.
\<close>

subsection \<open>Verifiers\<close>

definition DefaultSCRAMIterations :: int where
  "DefaultSCRAMIterations = 4096"

record SCRAMVerifier =
  sv_Salt :: bytes
  sv_Iterations :: int
  sv_StoredKey :: bytes
  sv_ServerKey :: bytes

type_synonym kdf = "bytes \<Rightarrow> bytes \<Rightarrow> int \<Rightarrow> nat \<Rightarrow> bytes"

definition deriveVerifier :: "kdf \<Rightarrow> string \<Rightarrow> bytes \<Rightarrow> int \<Rightarrow> SCRAMVerifier" where
  "deriveVerifier pbkdf2 password salt iterations =
     (let salted = pbkdf2 password salt iterations 32;
          clientKey = hmac_sha256 salted ''Client Key'';
          storedKey = sha256 clientKey;
          serverKey = hmac_sha256 salted ''Server Key''
      in \<lparr>sv_Salt = salt, sv_Iterations = iterations, sv_StoredKey = storedKey, sv_ServerKey = serverKey\<rparr>)"

definition NewSCRAMVerifier :: "kdf \<Rightarrow> bytes res \<Rightarrow> string \<Rightarrow> SCRAMVerifier res" where
  "NewSCRAMVerifier pbkdf2 rnd password =
     (case rnd of
        Inl e \<Rightarrow> Inl e
      | Inr salt \<Rightarrow> Inr (deriveVerifier pbkdf2 password salt DefaultSCRAMIterations))"

subsection \<open>The conversation\<close>

record SCRAMServerConversation =
  sc_verifier :: SCRAMVerifier
  sc_clientNonce :: string
  sc_serverNonce :: string
  sc_clientFirstBare :: string
  sc_serverFirstMsg :: string
  sc_gs2HeaderB64 :: string
  sc_authMessageReady :: bool

definition NewSCRAMServerConversation :: "SCRAMVerifier \<Rightarrow> SCRAMServerConversation" where
  "NewSCRAMServerConversation v =
     \<lparr>sc_verifier = v, sc_clientNonce = [], sc_serverNonce = [], sc_clientFirstBare = [],
      sc_serverFirstMsg = [], sc_gs2HeaderB64 = [], sc_authMessageReady = False\<rparr>"

definition splitFirst :: "string \<Rightarrow> string \<times> string \<times> bool" where
  "splitFirst s = (case cut_byte (CHR '','') s of None \<Rightarrow> (s, [], False) | Some (a, b) \<Rightarrow> (a, b, True))"

definition clientFinalWithoutProof :: "string \<Rightarrow> string" where
  "clientFinalWithoutProof s = (case before_last '',p='' s of Some a \<Rightarrow> a | None \<Rightarrow> s)"

primrec attr_loop :: "string list \<Rightarrow> (string \<rightharpoonup> string) \<Rightarrow> (string \<rightharpoonup> string) res" where
  "attr_loop [] out = Inr out"
| "attr_loop (field # fs) out =
     (if field = [] then attr_loop fs out
      else case cut_byte (CHR ''='') field of
             None \<Rightarrow> Inl (ErrMsg ''scram: malformed attribute'')
           | Some (k, v) \<Rightarrow> if k = [] then Inl (ErrMsg ''scram: malformed attribute'') else attr_loop fs (out(k \<mapsto> v)))"

definition parseAttrs :: "string \<Rightarrow> (string \<rightharpoonup> string) res" where
  "parseAttrs s = attr_loop (split_byte (CHR '','') s) Map.empty"

definition Step1 :: "bytes res \<Rightarrow> SCRAMServerConversation \<Rightarrow> string \<Rightarrow> SCRAMServerConversation \<times> string res" where
  "Step1 rnd s clientFirst =
     (let (gs2Flag, rest, ok) = splitFirst clientFirst
      in if \<not> ok then (s, Inl (ErrMsg ''scram: malformed client-first-message (no gs2 flag)''))
         else if gs2Flag \<noteq> ''n'' \<and> gs2Flag \<noteq> ''y'' then
           (if hasPrefix gs2Flag ''p='' then (s, Inl (ErrMsg ''scram: channel binding requested but not supported''))
            else (s, Inl (ErrMsg ''scram: invalid gs2 channel-binding flag'')))
         else
           let (authzid, bare, ok) = splitFirst rest
           in if \<not> ok then (s, Inl (ErrMsg ''scram: malformed client-first-message (no authzid field)''))
              else
                let gs2Header = take (length clientFirst - length bare) clientFirst;
                    s = s\<lparr>sc_clientFirstBare := bare, sc_gs2HeaderB64 := b64_encode gs2Header\<rparr>
                in case parseAttrs bare of
                     Inl e \<Rightarrow> (s, Inl e)
                   | Inr attrs \<Rightarrow>
                       (case attrs ''r'' of
                          None \<Rightarrow> (s, Inl (ErrMsg ''scram: client-first-message missing nonce''))
                        | Some cnonce \<Rightarrow>
                            if cnonce = [] then (s, Inl (ErrMsg ''scram: client-first-message missing nonce''))
                            else
                              let s = s\<lparr>sc_clientNonce := cnonce\<rparr>
                              in case rnd of
                                   Inl e \<Rightarrow> (s, Inl e)
                                 | Inr srvRand \<Rightarrow>
                                     let serverNonce = cnonce @ b64_encode srvRand;
                                         msg = ''r='' @ serverNonce @ '',s='' @ b64_encode (sv_Salt (sc_verifier s))
                                               @ '',i='' @ itoa (sv_Iterations (sc_verifier s))
                                     in (s\<lparr>sc_serverNonce := serverNonce, sc_serverFirstMsg := msg,
                                           sc_authMessageReady := True\<rparr>, Inr msg)))"

definition Step2 :: "SCRAMServerConversation \<Rightarrow> string \<Rightarrow> string res" where
  "Step2 s clientFinal =
     (if \<not> sc_authMessageReady s then Inl (ErrMsg ''scram: Step2 called before Step1'')
      else case parseAttrs clientFinal of
        Inl e \<Rightarrow> Inl e
      | Inr attrs \<Rightarrow>
          (case attrs ''c'' of
             None \<Rightarrow> Inl (ErrMsg ''scram: client-final-message missing channel binding (c=)'')
           | Some cb \<Rightarrow>
               if cb \<noteq> sc_gs2HeaderB64 s then Inl (ErrMsg ''scram: channel-binding mismatch'')
               else if attrs ''r'' \<noteq> Some (sc_serverNonce s) then
                 Inl (ErrMsg ''scram: nonce mismatch in client-final-message'')
               else case attrs ''p'' of
                 None \<Rightarrow> Inl (ErrMsg ''scram: client-final-message missing proof (p=)'')
               | Some proofB64 \<Rightarrow>
                   (case b64_decode proofB64 of
                      None \<Rightarrow> Inl (ErrMsg ''scram: bad base64 client proof'')
                    | Some clientProof \<Rightarrow>
                        let cfwp = clientFinalWithoutProof clientFinal;
                            authMessage = sc_clientFirstBare s @ '','' @ sc_serverFirstMsg s @ '','' @ cfwp;
                            clientSignature = hmac_sha256 (sv_StoredKey (sc_verifier s)) authMessage
                        in if length clientProof \<noteq> length clientSignature then
                             Inl (ErrMsg ''scram: client proof length mismatch'')
                           else
                             let clientKey = xor_bytes clientProof clientSignature
                             in if sha256 clientKey \<noteq> sv_StoredKey (sc_verifier s) then
                                  Inl (ErrMsg ''scram: authentication failed (bad password)'')
                                else Inr (''v='' @ b64_encode (hmac_sha256 (sv_ServerKey (sc_verifier s)) authMessage)))))"

subsection \<open>The client of RFC 5802\<close>

text \<open>
  The other side of the protocol, as the RFC describes it: the client parses the server's first message,
  derives the keys from the password, and computes its final message and the server signature it expects.
\<close>

definition client_bare :: "string \<Rightarrow> string \<Rightarrow> string" where
  "client_bare user cnonce = ''n='' @ user @ '',r='' @ cnonce"

definition client_reply :: "kdf \<Rightarrow> string \<Rightarrow> string \<Rightarrow> string \<Rightarrow> (string \<times> string) option" where
  "client_reply pbkdf2 password bare serverFirst =
     (case parseAttrs serverFirst of
        Inl _ \<Rightarrow> None
      | Inr attrs \<Rightarrow>
          (case (attrs ''r'', Option.bind (attrs ''s'') b64_decode, Option.bind (attrs ''i'') (ParseInt 64)) of
             (Some nonce, Some salt, Some iterations) \<Rightarrow>
               (let salted = pbkdf2 password salt iterations 32;
                    clientKey = hmac_sha256 salted ''Client Key'';
                    cfwp = ''c=biws,r='' @ nonce;
                    authMessage = bare @ '','' @ serverFirst @ '','' @ cfwp;
                    proof = xor_bytes clientKey (hmac_sha256 (sha256 clientKey) authMessage)
                in Some (cfwp @ '',p='' @ b64_encode proof,
                         ''v='' @ b64_encode (hmac_sha256 (hmac_sha256 salted ''Server Key'') authMessage)))
           | _ \<Rightarrow> None))"

lemma attr_loop_pair [simp]:
  "k \<noteq> [] \<Longrightarrow> CHR ''='' \<notin> set k \<Longrightarrow> attr_loop ((k @ CHR ''='' # v) # fs) out = attr_loop fs (out(k \<mapsto> v))"
  by (simp add: cut_byte_app)

lemma attr_loop_letter: "attr_loop ((c # CHR ''='' # v) # fs) out = (if c = CHR ''='' then Inl (ErrMsg ''scram: malformed attribute'') else attr_loop fs (out([c] \<mapsto> v)))"
  by simp

lemma itoa_plain: "CHR '','' \<notin> set (itoa i)"
proof -
  have "CHR '','' \<notin> set (utoa n)" for n using utoa_digits [of n] by (auto simp: list_all_iff isDigit_iff)
  then show ?thesis by (simp add: itoa_def)
qed

lemma parseAttrs_three:
  assumes "CHR '','' \<notin> set a" and "CHR '','' \<notin> set b" and "CHR '','' \<notin> set c"
    and "x \<notin> {CHR ''='', CHR '',''}" and "y \<notin> {CHR ''='', CHR '',''}" and "z \<notin> {CHR ''='', CHR '',''}"
  shows "parseAttrs (x # CHR ''='' # a @ CHR '','' # y # CHR ''='' # b @ CHR '','' # z # CHR ''='' # c) =
    Inr [[x] \<mapsto> a, [y] \<mapsto> b, [z] \<mapsto> c]"
proof -
  have "split_byte (CHR '','') ((x # CHR ''='' # a) @ CHR '','' # (y # CHR ''='' # b) @ CHR '','' # (z # CHR ''='' # c)) =
      [x # CHR ''='' # a, y # CHR ''='' # b, z # CHR ''='' # c]"
    using assms by (subst split_byte_app, force, subst split_byte_app, force, subst split_byte_free) auto
  then show ?thesis using assms by (simp add: parseAttrs_def attr_loop_letter del: attr_loop.simps(2))
qed

lemma parseAttrs_two:
  assumes "CHR '','' \<notin> set a" and "CHR '','' \<notin> set b"
    and "x \<notin> {CHR ''='', CHR '',''}" and "y \<notin> {CHR ''='', CHR '',''}"
  shows "parseAttrs (x # CHR ''='' # a @ CHR '','' # y # CHR ''='' # b) = Inr [[x] \<mapsto> a, [y] \<mapsto> b]"
proof -
  have "split_byte (CHR '','') ((x # CHR ''='' # a) @ CHR '','' # (y # CHR ''='' # b)) = [x # CHR ''='' # a, y # CHR ''='' # b]"
    using assms by (subst split_byte_app, force, subst split_byte_free) auto
  then show ?thesis using assms by (simp add: parseAttrs_def attr_loop_letter del: attr_loop.simps(2))
qed

lemma before_last_none: "CHR '','' \<notin> set s \<Longrightarrow> before_last (CHR '','' # t) s = None"
  by (induction s) (auto simp: before_last.simps hasPrefix_iff split: list.splits)

lemma before_last_app:
  assumes "CHR '','' \<notin> set t" and "CHR '','' \<notin> set b"
  shows "before_last (CHR '','' # t) (a @ CHR '','' # t @ b) = Some a"
proof (induction a)
  case Nil
  have "before_last (CHR '','' # t) (t @ b) = None" using assms by (intro before_last_none) simp
  then show ?case by (subst before_last.simps) (simp add: hasPrefix_iff)
next
  case (Cons c a)
  then show ?case by (subst before_last.simps) simp
qed

subsection \<open>Properties\<close>

lemma Step1_client:
  assumes "CHR '','' \<notin> set user" and "CHR '','' \<notin> set cnonce" and "cnonce \<noteq> []"
  shows "Step1 (Inr rnd) (NewSCRAMServerConversation v) (''n,,'' @ client_bare user cnonce) =
    (let nonce = cnonce @ b64_encode rnd;
         msg = ''r='' @ nonce @ '',s='' @ b64_encode (sv_Salt v) @ '',i='' @ itoa (sv_Iterations v)
     in (\<lparr>sc_verifier = v, sc_clientNonce = cnonce, sc_serverNonce = nonce, sc_clientFirstBare = client_bare user cnonce,
          sc_serverFirstMsg = msg, sc_gs2HeaderB64 = ''biws'', sc_authMessageReady = True\<rparr>, Inr msg))"
proof -
  have p: "parseAttrs (client_bare user cnonce) = Inr [''n'' \<mapsto> user, ''r'' \<mapsto> cnonce]"
    using parseAttrs_two [OF assms(1,2), of "CHR ''n''" "CHR ''r''"] by (simp add: client_bare_def)
  have b: "b64_encode ''n,,'' = ''biws''"
    by (simp add: b64_char_def b64_alphabet_def Let_def)
  have "take (length (''n,,'' @ client_bare user cnonce) - length (client_bare user cnonce)) (''n,,'' @ client_bare user cnonce) = ''n,,''"
    by simp
  then show ?thesis
    using assms(3) by (simp add: Step1_def splitFirst_def p b NewSCRAMServerConversation_def Let_def del: b64_encode.simps)
qed

lemma Step2_accept:
  assumes "sc_authMessageReady s" and "parseAttrs fin = Inr attrs" and "attrs ''c'' = Some (sc_gs2HeaderB64 s)"
    and "attrs ''r'' = Some (sc_serverNonce s)" and "attrs ''p'' = Some (b64_encode cp)" and "length cp = 32"
    and "am = sc_clientFirstBare s @ '','' @ sc_serverFirstMsg s @ '','' @ clientFinalWithoutProof fin"
    and "sha256 (xor_bytes cp (hmac_sha256 (sv_StoredKey (sc_verifier s)) am)) = sv_StoredKey (sc_verifier s)"
  shows "Step2 s fin = Inr (''v='' @ b64_encode (hmac_sha256 (sv_ServerKey (sc_verifier s)) am))"
  using assms by (simp add: Step2_def Let_def)

lemma length_b64_encode: "length (b64_encode bs) = 4 * ((length bs + 2) div 3)"
proof (induction bs rule: b64_encode.induct)
  case (4 a b c r)
  have "length (b64_encode r) = 4 * ((length r + 2) div 3)" by (rule 4) (rule refl)
  moreover have "(length (a # b # c # r) + 2) div 3 = (length r + 2) div 3 + 1"
    using div_add_self2 [of 3 "length r + 2"] by (simp add: add.commute)
  ultimately show ?case by (simp add: Let_def)
qed (simp_all add: Let_def)

lemma honest_run:
  assumes "CHR '','' \<notin> set user" and "CHR '','' \<notin> set cnonce" and "cnonce \<noteq> []"
    and "0 \<le> iterations" and "iterations < 2 ^ 63"
  shows "\<exists>s serverFirst clientFinal serverFinal.
      Step1 (Inr rnd) (NewSCRAMServerConversation (deriveVerifier pbkdf2 password salt iterations)) (''n,,'' @ client_bare user cnonce)
        = (s, Inr serverFirst)
    \<and> client_reply pbkdf2 password (client_bare user cnonce) serverFirst = Some (clientFinal, serverFinal)
    \<and> Step2 s clientFinal = Inr serverFinal
    \<and> length clientFinal = length cnonce + 4 * ((length rnd + 2) div 3) + 56"
proof -
  let ?v = "deriveVerifier pbkdf2 password salt iterations"
  let ?nonce = "cnonce @ b64_encode rnd"
  let ?sf = "''r='' @ ?nonce @ '',s='' @ b64_encode salt @ '',i='' @ itoa iterations"
  let ?salted = "pbkdf2 password salt iterations 32"
  let ?ck = "hmac_sha256 ?salted ''Client Key''"
  let ?cfwp = "''c=biws,r='' @ ?nonce"
  let ?am = "client_bare user cnonce @ '','' @ ?sf @ '','' @ ?cfwp"
  let ?cp = "xor_bytes ?ck (hmac_sha256 (sha256 ?ck) ?am)"
  let ?final = "?cfwp @ '',p='' @ b64_encode ?cp"
  have v: "sv_Salt ?v = salt" "sv_Iterations ?v = iterations" "sv_StoredKey ?v = sha256 ?ck"
    "sv_ServerKey ?v = hmac_sha256 ?salted ''Server Key''" by (simp_all add: deriveVerifier_def Let_def)
  have nc: "CHR '','' \<notin> set ?nonce" using assms(2) b64_encode_plain(1) by simp
  have "parseAttrs ?sf = Inr [''r'' \<mapsto> ?nonce, ''s'' \<mapsto> b64_encode salt, ''i'' \<mapsto> itoa iterations]"
    using parseAttrs_three [OF nc b64_encode_plain(1) itoa_plain, of "CHR ''r''" "CHR ''s''" "CHR ''i''" salt iterations] by simp
  moreover have "ParseInt 64 (itoa iterations) = Some iterations" using assms(4,5) by (intro ParseInt_itoa) auto
  ultimately have reply: "client_reply pbkdf2 password (client_bare user cnonce) ?sf =
      Some (?final, ''v='' @ b64_encode (hmac_sha256 (sv_ServerKey ?v) ?am))"
    by (simp add: client_reply_def Let_def v)
  have pf: "parseAttrs ?final = Inr [''c'' \<mapsto> ''biws'', ''r'' \<mapsto> ?nonce, ''p'' \<mapsto> b64_encode ?cp]"
    using parseAttrs_three [OF _ nc b64_encode_plain(1), of "''biws''" "CHR ''c''" "CHR ''r''" "CHR ''p''" ?cp] by simp
  have cf: "clientFinalWithoutProof ?final = ?cfwp"
    using before_last_app [of "''p=''" "b64_encode ?cp" ?cfwp] b64_encode_plain(1) [of ?cp]
    by (simp add: clientFinalWithoutProof_def)
  have "xor_bytes ?cp (hmac_sha256 (sha256 ?ck) ?am) = ?ck" by (simp add: xor_bytes_cancel)
  then have ok: "sha256 (xor_bytes ?cp (hmac_sha256 (sv_StoredKey ?v) ?am)) = sv_StoredKey ?v" by (simp only: v)
  let ?s = "\<lparr>sc_verifier = ?v, sc_clientNonce = cnonce, sc_serverNonce = ?nonce, sc_clientFirstBare = client_bare user cnonce,
          sc_serverFirstMsg = ?sf, sc_gs2HeaderB64 = ''biws'', sc_authMessageReady = True\<rparr>"
  have st1: "Step1 (Inr rnd) (NewSCRAMServerConversation ?v) (''n,,'' @ client_bare user cnonce) = (?s, Inr ?sf)"
    using Step1_client [OF assms(1-3), of rnd ?v] by (simp only: Let_def v)
  have am: "?am = sc_clientFirstBare ?s @ '','' @ sc_serverFirstMsg ?s @ '','' @ clientFinalWithoutProof ?final"
    by (simp only: cf SCRAMServerConversation.simps)
  have st2: "Step2 ?s ?final = Inr (''v='' @ b64_encode (hmac_sha256 (sv_ServerKey (sc_verifier ?s)) ?am))"
    by (rule Step2_accept [OF _ pf _ _ _ _ am]) (use ok in simp_all)
  have len: "length ?final = length cnonce + 4 * ((length rnd + 2) div 3) + 56" by (simp add: length_b64_encode)
  show ?thesis by (intro exI conjI, rule st1, rule reply) (simp_all only: st2 SCRAMServerConversation.simps len)
qed

text \<open>The server's first message for a client nonce, random bytes and a verifier.\<close>

definition server_first :: "string \<Rightarrow> bytes \<Rightarrow> SCRAMVerifier \<Rightarrow> string" where
  "server_first cnonce r v = ''r='' @ cnonce @ b64_encode r @ '',s='' @ b64_encode (sv_Salt v) @ '',i='' @ itoa (sv_Iterations v)"

lemma splitFirst_True: "splitFirst s = (a, b, True) \<Longrightarrow> s = a @ '','' @ b \<and> CHR '','' \<notin> set a"
  by (auto simp: splitFirst_def cut_byte_Some split: option.splits)

lemma Step1_Inr:
  assumes "Step1 rnd (NewSCRAMServerConversation v) cf = (s, Inr m)"
  obtains r flag authzid bare attrs cn where "rnd = Inr r" "cf = flag @ '','' @ authzid @ '','' @ bare" "flag = ''n'' \<or> flag = ''y''"
    "CHR '','' \<notin> set authzid" "parseAttrs bare = Inr attrs" "attrs ''r'' = Some cn" "cn \<noteq> []"
    "sc_serverNonce s = cn @ b64_encode r" "sc_authMessageReady s" "sc_verifier s = v" "sc_clientFirstBare s = bare"
    "sc_serverFirstMsg s = server_first cn r v" "m = server_first cn r v" "sc_gs2HeaderB64 s = b64_encode (flag @ '','' @ authzid @ '','')"
proof -
  obtain flag rest where f: "splitFirst cf = (flag, rest, True)" "flag = ''n'' \<or> flag = ''y''"
    using assms unfolding Step1_def Let_def by (auto split: prod.splits if_splits)
  obtain authzid bare where g: "splitFirst rest = (authzid, bare, True)"
    using assms f unfolding Step1_def Let_def by (auto split: prod.splits if_splits)
  have cf: "cf = flag @ '','' @ authzid @ '','' @ bare" and az: "CHR '','' \<notin> set authzid"
    using splitFirst_True [OF f(1)] splitFirst_True [OF g] by simp_all
  have hd: "take (length cf - length bare) cf = flag @ '','' @ authzid @ '',''"
  proof -
    have "cf = (flag @ '','' @ authzid @ '','') @ bare" by (simp add: cf)
    then show ?thesis by (metis add_diff_cancel_right' append_eq_conv_conj length_append)
  qed
  show ?thesis
    using assms f g hd unfolding Step1_def Let_def
    by (auto simp: NewSCRAMServerConversation_def server_first_def simp del: b64_encode.simps
        split: if_splits sum.splits option.splits intro!: that [OF _ cf f(2) az])
qed

lemma Step1_Inl:
  assumes "Step1 rnd (NewSCRAMServerConversation v) cf = (s, Inl e)"
  shows "\<not> sc_authMessageReady s"
  using assms unfolding Step1_def Let_def
  by (auto simp: NewSCRAMServerConversation_def split: prod.splits if_splits sum.splits option.splits)

lemma Step2_Inr:
  assumes "Step2 s fin = Inr v"
  obtains attrs cp where "parseAttrs fin = Inr attrs" "attrs ''r'' = Some (sc_serverNonce s)" "sc_authMessageReady s"
    "Option.bind (attrs ''p'') b64_decode = Some cp" "attrs ''c'' = Some (sc_gs2HeaderB64 s)" "length cp = 32"
    "sha256 (xor_bytes cp (hmac_sha256 (sv_StoredKey (sc_verifier s))
       (sc_clientFirstBare s @ '','' @ sc_serverFirstMsg s @ '','' @ clientFinalWithoutProof fin))) = sv_StoredKey (sc_verifier s)"
    "v = ''v='' @ b64_encode (hmac_sha256 (sv_ServerKey (sc_verifier s))
       (sc_clientFirstBare s @ '','' @ sc_serverFirstMsg s @ '','' @ clientFinalWithoutProof fin))"
  using assms unfolding Step2_def Let_def
  by (auto split: if_splits sum.splits option.splits)

lemma b64_encode_inj: "b64_encode a = b64_encode b \<Longrightarrow> a = b"
  by (metis b64_decode_encode option.inject)

text \<open>
  C24. A recorded login cannot be replayed: a final message that one conversation accepts is refused
  by every conversation whose server randomness differs, whatever role and first message that conversation
  has; and a conversation whose first step failed refuses every final message.
\<close>

theorem scram_replay_refused:
  assumes "Step1 (Inr r1) (NewSCRAMServerConversation v1) cf1 = (s1, Inr m1)" and "Step2 s1 fin = Inr accepted"
    and "Step1 (Inr r2) (NewSCRAMServerConversation v2) cf2 = (s2, reply2)"
    and "r1 \<noteq> r2" and "length r1 = length r2"
  shows "\<exists>e. Step2 s2 fin = Inl e"
proof (cases "Step2 s2 fin")
  case (Inr v)
  obtain attrs where a: "parseAttrs fin = Inr attrs" "attrs ''r'' = Some (sc_serverNonce s1)"
    using Step2_Inr [OF assms(2)] by metis
  obtain attrs2 where b: "parseAttrs fin = Inr attrs2" "attrs2 ''r'' = Some (sc_serverNonce s2)" "sc_authMessageReady s2"
    using Step2_Inr [OF Inr] by metis
  obtain m2 where m2: "reply2 = Inr m2" using b(3) Step1_Inl assms(3) by (cases reply2) auto
  obtain c1 where c1: "sc_serverNonce s1 = c1 @ b64_encode r1" using Step1_Inr [OF assms(1)] by auto
  obtain c2 where c2: "sc_serverNonce s2 = c2 @ b64_encode r2" using Step1_Inr [OF assms(3) [unfolded m2]] by auto
  have "c1 @ b64_encode r1 = c2 @ b64_encode r2" using a b c1 c2 by simp
  moreover have "length (b64_encode r1) = length (b64_encode r2)" using assms(5) by (simp add: length_b64_encode)
  ultimately have "b64_encode r1 = b64_encode r2" by simp
  then show ?thesis using b64_encode_inj assms(4) by blast
qed simp

theorem scram_replay_refused_witness:
  "\<exists>s1 s2 fin accepted e. Step2 s1 fin = Inr accepted \<and> Step2 s2 fin = Inl e
     \<and> sc_verifier s1 = sc_verifier s2 \<and> sc_authMessageReady s2"
proof -
  let ?v = "deriveVerifier (\<lambda>p salt _ _. hmac_sha256 p salt) ''secret'' ''salt'' 4096"
  let ?cf = "''n,,'' @ client_bare ''alice'' ''nonce''"
  obtain s1 m1 fin acc where a: "Step1 (Inr ''r1'') (NewSCRAMServerConversation ?v) ?cf = (s1, Inr m1)" "Step2 s1 fin = Inr acc"
    using honest_run [of "''alice''" "''nonce''" 4096 "''r1''" "\<lambda>p salt _ _. hmac_sha256 p salt" "''secret''" "''salt''"]
    by auto
  obtain s2 m2 where b: "Step1 (Inr ''r2'') (NewSCRAMServerConversation ?v) ?cf = (s2, Inr m2)"
    using Step1_client [of "''alice''" "''nonce''" "''r2''" ?v] by (auto simp: Let_def)
  have "\<exists>e. Step2 s2 fin = Inl e" by (rule scram_replay_refused [OF a b]) simp_all
  moreover have "sc_verifier s1 = ?v" using Step1_Inr [OF a(1)] by blast
  moreover have "sc_verifier s2 = ?v" "sc_authMessageReady s2" using Step1_Inr [OF b] by blast+
  ultimately show ?thesis using a(2) by fastforce
qed

end
