(* ===== verification/Wire.thy ===== *)
theory Wire
  imports Scram
begin

text \<open>
  The message layer of the PostgreSQL protocol (wire/protocol.go): reading typed and startup messages,
  sending messages, the builders of message bodies; and the SASL exchange that authenticates a local
  role (wire/scram.go) on top of it.

  The bytes a connection will deliver are a byte list that reads consume. The buffered writer is a
  parameter \<open>wr\<close>, its flush a parameter \<open>fl\<close>; both may fail.
\<close>

subsection \<open>Messages (protocol.go)\<close>

definition msgAuthentication :: char where
  "msgAuthentication = CHR ''R''"

definition fMsgPassword :: char where
  "fMsgPassword = CHR ''p''"

definition readTyped :: "bytes \<Rightarrow> (char \<times> bytes \<times> bytes) res" where
  "readTyped src =
     (case src of
        [] \<Rightarrow> Inl ErrEOF
      | t # src \<Rightarrow>
          (case readFull 4 src of
             Inl e \<Rightarrow> Inl e
           | Inr (lenBuf, src) \<Rightarrow>
               let n = unbe lenBuf
               in if n < 4 then Inl (ErrMsg ''wire: invalid message length'')
                  else case readFull (n - 4) src of
                         Inl e \<Rightarrow> Inl e
                       | Inr (body, src) \<Rightarrow> Inr (t, body, src)))"

definition readStartup :: "bytes \<Rightarrow> (nat \<times> bytes \<times> bytes) res" where
  "readStartup src =
     (case readFull 4 src of
        Inl e \<Rightarrow> Inl e
      | Inr (lenBuf, src) \<Rightarrow>
          let n = unbe lenBuf
          in if n < 8 \<or> n > 2 ^ 20 then Inl (ErrMsg ''wire: invalid startup length'')
             else case readFull (n - 4) src of
                    Inl e \<Rightarrow> Inl e
                  | Inr (body, src) \<Rightarrow> Inr (unbe (take 4 body), body, src))"

type_synonym 's writer = "'s \<Rightarrow> bytes \<Rightarrow> 's \<times> go_error option"

definition send :: "'s writer \<Rightarrow> 's \<Rightarrow> char \<Rightarrow> bytes \<Rightarrow> 's \<times> go_error option" where
  "send wr w typ body =
     (case wr w [typ] of
        (w, Some e) \<Rightarrow> (w, Some e)
      | (w, None) \<Rightarrow>
          (case wr w (be 4 (length body + 4)) of
             (w, Some e) \<Rightarrow> (w, Some e)
           | (w, None) \<Rightarrow> wr w body))"

text \<open>The append-only encoder of message bodies; a negative integer is its two's complement.\<close>

type_synonym builder = bytes

definition b_int16 :: "int \<Rightarrow> builder \<Rightarrow> builder" where
  "b_int16 v e = e @ be 2 (nat (v mod 2 ^ 16))"

definition b_int32 :: "int \<Rightarrow> builder \<Rightarrow> builder" where
  "b_int32 v e = e @ be 4 (nat (v mod 2 ^ 32))"

definition b_byte1 :: "char \<Rightarrow> builder \<Rightarrow> builder" where
  "b_byte1 v e = e @ [v]"

definition b_str :: "string \<Rightarrow> builder \<Rightarrow> builder" where
  "b_str s e = (e @ s) @ [CHR 0x00]"

definition b_bytes :: "bytes \<Rightarrow> builder \<Rightarrow> builder" where
  "b_bytes p e = e @ p"

definition authenticationOk :: bytes where
  "authenticationOk = b_int32 0 []"

definition authenticationCleartext :: bytes where
  "authenticationCleartext = b_int32 3 []"

definition parameterStatus :: "string \<Rightarrow> string \<Rightarrow> bytes" where
  "parameterStatus name val = b_str val (b_str name [])"

definition backendKeyData :: "int \<Rightarrow> int \<Rightarrow> bytes" where
  "backendKeyData pid secret = b_int32 secret (b_int32 pid [])"

definition readyForQuery :: "char \<Rightarrow> bytes" where
  "readyForQuery status = [status]"

definition commandComplete :: "string \<Rightarrow> bytes" where
  "commandComplete tag = b_str tag []"

definition errorResponse :: "string \<Rightarrow> string \<Rightarrow> string \<Rightarrow> bytes" where
  "errorResponse severity sqlstate message =
     (let e = [];
          e = b_str severity (b_byte1 (CHR ''S'') e);
          e = b_str severity (b_byte1 (CHR ''V'') e);
          e = b_str sqlstate (b_byte1 (CHR ''C'') e);
          e = b_str message (b_byte1 (CHR ''M'') e)
      in b_byte1 (CHR 0x00) e)"

text \<open>\<open>cString\<close> returns the string at a position and the position after its NUL.\<close>

definition cString :: "bytes \<Rightarrow> nat \<Rightarrow> string \<times> nat" where
  "cString body pos =
     (let s = takeWhile (\<lambda>c. c \<noteq> CHR 0x00) (drop pos body) in (s, pos + length s + 1))"

subsection \<open>SASL authentication (wire/scram.go)\<close>

definition scramMechanism :: string where
  "scramMechanism = ''SCRAM-SHA-256''"

definition authSASL :: int where "authSASL = 10"
definition authSASLContinue :: int where "authSASLContinue = 11"
definition authSASLFinal :: int where "authSASLFinal = 12"

definition authenticationSASL :: bytes where
  "authenticationSASL = b_byte1 (CHR 0x00) (b_str scramMechanism (b_int32 authSASL []))"

definition authenticationSASLContinue :: "string \<Rightarrow> bytes" where
  "authenticationSASLContinue d = b_bytes d (b_int32 authSASLContinue [])"

definition authenticationSASLFinal :: "string \<Rightarrow> bytes" where
  "authenticationSASLFinal d = b_bytes d (b_int32 authSASLFinal [])"

text \<open>A message sent and flushed.\<close>

definition send_flush :: "'s writer \<Rightarrow> ('s \<Rightarrow> 's \<times> go_error option) \<Rightarrow> 's \<Rightarrow> char \<Rightarrow> bytes \<Rightarrow> 's \<times> go_error option" where
  "send_flush wr fl w typ body = (case send wr w typ body of (w, Some e) \<Rightarrow> (w, Some e) | (w, None) \<Rightarrow> fl w)"

text \<open>The client-first-message of a SASLInitialResponse.\<close>

definition initial_response :: "bytes \<Rightarrow> string res" where
  "initial_response body =
     (let (mech, pos) = cString body 0
      in if mech \<noteq> scramMechanism then Inl (ErrMsg ''scram: unsupported SASL mechanism'')
         else if pos + 4 > length body then Inl (ErrMsg ''scram: truncated SASLInitialResponse'')
         else
           let n = unbe (take 4 (drop pos body));
               initLen = (if n < 2 ^ 31 then int n else int n - 2 ^ 32);
               pos = pos + 4
           in if initLen < 0 \<or> int pos + initLen > int (length body) then
                Inl (ErrMsg ''scram: invalid SASLInitialResponse length'')
              else Inr (take (nat initLen) (drop pos body)))"

definition runSCRAM ::
  "'s writer \<Rightarrow> ('s \<Rightarrow> 's \<times> go_error option) \<Rightarrow> bytes res \<Rightarrow> SCRAMVerifier \<Rightarrow> 's \<times> bytes \<Rightarrow> ('s \<times> bytes) \<times> go_error option" where
  "runSCRAM wr fl rnd v c =
     (let (w, src) = c
      in case send_flush wr fl w msgAuthentication authenticationSASL of
        (w, Some e) \<Rightarrow> ((w, src), Some e)
      | (w, None) \<Rightarrow>
        (case readTyped src of
          Inl e \<Rightarrow> ((w, src), Some e)
        | Inr (typ, body, src) \<Rightarrow>
          if typ \<noteq> fMsgPassword then ((w, src), Some (ErrMsg ''scram: expected SASLInitialResponse''))
          else case initial_response body of
            Inl e \<Rightarrow> ((w, src), Some e)
          | Inr clientFirst \<Rightarrow>
            (case Step1 rnd (NewSCRAMServerConversation v) clientFirst of
              (conv, Inl e) \<Rightarrow> ((w, src), Some e)
            | (conv, Inr serverFirst) \<Rightarrow>
              (case send_flush wr fl w msgAuthentication (authenticationSASLContinue serverFirst) of
                (w, Some e) \<Rightarrow> ((w, src), Some e)
              | (w, None) \<Rightarrow>
                (case readTyped src of
                  Inl e \<Rightarrow> ((w, src), Some e)
                | Inr (typ, clientFinal, src) \<Rightarrow>
                  if typ \<noteq> fMsgPassword then ((w, src), Some (ErrMsg ''scram: expected SASLResponse''))
                  else case Step2 conv clientFinal of
                    Inl e \<Rightarrow> ((w, src), Some e)
                  | Inr serverFinal \<Rightarrow>
                    (case send_flush wr fl w msgAuthentication (authenticationSASLFinal serverFinal) of
                      (w, err) \<Rightarrow> ((w, src), err)))))))"

subsection \<open>Framing\<close>

definition frame :: "char \<Rightarrow> bytes \<Rightarrow> bytes" where
  "frame typ body = typ # be 4 (length body + 4) @ body"

lemma send_append: "send append_writer w t b = (w @ frame t b, None)"
  by (simp add: send_def append_writer_def frame_def)

lemma readFull_app: "length b = n \<Longrightarrow> readFull n (b @ rest) = Inr (b, rest)"
  by (auto simp: readFull_def)

lemma readFull_Inr: "readFull n src = Inr (b, rest) \<longleftrightarrow> src = b @ rest \<and> length b = n"
  by (auto simp: readFull_def)

lemma readTyped_frame: "length b + 4 < 2 ^ 32 \<Longrightarrow> readTyped (frame t b @ rest) = Inr (t, b, rest)"
  by (simp add: readTyped_def frame_def readFull_app Let_def)

lemma readTyped_Inr:
  assumes "readTyped src = Inr (t, b, rest)"
  shows "src = frame t b @ rest \<and> length b + 4 < 2 ^ 32"
proof -
  obtain lb mid where r: "src = t # lb @ b @ rest" "length lb = 4" "unbe lb \<ge> 4" "length b = unbe lb - 4"
    using assms by (auto simp: readTyped_def Let_def readFull_Inr split: list.splits sum.splits if_splits)
  have "unbe lb < 2 ^ 32" using unbe_less [of lb] r(2) by simp
  moreover have "be 4 (length b + 4) = lb" using be_unbe [of lb] r(2-4) by simp
  ultimately show ?thesis using r by (simp add: frame_def)
qed

text \<open>
  Message framing is exact: what \<open>send\<close> writes for a message is one frame, and
  \<open>readTyped\<close> yields a message from a byte stream exactly when the stream starts with that
  message's frame, leaving what follows it; only a body whose length fits the 32-bit field can be read.
\<close>

theorem message_framing_exact:
  "send append_writer w t b = (w @ frame t b, None)
   \<and> (readTyped src = Inr (t, b, rest) \<longleftrightarrow> src = frame t b @ rest \<and> length b + 4 < 2 ^ 32)"
  using send_append readTyped_frame readTyped_Inr by blast

subsection \<open>Authentication over the wire\<close>

lemma runSCRAM_None:
  assumes "runSCRAM wr fl rnd v (w, src) = ((w', rest), None)"
  obtains body cf conv sf fin sfin w1 w2 where
    "src = frame fMsgPassword body @ frame fMsgPassword fin @ rest" "initial_response body = Inr cf"
    "Step1 rnd (NewSCRAMServerConversation v) cf = (conv, Inr sf)" "Step2 conv fin = Inr sfin"
    "send_flush wr fl w msgAuthentication authenticationSASL = (w1, None)"
    "send_flush wr fl w1 msgAuthentication (authenticationSASLContinue sf) = (w2, None)"
    "send_flush wr fl w2 msgAuthentication (authenticationSASLFinal sfin) = (w', None)"
proof -
  obtain body src1 cf conv sf fin sfin w1 w2 where
    r: "readTyped src = Inr (fMsgPassword, body, src1)" "initial_response body = Inr cf"
      "Step1 rnd (NewSCRAMServerConversation v) cf = (conv, Inr sf)" "readTyped src1 = Inr (fMsgPassword, fin, rest)"
      "Step2 conv fin = Inr sfin"
      "send_flush wr fl w msgAuthentication authenticationSASL = (w1, None)"
      "send_flush wr fl w1 msgAuthentication (authenticationSASLContinue sf) = (w2, None)"
      "send_flush wr fl w2 msgAuthentication (authenticationSASLFinal sfin) = (w', None)"
    using assms unfolding runSCRAM_def Let_def by (auto split: prod.splits sum.splits option.splits if_splits)
  show ?thesis using that [OF _ r(2,3,5-8)] readTyped_Inr [OF r(1)] readTyped_Inr [OF r(4)] by simp
qed

text \<open>
  C22. Authentication is sound: when the SASL exchange reports success, the client sent exactly two password
  messages. The first carried a client-first message with a client nonce; the server answered it with its
  first message, made of that nonce, this exchange's random bytes and the verifier's salt and count. The
  second message repeats the header of the first and that nonce, and carries a 32-byte proof that, with the
  signature under the stored key of these three messages removed, hashes to the stored key of the role's
  verifier; the server ended with its own signature of the same three messages. Whatever bytes arrive, and
  whatever the network does.
\<close>

theorem scram_wire_sound:
  assumes "runSCRAM wr fl rnd v (w, src) = ((w', rest), None)"
  shows "\<exists>body fin r flag authzid bare a1 cnonce attrs pr authMessage w1 w2.
      src = frame fMsgPassword body @ frame fMsgPassword fin @ rest \<and> rnd = Inr r
    \<and> initial_response body = Inr (flag @ '','' @ authzid @ '','' @ bare) \<and> (flag = ''n'' \<or> flag = ''y'') \<and> CHR '','' \<notin> set authzid
    \<and> parseAttrs bare = Inr a1 \<and> a1 ''r'' = Some cnonce \<and> cnonce \<noteq> []
    \<and> parseAttrs fin = Inr attrs \<and> attrs ''c'' = Some (b64_encode (flag @ '','' @ authzid @ '',''))
    \<and> attrs ''r'' = Some (cnonce @ b64_encode r) \<and> Option.bind (attrs ''p'') b64_decode = Some pr \<and> length pr = 32
    \<and> authMessage = bare @ '','' @ server_first cnonce r v @ '','' @ clientFinalWithoutProof fin
    \<and> sha256 (xor_bytes pr (hmac_sha256 (sv_StoredKey v) authMessage)) = sv_StoredKey v
    \<and> send_flush wr fl w msgAuthentication authenticationSASL = (w1, None)
    \<and> send_flush wr fl w1 msgAuthentication (authenticationSASLContinue (server_first cnonce r v)) = (w2, None)
    \<and> send_flush wr fl w2 msgAuthentication
        (authenticationSASLFinal (''v='' @ b64_encode (hmac_sha256 (sv_ServerKey v) authMessage))) = (w', None)"
proof -
  obtain body cf conv sf fin sfin w1 w2 where
    a: "src = frame fMsgPassword body @ frame fMsgPassword fin @ rest" "initial_response body = Inr cf"
    and st: "Step1 rnd (NewSCRAMServerConversation v) cf = (conv, Inr sf)" "Step2 conv fin = Inr sfin"
    and w: "send_flush wr fl w msgAuthentication authenticationSASL = (w1, None)"
      "send_flush wr fl w1 msgAuthentication (authenticationSASLContinue sf) = (w2, None)"
      "send_flush wr fl w2 msgAuthentication (authenticationSASLFinal sfin) = (w', None)"
    by (rule runSCRAM_None [OF assms])
  obtain r flag authzid bare a1 cn where
    b: "rnd = Inr r" "cf = flag @ '','' @ authzid @ '','' @ bare" "flag = ''n'' \<or> flag = ''y''" "CHR '','' \<notin> set authzid"
      "parseAttrs bare = Inr a1" "a1 ''r'' = Some cn" "cn \<noteq> []"
    and c: "sc_serverNonce conv = cn @ b64_encode r" "sc_verifier conv = v" "sc_clientFirstBare conv = bare"
      "sc_serverFirstMsg conv = server_first cn r v" "sf = server_first cn r v" "sc_gs2HeaderB64 conv = b64_encode (flag @ '','' @ authzid @ '','')"
    by (rule Step1_Inr [OF st(1)])
  obtain attrs pr where e: "parseAttrs fin = Inr attrs" "attrs ''r'' = Some (sc_serverNonce conv)"
    "Option.bind (attrs ''p'') b64_decode = Some pr" "attrs ''c'' = Some (sc_gs2HeaderB64 conv)" "length pr = 32"
    "sha256 (xor_bytes pr (hmac_sha256 (sv_StoredKey (sc_verifier conv))
       (sc_clientFirstBare conv @ '','' @ sc_serverFirstMsg conv @ '','' @ clientFinalWithoutProof fin))) = sv_StoredKey (sc_verifier conv)"
    "sfin = ''v='' @ b64_encode (hmac_sha256 (sv_ServerKey (sc_verifier conv))
       (sc_clientFirstBare conv @ '','' @ sc_serverFirstMsg conv @ '','' @ clientFinalWithoutProof fin))"
    by (rule Step2_Inr [OF st(2)])
  note r = b(1) b(3-7) e(1,3,5) e(2,4,6,7) [unfolded c] a(2) [unfolded b(2)] w [unfolded c e(7)]
  show ?thesis
    by (intro exI conjI) (rule a(1) r refl)+
qed

text \<open>What an honest client sends and what it gets back.\<close>

definition sasl_initial :: "string \<Rightarrow> bytes" where
  "sasl_initial cf = scramMechanism @ CHR 0x00 # be 4 (length cf) @ cf"

lemma initial_response_sasl: "length cf < 2 ^ 31 \<Longrightarrow> initial_response (sasl_initial cf) = Inr cf"
proof -
  assume lt: "length cf < 2 ^ 31"
  have "cString (sasl_initial cf) 0 = (scramMechanism, 14)"
    by (simp add: cString_def sasl_initial_def scramMechanism_def)
  moreover have "drop 14 (sasl_initial cf) = be 4 (length cf) @ cf" "length (sasl_initial cf) = 18 + length cf"
    by (simp_all add: sasl_initial_def scramMechanism_def)
  moreover have "drop 18 (sasl_initial cf) = cf" by (simp add: sasl_initial_def scramMechanism_def)
  ultimately show ?thesis using lt by (simp add: initial_response_def Let_def)
qed

lemma wire_honest:
  assumes "CHR '','' \<notin> set user" and "CHR '','' \<notin> set cnonce" and "cnonce \<noteq> []"
    and "0 \<le> iterations" and "iterations < 2 ^ 63" and "length (client_bare user cnonce) < 2 ^ 30" and "length rnd = 18"
  shows "\<exists>serverFirst clientFinal serverFinal.
      client_reply pbkdf2 password (client_bare user cnonce) serverFirst = Some (clientFinal, serverFinal)
    \<and> runSCRAM append_writer (\<lambda>w. (w, None)) (Inr rnd) (deriveVerifier pbkdf2 password salt iterations)
          (w, frame fMsgPassword (sasl_initial (''n,,'' @ client_bare user cnonce)) @ frame fMsgPassword clientFinal @ rest)
        = ((w @ frame msgAuthentication authenticationSASL
              @ frame msgAuthentication (authenticationSASLContinue serverFirst)
              @ frame msgAuthentication (authenticationSASLFinal serverFinal), rest), None)"
proof -
  let ?v = "deriveVerifier pbkdf2 password salt iterations" and ?cf = "''n,,'' @ client_bare user cnonce"
  obtain s sf fin sfin where
    h: "Step1 (Inr rnd) (NewSCRAMServerConversation ?v) ?cf = (s, Inr sf)"
      "client_reply pbkdf2 password (client_bare user cnonce) sf = Some (fin, sfin)" "Step2 s fin = Inr sfin"
      "length fin = length cnonce + 4 * ((length rnd + 2) div 3) + 56"
    using honest_run [OF assms(1-5), of rnd pbkdf2 password salt] by blast
  have ir: "initial_response (sasl_initial ?cf) = Inr ?cf"
    by (rule initial_response_sasl) (use assms(6) in simp)
  have rd: "readTyped (frame fMsgPassword (sasl_initial ?cf) @ x) = Inr (fMsgPassword, sasl_initial ?cf, x)" for x
    by (rule readTyped_frame) (use assms(6) in \<open>simp add: sasl_initial_def scramMechanism_def\<close>)
  have lf: "length fin + 4 < 2 ^ 32" using h(4) assms(6,7) by (simp add: client_bare_def)
  have "runSCRAM append_writer (\<lambda>w. (w, None)) (Inr rnd) ?v
          (w, frame fMsgPassword (sasl_initial ?cf) @ frame fMsgPassword fin @ rest)
        = ((w @ frame msgAuthentication authenticationSASL @ frame msgAuthentication (authenticationSASLContinue sf)
              @ frame msgAuthentication (authenticationSASLFinal sfin), rest), None)"
    unfolding runSCRAM_def Let_def send_flush_def send_append
    by (simp only: prod.case option.case rd sum.case ir h(1,3) readTyped_frame [OF lf] if_False simp_thms append_assoc)
  then show ?thesis using h(2) by blast
qed

text \<open>
  C23. The whole SASL exchange for an honest client over a working connection: the server sends its
  mechanism, answers the first message, accepts the client's answer, and ends with exactly the signature
  the client expects, consuming exactly the client's two messages.
\<close>

theorem scram_wire_complete:
  assumes "CHR '','' \<notin> set user" and "CHR '','' \<notin> set cnonce" and "cnonce \<noteq> []"
    and "0 \<le> iterations" and "iterations < 2 ^ 63" and "length (client_bare user cnonce) < 2 ^ 30" and "length rnd = 18"
  shows "\<exists>serverFirst clientFinal serverFinal.
      client_reply pbkdf2 password (client_bare user cnonce) serverFirst = Some (clientFinal, serverFinal)
    \<and> runSCRAM append_writer (\<lambda>w. (w, None)) (Inr rnd) (deriveVerifier pbkdf2 password salt iterations)
          (w, frame fMsgPassword (sasl_initial (''n,,'' @ client_bare user cnonce)) @ frame fMsgPassword clientFinal @ rest)
        = ((w @ frame msgAuthentication authenticationSASL
              @ frame msgAuthentication (authenticationSASLContinue serverFirst)
              @ frame msgAuthentication (authenticationSASLFinal serverFinal), rest), None)"
  by (rule wire_honest [OF assms])

abbreviation toy_kdf :: kdf where
  "toy_kdf \<equiv> (\<lambda>p salt _ _. hmac_sha256 p salt)"

theorem scram_wire_complete_witness:
  "\<exists>serverFirst clientFinal serverFinal.
      client_reply toy_kdf ''secret'' (client_bare ''alice'' ''nonce'') serverFirst = Some (clientFinal, serverFinal)
    \<and> runSCRAM append_writer (\<lambda>w. (w, None)) (Inr ''123456789012345678'') (deriveVerifier toy_kdf ''secret'' ''salt'' 4096)
          ([], frame fMsgPassword (sasl_initial (''n,,'' @ client_bare ''alice'' ''nonce'')) @ frame fMsgPassword clientFinal @ [])
        = (([] @ frame msgAuthentication authenticationSASL
              @ frame msgAuthentication (authenticationSASLContinue serverFirst)
              @ frame msgAuthentication (authenticationSASLFinal serverFinal), []), None)"
  by (rule scram_wire_complete) (simp_all add: client_bare_def)

theorem scram_wire_sound_witness:
  "\<exists>src fin attrs cnonce. (\<exists>body. src = frame fMsgPassword body @ frame fMsgPassword fin)
     \<and> parseAttrs fin = Inr attrs \<and> attrs ''r'' = Some (cnonce @ b64_encode ''123456789012345678'')
     \<and> snd (runSCRAM append_writer (\<lambda>w. (w, None)) (Inr ''123456789012345678'') (deriveVerifier toy_kdf ''secret'' ''salt'' 4096) ([], src)) = None"
proof -
  let ?v = "deriveVerifier toy_kdf ''secret'' ''salt'' 4096"
  obtain src w' where r: "runSCRAM append_writer (\<lambda>w. (w, None)) (Inr ''123456789012345678'') ?v ([], src) = ((w', []), None)"
    using wire_honest [of "''alice''" "''nonce''" 4096 "''123456789012345678''" toy_kdf "''secret''" "''salt''" "[]" "[]"]
    by (auto simp: client_bare_def)
  obtain body fin attrs cnonce where f: "src = frame fMsgPassword body @ frame fMsgPassword fin @ []" "parseAttrs fin = Inr attrs"
    "attrs ''r'' = Some (cnonce @ b64_encode ''123456789012345678'')"
    using scram_wire_sound [OF r] by (elim exE conjE) (simp only: sum.inject)
  show ?thesis
    by (rule exI [of _ src], rule exI [of _ fin], rule exI [of _ attrs], rule exI [of _ cnonce])
       (use f r in \<open>auto simp del: b64_encode.simps\<close>)
qed

end
