(* ===== verification/Aead.thy ===== *)
theory Aead
  imports Crypto
begin

text \<open>
  AES and the Galois/Counter mode of Go's \<open>crypto/aes\<close> and \<open>crypto/cipher\<close> with the
  standard 12-byte nonce and 16-byte tag, after FIPS 197 and SP 800-38D, and the two laws their callers
  rely on: opening a sealed text gives it back, and only a sealed text opens.
\<close>

subsection \<open>The block cipher\<close>

type_synonym u8 = "8 word"

definition aes_sbox :: "u8 list" where
  "aes_sbox =
    [99, 124, 119, 123, 242, 107, 111, 197, 48, 1, 103, 43, 254, 215, 171, 118,
     202, 130, 201, 125, 250, 89, 71, 240, 173, 212, 162, 175, 156, 164, 114, 192,
     183, 253, 147, 38, 54, 63, 247, 204, 52, 165, 229, 241, 113, 216, 49, 21,
     4, 199, 35, 195, 24, 150, 5, 154, 7, 18, 128, 226, 235, 39, 178, 117,
     9, 131, 44, 26, 27, 110, 90, 160, 82, 59, 214, 179, 41, 227, 47, 132,
     83, 209, 0, 237, 32, 252, 177, 91, 106, 203, 190, 57, 74, 76, 88, 207,
     208, 239, 170, 251, 67, 77, 51, 133, 69, 249, 2, 127, 80, 60, 159, 168,
     81, 163, 64, 143, 146, 157, 56, 245, 188, 182, 218, 33, 16, 255, 243, 210,
     205, 12, 19, 236, 95, 151, 68, 23, 196, 167, 126, 61, 100, 93, 25, 115,
     96, 129, 79, 220, 34, 42, 144, 136, 70, 238, 184, 20, 222, 94, 11, 219,
     224, 50, 58, 10, 73, 6, 36, 92, 194, 211, 172, 98, 145, 149, 228, 121,
     231, 200, 55, 109, 141, 213, 78, 169, 108, 86, 244, 234, 101, 122, 174, 8,
     186, 120, 37, 46, 28, 166, 180, 198, 232, 221, 116, 31, 75, 189, 139, 138,
     112, 62, 181, 102, 72, 3, 246, 14, 97, 53, 87, 185, 134, 193, 29, 158,
     225, 248, 152, 17, 105, 217, 142, 148, 155, 30, 135, 233, 206, 85, 40, 223,
     140, 161, 137, 13, 191, 230, 66, 104, 65, 153, 45, 15, 176, 84, 187, 22]"

definition sub_byte :: "u8 \<Rightarrow> u8" where
  "sub_byte b = aes_sbox ! unat b"

definition xtime :: "u8 \<Rightarrow> u8" where
  "xtime b = push_bit 1 b XOR (if bit b 7 then 0x1B else 0)"

fun mix_columns :: "u8 list \<Rightarrow> u8 list" where
  "mix_columns (a # b # c # d # r) =
     (xtime a XOR (xtime b XOR b) XOR c XOR d) # (a XOR xtime b XOR (xtime c XOR c) XOR d)
     # (a XOR b XOR xtime c XOR (xtime d XOR d)) # ((xtime a XOR a) XOR b XOR c XOR xtime d) # mix_columns r"
| "mix_columns _ = []"

text \<open>The state is column-major: byte \<open>i\<close> is row \<open>i mod 4\<close>, column \<open>i div 4\<close>.\<close>

definition shift_rows :: "u8 list \<Rightarrow> u8 list" where
  "shift_rows s = map (\<lambda>i. s ! ((i + 4 * (i mod 4)) mod 16)) [0..<16]"

definition xor_list :: "u8 list \<Rightarrow> u8 list \<Rightarrow> u8 list" where
  "xor_list a b = map (\<lambda>(x, y). x XOR y) (zip a b)"

definition rcon :: "nat \<Rightarrow> u8" where
  "rcon i = (xtime ^^ (i - 1)) 1"

definition expand_step :: "nat \<Rightarrow> u8 list list \<Rightarrow> nat \<Rightarrow> u8 list list" where
  "expand_step nk ws i =
     (let t = ws ! (i - 1);
          t = (if i mod nk = 0 then xor_list (map sub_byte (tl t @ [hd t])) [rcon (i div nk), 0, 0, 0]
               else if nk > 6 \<and> i mod nk = 4 then map sub_byte t else t)
      in ws @ [xor_list (ws ! (i - nk)) t])"

definition key_expansion :: "u8 list \<Rightarrow> u8 list list" where
  "key_expansion key =
     (let nk = length key div 4
      in chunks 16 (concat (foldl (expand_step nk) (chunks 4 key) [nk..<4 * (nk + 7)])))"

definition aes_encrypt :: "u8 list \<Rightarrow> u8 list \<Rightarrow> u8 list" where
  "aes_encrypt key blk =
     (let rk = key_expansion key;
          s = foldl (\<lambda>s k. xor_list (mix_columns (shift_rows (map sub_byte s))) k) (xor_list blk (hd rk)) (butlast (tl rk))
      in xor_list (shift_rows (map sub_byte s)) (last rk))"

definition to_u8 :: "bytes \<Rightarrow> u8 list" where
  "to_u8 = map (\<lambda>c. of_nat (of_char c))"

definition of_u8 :: "u8 list \<Rightarrow> bytes" where
  "of_u8 = map (\<lambda>b. char_of (unat b))"

definition aes_block :: "bytes \<Rightarrow> bytes \<Rightarrow> bytes" where
  "aes_block key blk = of_u8 (aes_encrypt (to_u8 key) (to_u8 blk))"

subsection \<open>Galois/Counter mode\<close>

type_synonym u128 = "128 word"

definition gf_step :: "u128 \<Rightarrow> nat \<Rightarrow> u128 \<times> u128 \<Rightarrow> u128 \<times> u128" where
  "gf_step x i zv =
     (let (z, v) = zv
      in (if bit x (127 - i) then z XOR v else z,
          if bit v 0 then drop_bit 1 v XOR push_bit 120 0xE1 else drop_bit 1 v))"

definition gf_mult :: "u128 \<Rightarrow> u128 \<Rightarrow> u128" where
  "gf_mult x y = fst (fold (gf_step x) [0..<128] (0, y))"

definition pad16 :: "bytes \<Rightarrow> bytes" where
  "pad16 b = b @ replicate ((16 - length b mod 16) mod 16) (CHR 0x00)"

definition ghash :: "u128 \<Rightarrow> bytes \<Rightarrow> u128" where
  "ghash h b = foldl (\<lambda>y blk. gf_mult (y XOR of_nat (unbe blk)) h) 0 (chunks 16 b)"

definition ctr_block :: "bytes \<Rightarrow> nat \<Rightarrow> bytes" where
  "ctr_block nonce i = nonce @ be 4 i"

definition keystream :: "bytes \<Rightarrow> bytes \<Rightarrow> nat \<Rightarrow> bytes" where
  "keystream key nonce n = concat (map (\<lambda>i. aes_block key (ctr_block nonce (i + 2))) [0..<(n + 15) div 16])"

definition gcm_tag :: "bytes \<Rightarrow> bytes \<Rightarrow> bytes \<Rightarrow> bytes \<Rightarrow> bytes" where
  "gcm_tag key nonce aad c =
     (let h = of_nat (unbe (aes_block key (replicate 16 (CHR 0x00))));
          s = ghash h (pad16 aad @ pad16 c @ be 8 (8 * length aad) @ be 8 (8 * length c))
      in xor_bytes (be 16 (unat s)) (aes_block key (ctr_block nonce 1)))"

definition gcm_nonce_size :: nat where "gcm_nonce_size = 12"
definition gcm_overhead :: nat where "gcm_overhead = 16"

text \<open>Go's Seal panics on a plaintext of 64 GiB or more; this limit of the block counter is left out.\<close>

definition gcm_seal :: "bytes \<Rightarrow> bytes \<Rightarrow> bytes \<Rightarrow> bytes \<Rightarrow> bytes" where
  "gcm_seal key nonce pt aad =
     (let c = xor_bytes pt (keystream key nonce (length pt)) in c @ gcm_tag key nonce aad c)"

definition gcm_open :: "bytes \<Rightarrow> bytes \<Rightarrow> bytes \<Rightarrow> bytes \<Rightarrow> bytes option" where
  "gcm_open key nonce ct aad =
     (if length ct < gcm_overhead then None
      else let c = take (length ct - gcm_overhead) ct; tag = drop (length ct - gcm_overhead) ct
           in if gcm_tag key nonce aad c = tag then Some (xor_bytes c (keystream key nonce (length c))) else None)"

subsection \<open>Lengths\<close>

lemma chunks_exact:
  assumes "0 < n" and "length xs = n * m"
  shows "length (chunks n xs) = m \<and> (\<forall>c \<in> set (chunks n xs). length c = n)"
  using assms(2)
proof (induction m arbitrary: xs)
  case 0 then show ?case by (simp add: chunks.simps)
next
  case (Suc m)
  then have ne: "xs \<noteq> []" using assms(1) by auto
  have "length (drop n xs) = n * m" using Suc.prems by simp
  from Suc.IH [OF this] Suc.prems ne assms(1) show ?case by (subst (1 2) chunks.simps) simp
qed

lemma length_xor_list [simp]: "length (xor_list a b) = min (length a) (length b)"
  by (simp add: xor_list_def)

lemma expand_one:
  assumes "length (ws ! (i - 1)) = 4" and "length (ws ! (i - nk)) = 4"
  obtains w where "expand_step nk ws i = ws @ [w]" "length w = 4"
  using assms by (cases "ws ! (i - 1)") (auto simp: expand_step_def Let_def)

lemma expand_steps:
  assumes "0 < nk" and "nk \<le> length ws" and "\<forall>w \<in> set ws. length w = 4"
  shows "length (foldl (expand_step nk) ws [length ws..<n]) = max (length ws) n
    \<and> (\<forall>w \<in> set (foldl (expand_step nk) ws [length ws..<n]). length w = 4)"
proof (induction n)
  case (Suc n)
  show ?case
  proof (cases "length ws \<le> n")
    case True
    let ?f = "foldl (expand_step nk) ws [length ws..<n]"
    have len: "length ?f = n" using Suc.IH True by simp
    have "?f ! (n - 1) \<in> set ?f" "?f ! (n - nk) \<in> set ?f" using len assms(1,2) True by (auto intro!: nth_mem)
    then have l: "length (?f ! (n - 1)) = 4" "length (?f ! (n - nk)) = 4" using Suc.IH by auto
    have "\<forall>w \<in> set ?f. length w = 4" using Suc.IH by blast
    moreover obtain w where "expand_step nk ?f n = ?f @ [w]" "length w = 4" by (rule expand_one [OF l])
    ultimately show ?thesis using True len by simp
  qed (use Suc assms(3) in simp)
qed (use assms(3) in simp)

lemma length_concat_same: "\<forall>w \<in> set ws. length w = n \<Longrightarrow> length (concat ws) = n * length ws"
  by (induction ws) auto

lemma key_expansion_last:
  assumes "length key = 32"
  shows "length (last (key_expansion key)) = 16"
proof -
  have c: "length (chunks 4 key) = 8" "\<forall>w \<in> set (chunks 4 key). length w = 4"
    using chunks_exact [of 4 key 8] assms by auto
  let ?e = "foldl (expand_step 8) (chunks 4 key) [8..<60]"
  have e: "length ?e = 60" "\<forall>w \<in> set ?e. length w = 4"
    using expand_steps [of 8 "chunks 4 key" 60] c by auto
  have "length (concat ?e) = 16 * 15" unfolding length_concat_same [OF e(2)] e(1) by simp
  from chunks_exact [OF _ this] have "length (chunks 16 (concat ?e)) = 15" "\<forall>c \<in> set (chunks 16 (concat ?e)). length c = 16" by auto
  then have "last (chunks 16 (concat ?e)) \<in> set (chunks 16 (concat ?e))" by (intro last_in_set) auto
  moreover have "key_expansion key = chunks 16 (concat ?e)" unfolding key_expansion_def Let_def assms by simp
  ultimately show ?thesis using \<open>\<forall>c \<in> set (chunks 16 (concat ?e)). length c = 16\<close> by metis
qed

lemma length_aes_block: "length key = 32 \<Longrightarrow> length (aes_block key blk) = 16"
  by (simp add: aes_block_def of_u8_def to_u8_def aes_encrypt_def Let_def shift_rows_def key_expansion_last)

lemma length_keystream: "length key = 32 \<Longrightarrow> n \<le> length (keystream key nonce n)"
proof -
  assume "length key = 32"
  then have "length (keystream key nonce n) = (n + 15) div 16 * 16"
    by (simp add: keystream_def length_concat comp_def length_aes_block sum_list_triv)
  then show ?thesis by simp
qed

lemma xor_bytes_take: "xor_bytes a b = xor_bytes a (take (length a) b)"
proof -
  have "zip a b = zip a (take (length a) b)" by (induction a arbitrary: b) (simp, case_tac b, simp_all)
  then show ?thesis by (simp only: xor_bytes_def)
qed

lemma xor_bytes_twice:
  assumes "length a \<le> length b"
  shows "xor_bytes (xor_bytes a b) b = a"
proof -
  have "xor_bytes (xor_bytes a b) b = xor_bytes (xor_bytes a (take (length a) b)) (take (length a) b)"
    using xor_bytes_take [of a b] xor_bytes_take [of "xor_bytes a b" b] assms by (simp add: min_absorb1)
  then show ?thesis using xor_bytes_cancel [of a "take (length a) b"] assms by simp
qed

lemma length_gcm_tag: "length key = 32 \<Longrightarrow> length (gcm_tag key nonce aad c) = 16"
  by (simp add: gcm_tag_def Let_def length_aes_block)

subsection \<open>The laws of the mode\<close>

lemma gcm_open_seal:
  assumes "length key = 32"
  shows "gcm_open key nonce (gcm_seal key nonce pt aad) aad = Some pt"
proof -
  let ?c = "xor_bytes pt (keystream key nonce (length pt))"
  have "length ?c = length pt" using length_keystream [OF assms, of "length pt" nonce] by (simp add: min_absorb1)
  then show ?thesis
    using length_keystream [OF assms, of "length pt" nonce] length_gcm_tag [OF assms, of nonce aad ?c]
    by (simp add: gcm_open_def gcm_seal_def Let_def gcm_overhead_def xor_bytes_twice)
qed

lemma gcm_open_only_sealed:
  assumes "length key = 32" and "gcm_open key nonce ct aad = Some pt"
  shows "ct = gcm_seal key nonce pt aad"
proof -
  let ?c = "take (length ct - 16) ct"
  have o: "\<not> length ct < 16" "gcm_tag key nonce aad ?c = drop (length ct - 16) ct"
    "pt = xor_bytes ?c (keystream key nonce (length ?c))"
    using assms(2) by (auto simp: gcm_open_def gcm_overhead_def Let_def split: if_splits)
  have k: "length ?c \<le> length (keystream key nonce (length ?c))" by (rule length_keystream [OF assms(1)])
  then have len: "length pt = length ?c" by (subst o(3)) (simp only: length_xor_bytes min_absorb1)
  have "xor_bytes pt (keystream key nonce (length pt)) = ?c" unfolding len by (subst o(3)) (rule xor_bytes_twice [OF k])
  then have "gcm_seal key nonce pt aad = ?c @ drop (length ct - 16) ct" by (simp only: gcm_seal_def Let_def o(2))
  then show ?thesis by simp
qed

end
