(* ===== verification/KeyManager.thy ===== *)
theory KeyManager
  imports Aead
begin

text \<open>
  Backup encryption (keymanager/): the additional authenticated data of a backup and its byte form, the
  configuration, and the fallback manager that derives one AES-256-GCM key per namespace from a master key.
  Log messages are left out. The random bytes an operation draws are its argument; the environment of
  \<open>os.Getenv\<close> is a function from names to values.
\<close>

subsection \<open>Additional authenticated data (aad.go)\<close>

record BackupAAD =
  ba_Version :: u32
  ba_NamespaceID :: string
  ba_BackupJobID :: string
  ba_BackupType :: string
  ba_CreatedAtNs :: u64

definition writeStringField :: "bytes \<Rightarrow> string \<Rightarrow> bytes res" where
  "writeStringField buf s =
     (if length s > 65535 then Inl (ErrMsg ''string field exceeds maximum length of 65535 bytes'')
      else Inr (buf @ be 2 (length s) @ s))"

definition Serialize :: "BackupAAD \<Rightarrow> bytes res" where
  "Serialize a =
     (let a = (if ba_Version a = 0 then a\<lparr>ba_Version := 1\<rparr> else a)
      in if ba_NamespaceID a = [] then Inl (ErrMsg ''keymanager: BackupAAD.NamespaceID must not be empty'')
         else if ba_BackupJobID a = [] then Inl (ErrMsg ''keymanager: BackupAAD.BackupJobID must not be empty'')
         else if ba_BackupType a \<noteq> ''full'' \<and> ba_BackupType a \<noteq> ''incremental'' then
           Inl (ErrMsg ''keymanager: BackupAAD.BackupType must be full or incremental'')
         else
           case writeStringField (be 4 (unat (ba_Version a))) (ba_NamespaceID a) of
             Inl e \<Rightarrow> Inl e
           | Inr buf \<Rightarrow>
               (case writeStringField buf (ba_BackupJobID a) of
                  Inl e \<Rightarrow> Inl e
                | Inr buf \<Rightarrow>
                    (case writeStringField buf (ba_BackupType a) of
                       Inl e \<Rightarrow> Inl e
                     | Inr buf \<Rightarrow> Inr (buf @ be 8 (unat (ba_CreatedAtNs a))))))"

subsection \<open>Configuration (config.go)\<close>

record kmConfig =
  kc_NodeURL :: string
  kc_NodeFingerprint :: string
  kc_ClientID :: string
  kc_Env :: string
  kc_MasterKeyHex :: string

definition loadKMConfig :: "(string \<Rightarrow> string) \<Rightarrow> kmConfig" where
  "loadKMConfig getenv =
     (let clientID = getenv ''GOHASEMO_CLIENT_ID'';
          clientID = (if clientID = [] then ''basuyudb-engine'' else clientID)
      in \<lparr>kc_NodeURL = getenv ''GOHASEMO_URL'', kc_NodeFingerprint = getenv ''GOHASEMO_NODE_FINGERPRINT'',
          kc_ClientID = clientID, kc_Env = getenv ''GOHASEMO_ENV'',
          kc_MasterKeyHex = getenv ''BASUYUDB_KEYMANAGER_MASTER_KEY''\<rparr>)"

subsection \<open>The fallback manager (fallback.go)\<close>

record fallbackManager =
  fm_masterKey :: bytes
  fm_namespaces :: "string \<rightharpoonup> bytes"

definition newFallbackManager :: "kmConfig \<Rightarrow> bytes res \<Rightarrow> fallbackManager res" where
  "newFallbackManager cfg rnd =
     (if kc_MasterKeyHex cfg \<noteq> [] then
        (case hex_decode (kc_MasterKeyHex cfg) of
           None \<Rightarrow> Inl (ErrMsg ''keymanager: BASUYUDB_KEYMANAGER_MASTER_KEY is not valid hex'')
         | Some b \<Rightarrow>
             if length b \<noteq> 32 then
               Inl (ErrMsg ''keymanager: BASUYUDB_KEYMANAGER_MASTER_KEY must decode to exactly 32 bytes'')
             else Inr \<lparr>fm_masterKey = b, fm_namespaces = Map.empty\<rparr>)
      else
        case rnd of
          Inl e \<Rightarrow> Inl e
        | Inr b \<Rightarrow> Inr \<lparr>fm_masterKey = b, fm_namespaces = Map.empty\<rparr>)"

definition deriveNamespaceDEK :: "fallbackManager \<Rightarrow> string \<Rightarrow> bytes" where
  "deriveNamespaceDEK m namespaceID = sha256 (fm_masterKey m @ [CHR 0x00] @ namespaceID)"

definition ProvisionNamespace :: "fallbackManager \<Rightarrow> string \<Rightarrow> fallbackManager \<times> go_error option" where
  "ProvisionNamespace m namespaceID =
     (if namespaceID = [] then (m, Some (ErrMsg ''keymanager: ProvisionNamespace: namespaceID must not be empty''))
      else if fm_namespaces m namespaceID = None then
        (m\<lparr>fm_namespaces := (fm_namespaces m)(namespaceID \<mapsto> deriveNamespaceDEK m namespaceID)\<rparr>, None)
      else (m, None))"

definition RevokeNamespace :: "fallbackManager \<Rightarrow> string \<Rightarrow> fallbackManager" where
  "RevokeNamespace m namespaceID = m\<lparr>fm_namespaces := (fm_namespaces m)(namespaceID := None)\<rparr>"

text \<open>Reading a missing key of a Go map yields the zero value, here 32 zero bytes.\<close>

definition getDEK :: "fallbackManager \<Rightarrow> string \<Rightarrow> fallbackManager \<times> bytes res" where
  "getDEK m namespaceID =
     (case fm_namespaces m namespaceID of
        Some dek \<Rightarrow> (m, Inr dek)
      | None \<Rightarrow>
          (case ProvisionNamespace m namespaceID of
             (m, Some e) \<Rightarrow> (m, Inl e)
           | (m, None) \<Rightarrow> (m, Inr (case fm_namespaces m namespaceID of Some dek \<Rightarrow> dek | None \<Rightarrow> replicate 32 (CHR 0x00)))))"

text \<open>\<open>aes.NewCipher\<close> accepts keys of 16, 24 and 32 bytes.\<close>

definition NewCipher :: "bytes \<Rightarrow> bytes res" where
  "NewCipher key = (if length key \<in> {16, 24, 32} then Inr key else Inl (ErrMsg ''crypto/aes: invalid key size''))"

definition EncryptBackup :: "bytes res \<Rightarrow> fallbackManager \<Rightarrow> BackupAAD \<Rightarrow> bytes \<Rightarrow> fallbackManager \<times> bytes res" where
  "EncryptBackup rnd m aad plaintext =
     (case Serialize aad of
        Inl e \<Rightarrow> (m, Inl e)
      | Inr aadBytes \<Rightarrow>
          (case getDEK m (ba_NamespaceID aad) of
             (m, Inl e) \<Rightarrow> (m, Inl e)
           | (m, Inr dek) \<Rightarrow>
               (case NewCipher dek of
                  Inl e \<Rightarrow> (m, Inl e)
                | Inr blk \<Rightarrow>
                    (case rnd of
                       Inl e \<Rightarrow> (m, Inl e)
                     | Inr nonce \<Rightarrow> (m, Inr (nonce @ gcm_seal blk nonce plaintext aadBytes))))))"

definition DecryptBackup :: "fallbackManager \<Rightarrow> BackupAAD \<Rightarrow> bytes \<Rightarrow> fallbackManager \<times> bytes res" where
  "DecryptBackup m aad ciphertext =
     (case Serialize aad of
        Inl e \<Rightarrow> (m, Inl e)
      | Inr aadBytes \<Rightarrow>
          (case getDEK m (ba_NamespaceID aad) of
             (m, Inl e) \<Rightarrow> (m, Inl e)
           | (m, Inr dek) \<Rightarrow>
               (case NewCipher dek of
                  Inl e \<Rightarrow> (m, Inl e)
                | Inr blk \<Rightarrow>
                    if length ciphertext < gcm_nonce_size + gcm_overhead then (m, Inl (ErrMsg ''keymanager: ciphertext too short''))
                    else
                      let nonce = take gcm_nonce_size ciphertext; body = drop gcm_nonce_size ciphertext
                      in case gcm_open blk nonce body aadBytes of
                           None \<Rightarrow> (m, Inl (ErrMsg ''keymanager: authentication failed''))
                         | Some plaintext \<Rightarrow> (m, Inr plaintext))))"

subsection \<open>Selection of the manager (manager.go)\<close>

datatype Mode = ModeGoHaSeMo | ModeFallback

definition manager_New :: "(string \<Rightarrow> string) \<Rightarrow> bytes res \<Rightarrow> fallbackManager option \<times> Mode \<times> go_error option" where
  "manager_New getenv rnd =
     (case newFallbackManager (loadKMConfig getenv) rnd of
        Inl e \<Rightarrow> (None, ModeFallback, Some e)
      | Inr m \<Rightarrow> (Some m, ModeFallback, None))"

subsection \<open>The byte form of the AAD\<close>

definition aad_canon :: "BackupAAD \<Rightarrow> BackupAAD" where
  "aad_canon a = (if ba_Version a = 0 then a\<lparr>ba_Version := 1\<rparr> else a)"

definition aad_valid :: "BackupAAD \<Rightarrow> bool" where
  "aad_valid a \<longleftrightarrow> ba_NamespaceID a \<noteq> [] \<and> ba_BackupJobID a \<noteq> [] \<and> ba_BackupType a \<in> {''full'', ''incremental''}
     \<and> length (ba_NamespaceID a) \<le> 65535 \<and> length (ba_BackupJobID a) \<le> 65535"

lemma Serialize_eq:
  "Serialize a = Inr x \<longleftrightarrow> aad_valid a \<and>
     x = be 4 (unat (ba_Version (aad_canon a))) @ (be 2 (length (ba_NamespaceID a)) @ ba_NamespaceID a)
         @ (be 2 (length (ba_BackupJobID a)) @ ba_BackupJobID a) @ (be 2 (length (ba_BackupType a)) @ ba_BackupType a)
         @ be 8 (unat (ba_CreatedAtNs a))"
proof -
  have s: "ba_NamespaceID (aad_canon a) = ba_NamespaceID a" "ba_BackupJobID (aad_canon a) = ba_BackupJobID a"
    "ba_BackupType (aad_canon a) = ba_BackupType a" "ba_CreatedAtNs (aad_canon a) = ba_CreatedAtNs a"
    by (simp_all add: aad_canon_def)
  show ?thesis
    unfolding Serialize_def aad_canon_def [symmetric] Let_def s writeStringField_def
    by (auto simp: aad_valid_def not_less)
qed

lemma field_inj:
  assumes "(be 2 (length a) @ a) @ x = (be 2 (length b) @ b) @ y" and "length a \<le> 65535" and "length b \<le> 65535"
  shows "a = b \<and> x = y"
proof -
  have "be 2 (length a) = be 2 (length b)" "a @ x = b @ y" using assms(1) by simp_all
  from be_inj [OF this(1)] this(2) show ?thesis using assms(2,3) by simp
qed

lemma Serialize_inj:
  assumes "Serialize a = Inr x" and "Serialize b = Inr x"
  shows "aad_canon a = aad_canon b"
proof -
  let ?v = "\<lambda>a. unat (ba_Version (aad_canon a))"
  have va: "aad_valid a" "aad_valid b" using assms by (simp_all only: Serialize_eq)
  then have l: "length (ba_BackupType a) \<le> 65535" "length (ba_BackupType b) \<le> 65535"
    "length (ba_NamespaceID a) \<le> 65535" "length (ba_NamespaceID b) \<le> 65535"
    "length (ba_BackupJobID a) \<le> 65535" "length (ba_BackupJobID b) \<le> 65535" by (auto simp: aad_valid_def)
  have eq: "be 4 (?v a) @ (be 2 (length (ba_NamespaceID a)) @ ba_NamespaceID a)
         @ (be 2 (length (ba_BackupJobID a)) @ ba_BackupJobID a) @ (be 2 (length (ba_BackupType a)) @ ba_BackupType a)
         @ be 8 (unat (ba_CreatedAtNs a)) =
       be 4 (?v b) @ (be 2 (length (ba_NamespaceID b)) @ ba_NamespaceID b)
         @ (be 2 (length (ba_BackupJobID b)) @ ba_BackupJobID b) @ (be 2 (length (ba_BackupType b)) @ ba_BackupType b)
         @ be 8 (unat (ba_CreatedAtNs b))"
    using assms unfolding Serialize_eq by simp
  then have v: "be 4 (?v a) = be 4 (?v b)" and r: "(be 2 (length (ba_NamespaceID a)) @ ba_NamespaceID a)
         @ (be 2 (length (ba_BackupJobID a)) @ ba_BackupJobID a) @ (be 2 (length (ba_BackupType a)) @ ba_BackupType a)
         @ be 8 (unat (ba_CreatedAtNs a)) =
       (be 2 (length (ba_NamespaceID b)) @ ba_NamespaceID b)
         @ (be 2 (length (ba_BackupJobID b)) @ ba_BackupJobID b) @ (be 2 (length (ba_BackupType b)) @ ba_BackupType b)
         @ be 8 (unat (ba_CreatedAtNs b))"
    by (simp_all only: append_eq_append_conv length_be simp_thms)
  note n = field_inj [OF r l(3,4)]
  note j = field_inj [OF conjunct2 [OF n] l(5,6)]
  note t = field_inj [OF conjunct2 [OF j] l(1,2)]
  have "?v a < 2 ^ 32" "?v b < 2 ^ 32" "unat (ba_CreatedAtNs a) < 2 ^ 64" "unat (ba_CreatedAtNs b) < 2 ^ 64"
    using unsigned_less [of "ba_Version (aad_canon a)"] unsigned_less [of "ba_Version (aad_canon b)"]
      unsigned_less [of "ba_CreatedAtNs a"] unsigned_less [of "ba_CreatedAtNs b"] by simp_all
  then have "ba_Version (aad_canon a) = ba_Version (aad_canon b)" "ba_CreatedAtNs a = ba_CreatedAtNs b"
    using be_inj [OF v] be_inj [OF conjunct2 [OF t]] by (simp_all add: word_unat_eq_iff)
  with n j t show ?thesis by (auto simp: aad_canon_def split: if_splits intro!: BackupAAD.equality)
qed

subsection \<open>Keys and histories of a manager\<close>

text \<open>What callers can do with a manager, in any order.\<close>

datatype km_op =
    KProvision string
  | KRevoke string
  | KEncrypt "bytes res" BackupAAD bytes
  | KDecrypt BackupAAD bytes

fun km_step :: "fallbackManager \<Rightarrow> km_op \<Rightarrow> fallbackManager" where
  "km_step m (KProvision ns) = fst (ProvisionNamespace m ns)"
| "km_step m (KRevoke ns) = RevokeNamespace m ns"
| "km_step m (KEncrypt rnd aad pt) = fst (EncryptBackup rnd m aad pt)"
| "km_step m (KDecrypt aad ct) = fst (DecryptBackup m aad ct)"

definition km_inv :: "bytes \<Rightarrow> fallbackManager \<Rightarrow> bool" where
  "km_inv mk m \<longleftrightarrow> fm_masterKey m = mk \<and> (\<forall>ns k. fm_namespaces m ns = Some k \<longrightarrow> k = deriveNamespaceDEK m ns)"

lemma derive_cong: "fm_masterKey m = fm_masterKey m' \<Longrightarrow> deriveNamespaceDEK m = deriveNamespaceDEK m'"
  by (simp add: deriveNamespaceDEK_def fun_eq_iff)

lemma km_inv_new: "newFallbackManager cfg rnd = Inr m \<Longrightarrow> km_inv (fm_masterKey m) m"
  by (auto simp: newFallbackManager_def km_inv_def split: if_splits option.splits sum.splits)

lemma km_inv_provision: "km_inv mk m \<Longrightarrow> km_inv mk (fst (ProvisionNamespace m ns))"
  by (auto simp: km_inv_def ProvisionNamespace_def deriveNamespaceDEK_def)

lemma getDEK_inv:
  assumes "km_inv mk m" and "ns \<noteq> []"
  shows "snd (getDEK m ns) = Inr (sha256 (mk @ [CHR 0x00] @ ns)) \<and> km_inv mk (fst (getDEK m ns))"
  using assms km_inv_provision [OF assms(1), of ns]
  by (auto simp: getDEK_def ProvisionNamespace_def km_inv_def deriveNamespaceDEK_def split: option.splits)

lemma getDEK_keeps: "km_inv mk m \<Longrightarrow> km_inv mk (fst (getDEK m ns))"
  using km_inv_provision [of mk m ns] by (auto simp: getDEK_def split: option.splits prod.splits)

lemma km_inv_step: "km_inv mk m \<Longrightarrow> km_inv mk (km_step m op)"
proof (induction m op rule: km_step.induct)
  case (2 m ns)
  then show ?case by (auto simp: RevokeNamespace_def km_inv_def deriveNamespaceDEK_def split: if_splits)
next
  case (3 m rnd aad pt)
  then show ?case using getDEK_keeps [of mk m "ba_NamespaceID aad"]
    by (auto simp: EncryptBackup_def split: sum.splits prod.splits)
next
  case (4 m aad ct)
  then show ?case using getDEK_keeps [of mk m "ba_NamespaceID aad"]
    by (auto simp: DecryptBackup_def Let_def split: sum.splits prod.splits option.splits)
qed (simp add: km_inv_provision)

lemma km_inv_run: "km_inv mk m \<Longrightarrow> km_inv mk (foldl km_step m ops)"
  by (induction ops arbitrary: m) (simp_all add: km_inv_step)

lemma crypt_eqs:
  assumes "km_inv mk m" and "Serialize aad = Inr x"
  shows "snd (EncryptBackup (Inr nonce) m aad pt) = Inr (nonce @ gcm_seal (sha256 (mk @ [CHR 0x00] @ ba_NamespaceID aad)) nonce pt x)"
    and "snd (DecryptBackup m aad ct) =
      (if length ct < 28 then Inl (ErrMsg ''keymanager: ciphertext too short'')
       else case gcm_open (sha256 (mk @ [CHR 0x00] @ ba_NamespaceID aad)) (take 12 ct) (drop 12 ct) x of
         None \<Rightarrow> Inl (ErrMsg ''keymanager: authentication failed'') | Some pt \<Rightarrow> Inr pt)"
proof -
  have "ba_NamespaceID aad \<noteq> []" using assms(2) by (simp add: Serialize_eq aad_valid_def)
  from getDEK_inv [OF assms(1) this] obtain m' where
    d: "getDEK m (ba_NamespaceID aad) = (m', Inr (sha256 (mk @ [CHR 0x00] @ ba_NamespaceID aad)))" by (metis prod.collapse)
  show "snd (EncryptBackup (Inr nonce) m aad pt) = Inr (nonce @ gcm_seal (sha256 (mk @ [CHR 0x00] @ ba_NamespaceID aad)) nonce pt x)"
    by (simp add: EncryptBackup_def assms(2) d NewCipher_def)
  show "snd (DecryptBackup m aad ct) =
      (if length ct < 28 then Inl (ErrMsg ''keymanager: ciphertext too short'')
       else case gcm_open (sha256 (mk @ [CHR 0x00] @ ba_NamespaceID aad)) (take 12 ct) (drop 12 ct) x of
         None \<Rightarrow> Inl (ErrMsg ''keymanager: authentication failed'') | Some pt \<Rightarrow> Inr pt)"
    by (simp add: DecryptBackup_def assms(2) d NewCipher_def Let_def gcm_nonce_size_def gcm_overhead_def split: option.split)
qed

subsection \<open>Properties\<close>

text \<open>
  C26. Backups round-trip for the lifetime of the master key: what a manager encrypts decrypts to the
  same bytes under the same authenticated data, after any later operations on the manager, and in any other
  process that has the same master key, with keys cached, evicted or never provisioned.
\<close>

theorem backup_decrypts_later:
  assumes "newFallbackManager cfg rnd = Inr m0" and "newFallbackManager cfg' rnd' = Inr m1"
    and "fm_masterKey m1 = fm_masterKey m0" and "length nonce = 12"
    and "snd (EncryptBackup (Inr nonce) (foldl km_step m0 ops) aad pt) = Inr ct"
  shows "snd (DecryptBackup (foldl km_step m1 ops') aad ct) = Inr pt"
proof -
  let ?mk = "fm_masterKey m0"
  have i0: "km_inv ?mk (foldl km_step m0 ops)" by (rule km_inv_run [OF km_inv_new [OF assms(1)]])
  have i1: "km_inv ?mk (foldl km_step m1 ops')"
    using km_inv_run [OF km_inv_new [OF assms(2)], of ops'] by (simp only: assms(3))
  obtain x where x: "Serialize aad = Inr x"
    using assms(5) by (cases "Serialize aad") (simp_all add: EncryptBackup_def)
  have ct: "ct = nonce @ gcm_seal (sha256 (?mk @ [CHR 0x00] @ ba_NamespaceID aad)) nonce pt x"
    using crypt_eqs(1) [OF i0 x, of nonce pt] assms(5) by simp
  have "length (gcm_seal key nonce pt x) \<ge> 16" if "length key = 32" for key
    using length_gcm_tag [OF that] by (simp add: gcm_seal_def Let_def)
  then have "\<not> length ct < 28" using assms(4) by (simp add: ct not_less)
  then show ?thesis
    using crypt_eqs(2) [OF i1 x, of ct] assms(4) gcm_open_seal [of "sha256 (?mk @ [CHR 0x00] @ ba_NamespaceID aad)"]
    by (simp add: ct)
qed

definition example_aad :: BackupAAD where
  "example_aad = \<lparr>ba_Version = 0, ba_NamespaceID = ''acme'', ba_BackupJobID = ''job-1'', ba_BackupType = ''full'', ba_CreatedAtNs = 7\<rparr>"

definition example_config :: kmConfig where
  "example_config = \<lparr>kc_NodeURL = [], kc_NodeFingerprint = [], kc_ClientID = [], kc_Env = [], kc_MasterKeyHex = []\<rparr>"

definition example_manager :: fallbackManager where
  "example_manager = \<lparr>fm_masterKey = replicate 32 (CHR ''k''), fm_namespaces = Map.empty\<rparr>"

lemma example_manager_new: "newFallbackManager example_config (Inr (replicate 32 (CHR ''k''))) = Inr example_manager"
  by (simp add: newFallbackManager_def example_config_def example_manager_def)

lemma example_encrypts: "\<exists>ct. snd (EncryptBackup (Inr ''123456789012'') example_manager example_aad pt) = Inr ct"
proof -
  obtain x where x: "Serialize example_aad = Inr x" by (simp add: Serialize_eq aad_valid_def example_aad_def)
  from crypt_eqs(1) [OF km_inv_new [OF example_manager_new] x] show ?thesis by metis
qed

theorem backup_decrypts_later_witness:
  "\<exists>ct. snd (EncryptBackup (Inr ''123456789012'') example_manager example_aad ''data'') = Inr ct
     \<and> snd (DecryptBackup (RevokeNamespace example_manager ''acme'') example_aad ct) = Inr ''data''"
proof -
  obtain ct where ct: "snd (EncryptBackup (Inr ''123456789012'') (foldl km_step example_manager []) example_aad ''data'') = Inr ct"
    using example_encrypts by auto
  have "snd (DecryptBackup (foldl km_step example_manager [KRevoke ''acme'']) example_aad ct) = Inr ''data''"
    by (rule backup_decrypts_later [OF example_manager_new example_manager_new _ _ ct]) simp_all
  with ct show ?thesis by auto
qed

text \<open>
  C27. Only genuine backups decrypt: whatever the manager has done before, bytes decrypt under some
  authenticated data only if they are what \<open>EncryptBackup\<close> produces from that plaintext, nonce and
  data on a manager with that master key; and two different authenticated data (version 0 counting as
  version 1) never have the same byte form, so no backup is bound to two of them by its encoding.
\<close>

theorem backup_authentic:
  assumes "newFallbackManager cfg rnd = Inr m0"
    and "snd (DecryptBackup (foldl km_step m0 ops) aad ct) = Inr pt"
  shows "(\<exists>nonce. length nonce = 12 \<and> snd (EncryptBackup (Inr nonce) m0 aad pt) = Inr ct)
       \<and> (Serialize aad = Serialize aad' \<longrightarrow> aad_canon aad = aad_canon aad')"
proof
  have i0: "km_inv (fm_masterKey m0) m0" by (rule km_inv_new [OF assms(1)])
  obtain x where x: "Serialize aad = Inr x"
    using assms(2) by (cases "Serialize aad") (simp_all add: DecryptBackup_def)
  let ?key = "sha256 (fm_masterKey m0 @ [CHR 0x00] @ ba_NamespaceID aad)"
  have d: "\<not> length ct < 28" "gcm_open ?key (take 12 ct) (drop 12 ct) x = Some pt"
    using crypt_eqs(2) [OF km_inv_run [OF i0] x, of ops ct] assms(2) by (auto split: if_splits option.splits)
  have "drop 12 ct = gcm_seal ?key (take 12 ct) pt x" by (rule gcm_open_only_sealed [OF _ d(2)]) simp
  then have "snd (EncryptBackup (Inr (take 12 ct)) m0 aad pt) = Inr ct"
    using crypt_eqs(1) [OF i0 x, of "take 12 ct" pt] append_take_drop_id [of 12 ct] by simp
  then show "\<exists>nonce. length nonce = 12 \<and> snd (EncryptBackup (Inr nonce) m0 aad pt) = Inr ct"
    using d(1) by (intro exI [of _ "take 12 ct"]) simp
  show "Serialize aad = Serialize aad' \<longrightarrow> aad_canon aad = aad_canon aad'"
    using Serialize_inj x by metis
qed

theorem backup_authentic_witness:
  "\<exists>ct nonce. snd (DecryptBackup example_manager example_aad ct) = Inr ''data''
     \<and> length nonce = 12 \<and> snd (EncryptBackup (Inr nonce) example_manager example_aad ''data'') = Inr ct"
proof -
  obtain x where x: "Serialize example_aad = Inr x" by (simp add: Serialize_eq aad_valid_def example_aad_def)
  let ?key = "sha256 (fm_masterKey example_manager @ [CHR 0x00] @ ba_NamespaceID example_aad)"
  let ?ct = "''123456789012'' @ gcm_seal ?key ''123456789012'' ''data'' x"
  have l: "length (gcm_seal ?key ''123456789012'' ''data'' x) \<ge> 16"
    using length_gcm_tag [of ?key] by (simp add: gcm_seal_def Let_def)
  have "snd (DecryptBackup example_manager example_aad ?ct) = Inr ''data''"
    unfolding crypt_eqs(2) [OF km_inv_new [OF example_manager_new] x] using l gcm_open_seal [of ?key]
    by (simp add: less_diff_conv)
  from backup_authentic [OF example_manager_new, of "[]" example_aad ?ct "''data''"] this show ?thesis by auto
qed

end
