(* ===== verification/Roles.thy ===== *)
theory Roles
  imports Scram Aead "HOL-Library.AList"
begin

text \<open>
  The store of local roles (auth/roles.go) and its file (auth/rolestore_persist.go).

  The file system is a map from paths to contents; a call to package \<open>os\<close> may fail, and a failed
  write leaves any prefix of the data in the temporary file. JSON is a pair of functions on the document:
  \<open>json.Marshal\<close> and \<open>json.Unmarshal\<close>, whose round trip the properties name. A Go map is an
  association list, since saving walks through it.
\<close>

subsection \<open>Persisted form (rolestore_persist.go)\<close>

record persistedVerifier =
  pv_Salt :: string
  pv_Iterations :: int
  pv_StoredKey :: string
  pv_ServerKey :: string

type_synonym rolesDoc = "(string \<times> persistedVerifier) list"
type_synonym role_map = "(string \<times> SCRAMVerifier) list"

record persistence =
  ps_path :: string
  ps_encKey :: bytes

definition fromVerifier :: "SCRAMVerifier \<Rightarrow> persistedVerifier" where
  "fromVerifier v =
     \<lparr>pv_Salt = b64_encode (sv_Salt v), pv_Iterations = sv_Iterations v,
      pv_StoredKey = b64_encode (sv_StoredKey v), pv_ServerKey = b64_encode (sv_ServerKey v)\<rparr>"

definition toVerifier :: "persistedVerifier \<Rightarrow> SCRAMVerifier res" where
  "toVerifier pv =
     (case b64_decode (pv_Salt pv) of
        None \<Rightarrow> Inl (ErrMsg ''salt'')
      | Some salt \<Rightarrow>
          (case b64_decode (pv_StoredKey pv) of
             None \<Rightarrow> Inl (ErrMsg ''stored_key'')
           | Some storedKey \<Rightarrow>
               (case b64_decode (pv_ServerKey pv) of
                  None \<Rightarrow> Inl (ErrMsg ''server_key'')
                | Some serverKey \<Rightarrow>
                    Inr \<lparr>sv_Salt = salt, sv_Iterations = pv_Iterations pv, sv_StoredKey = storedKey, sv_ServerKey = serverKey\<rparr>)))"

definition deriveAESKey :: "bytes \<Rightarrow> bytes" where
  "deriveAESKey key = (if length key = 32 then key else sha256 key)"

definition ps_encrypt :: "bytes res \<Rightarrow> persistence \<Rightarrow> bytes \<Rightarrow> bytes res" where
  "ps_encrypt rnd p plaintext =
     (case rnd of
        Inl e \<Rightarrow> Inl e
      | Inr nonce \<Rightarrow> Inr (nonce @ gcm_seal (deriveAESKey (ps_encKey p)) nonce plaintext []))"

definition ps_decrypt :: "persistence \<Rightarrow> bytes \<Rightarrow> bytes res" where
  "ps_decrypt p blob =
     (if length blob < gcm_nonce_size then Inl (ErrMsg ''auth: roles file truncated (shorter than nonce)'')
      else case gcm_open (deriveAESKey (ps_encKey p)) (take gcm_nonce_size blob) (drop gcm_nonce_size blob) [] of
             None \<Rightarrow> Inl (ErrMsg ''auth: roles file decryption failed (wrong key or corrupt)'')
           | Some pt \<Rightarrow> Inr pt)"

definition ps_encrypted :: "persistence \<Rightarrow> bool" where
  "ps_encrypted p \<longleftrightarrow> length (ps_encKey p) > 0"

type_synonym file_system = "string \<rightharpoonup> bytes"

text \<open>What goes wrong in one save or load; \<open>io_write\<close> also says how much was written.\<close>

record io_faults =
  io_read :: "go_error option"
  io_mkdir :: "go_error option"
  io_create :: "go_error option"
  io_write :: "(nat \<times> go_error) option"
  io_sync :: "go_error option"
  io_close :: "go_error option"
  io_chmod :: "go_error option"
  io_rename :: "go_error option"
  io_remove :: "go_error option"

type_synonym 'd json = "('d \<Rightarrow> bytes res) \<times> (bytes \<Rightarrow> 'd res)"

primrec load_loop :: "rolesDoc \<Rightarrow> role_map res" where
  "load_loop [] = Inr []"
| "load_loop (r # rs) =
     (case toVerifier (snd r) of
        Inl e \<Rightarrow> Inl e
      | Inr v \<Rightarrow> (case load_loop rs of Inl e \<Rightarrow> Inl e | Inr out \<Rightarrow> Inr (AList.update (fst r) v out)))"

definition ps_load :: "rolesDoc json \<Rightarrow> io_faults \<Rightarrow> file_system \<Rightarrow> persistence \<Rightarrow> role_map res" where
  "ps_load js io fs p =
     (case io_read io of
        Some e \<Rightarrow> Inl e
      | None \<Rightarrow>
          (case fs (ps_path p) of
             None \<Rightarrow> Inr []
           | Some data \<Rightarrow>
               if data = [] then Inr []
               else
                 case (if ps_encrypted p then ps_decrypt p data else Inr data) of
                   Inl e \<Rightarrow> Inl e
                 | Inr plain \<Rightarrow> (case snd js plain of Inl e \<Rightarrow> Inl e | Inr doc \<Rightarrow> load_loop doc)))"

text \<open>Writing the temporary file and renaming it into place, up to the first failure.\<close>

definition write_temp :: "io_faults \<Rightarrow> string \<Rightarrow> string \<Rightarrow> bytes \<Rightarrow> file_system \<Rightarrow> file_system \<times> go_error option" where
  "write_temp io tmp path out fs =
     (case io_write io of
        Some (n, e) \<Rightarrow> (fs(tmp \<mapsto> take n out), Some e)
      | None \<Rightarrow>
          (let fs = fs(tmp \<mapsto> out)
           in case io_sync io of Some e \<Rightarrow> (fs, Some e)
              | None \<Rightarrow> (case io_close io of Some e \<Rightarrow> (fs, Some e)
              | None \<Rightarrow> (case io_chmod io of Some e \<Rightarrow> (fs, Some e)
              | None \<Rightarrow> (case io_rename io of Some e \<Rightarrow> (fs, Some e)
              | None \<Rightarrow> (fs(path \<mapsto> out, tmp := None), None))))))"

definition ps_save ::
  "rolesDoc json \<Rightarrow> io_faults \<Rightarrow> string \<Rightarrow> bytes res \<Rightarrow> file_system \<Rightarrow> persistence \<Rightarrow> role_map \<Rightarrow> file_system \<times> go_error option" where
  "ps_save js io tmp rnd fs p roles =
     (case fst js (map (\<lambda>(name, v). (name, fromVerifier v)) roles) of
        Inl e \<Rightarrow> (fs, Some e)
      | Inr plain \<Rightarrow>
          (case (if ps_encrypted p then ps_encrypt rnd p plain else Inr plain) of
             Inl e \<Rightarrow> (fs, Some e)
           | Inr out \<Rightarrow>
               (case io_mkdir io of Some e \<Rightarrow> (fs, Some e)
                | None \<Rightarrow> (case io_create io of Some e \<Rightarrow> (fs, Some e)
                | None \<Rightarrow>
                    (case write_temp io tmp (ps_path p) out (fs(tmp \<mapsto> [])) of
                       (fs, err) \<Rightarrow> (if io_remove io = None then fs(tmp := None) else fs, err))))))"

subsection \<open>The role store (roles.go)\<close>

record RoleStore =
  rs_roles :: role_map
  rs_persist :: "persistence option"

definition NewRoleStore :: RoleStore where
  "NewRoleStore = \<lparr>rs_roles = [], rs_persist = None\<rparr>"

definition NewPersistentRoleStore :: "rolesDoc json \<Rightarrow> io_faults \<Rightarrow> file_system \<Rightarrow> string \<Rightarrow> bytes \<Rightarrow> RoleStore res" where
  "NewPersistentRoleStore js io fs path encKey =
     (let p = \<lparr>ps_path = path, ps_encKey = encKey\<rparr>
      in case ps_load js io fs p of
           Inl e \<Rightarrow> Inl e
         | Inr loaded \<Rightarrow> Inr \<lparr>rs_roles = loaded, rs_persist = Some p\<rparr>)"

text \<open>The outside world of one operation: faults, name of the temporary file, random bytes.\<close>

type_synonym role_io = "io_faults \<times> string \<times> bytes res"

definition saveLocked :: "rolesDoc json \<Rightarrow> role_io \<Rightarrow> file_system \<Rightarrow> RoleStore \<Rightarrow> file_system \<times> go_error option" where
  "saveLocked js w fs s =
     (case rs_persist s of
        None \<Rightarrow> (fs, None)
      | Some p \<Rightarrow> (case w of (io, tmp, rnd) \<Rightarrow> ps_save js io tmp rnd fs p (rs_roles s)))"

definition normaliseRole :: "string \<Rightarrow> string" where
  "normaliseRole name = trimSpace name"

definition UpsertVerifier ::
  "rolesDoc json \<Rightarrow> role_io \<Rightarrow> file_system \<Rightarrow> RoleStore \<Rightarrow> string \<Rightarrow> SCRAMVerifier \<Rightarrow> RoleStore \<times> file_system \<times> go_error option" where
  "UpsertVerifier js w fs s username v =
     (let s = s\<lparr>rs_roles := AList.update (normaliseRole username) v (rs_roles s)\<rparr> in (s, saveLocked js w fs s))"

definition UpsertPassword ::
  "kdf \<Rightarrow> bytes res \<Rightarrow> rolesDoc json \<Rightarrow> role_io \<Rightarrow> file_system \<Rightarrow> RoleStore \<Rightarrow> string \<Rightarrow> string \<Rightarrow> RoleStore \<times> file_system \<times> go_error option" where
  "UpsertPassword pbkdf2 salt js w fs s username password =
     (case NewSCRAMVerifier pbkdf2 salt password of
        Inl e \<Rightarrow> (s, fs, Some e)
      | Inr v \<Rightarrow>
          (let s = s\<lparr>rs_roles := AList.update (normaliseRole username) v (rs_roles s)\<rparr> in (s, saveLocked js w fs s)))"

definition rs_Lookup :: "RoleStore \<Rightarrow> string \<Rightarrow> SCRAMVerifier option" where
  "rs_Lookup s username = map_of (rs_roles s) (normaliseRole username)"

definition rs_Has :: "RoleStore \<Rightarrow> string \<Rightarrow> bool" where
  "rs_Has s username \<longleftrightarrow> rs_Lookup s username \<noteq> None"

definition rs_Delete :: "rolesDoc json \<Rightarrow> role_io \<Rightarrow> file_system \<Rightarrow> RoleStore \<Rightarrow> string \<Rightarrow> RoleStore \<times> file_system \<times> go_error option" where
  "rs_Delete js w fs s username =
     (let s = s\<lparr>rs_roles := AList.delete (normaliseRole username) (rs_roles s)\<rparr> in (s, saveLocked js w fs s))"

subsection \<open>Saving and loading\<close>

lemma to_fromVerifier [simp]: "toVerifier (fromVerifier v) = Inr v"
  by (simp add: toVerifier_def fromVerifier_def)

lemma load_loop_decodes:
  assumes "\<forall>pv \<in> ran (map_of doc). \<exists>v. pv = fromVerifier v" and "distinct (map fst doc)"
  shows "\<exists>out. load_loop doc = Inr out \<and> map_of out = (\<lambda>n. map_option (\<lambda>pv. projr (toVerifier pv)) (map_of doc n))"
  using assms
proof (induction doc)
  case (Cons r doc)
  obtain n pv where r: "r = (n, pv)" by (cases r)
  have "map_of (r # doc) n = Some pv" by (simp add: r)
  then obtain v where v: "pv = fromVerifier v" using Cons.prems(1) ranI by metis
  have "ran (map_of doc) \<subseteq> ran (map_of (r # doc))" using Cons.prems(2)
    by (auto simp: r ran_def dom_map_of_conv_image_fst)
  then obtain out where out: "load_loop doc = Inr out" "map_of out = (\<lambda>n. map_option (\<lambda>pv. projr (toVerifier pv)) (map_of doc n))"
    using Cons.IH [OF _ distinct_tl [OF Cons.prems(2), simplified]] Cons.prems(1) by blast
  show ?case using out by (auto simp: r v update_conv fun_eq_iff)
qed simp

text \<open>
  The documented round trip of the JSON package on the document: keys and values come back. It holds for role names
  that are valid UTF-8; the package replaces other bytes by U+FFFD.
\<close>

definition json_ok :: "rolesDoc json \<Rightarrow> bool" where
  "json_ok js \<longleftrightarrow> (\<forall>d b. distinct (map fst d) \<longrightarrow> fst js d = Inr b \<longrightarrow>
     b \<noteq> [] \<and> (\<exists>d'. snd js b = Inr d' \<and> distinct (map fst d') \<and> map_of d' = map_of d))"

lemma write_temp_file:
  assumes "write_temp io tmp path out fs = (fs', err)" and "tmp \<noteq> path"
  shows "fs' path = (if err = None then Some out else fs path)" and "q \<noteq> path \<Longrightarrow> q \<noteq> tmp \<Longrightarrow> fs' q = fs q"
  using assms by (auto simp: write_temp_def Let_def split: option.splits if_splits)

lemma save_cases:
  assumes "ps_save js io tmp rnd fs p roles = (fs', err)"
  obtains "fs' = fs" "err \<noteq> None"
  | plain out x where "fst js (map (\<lambda>(name, v). (name, fromVerifier v)) roles) = Inr plain"
      "(if ps_encrypted p then ps_encrypt rnd p plain else Inr plain) = Inr out"
      "write_temp io tmp (ps_path p) out (fs(tmp \<mapsto> [])) = (x, err)" "fs' = (if io_remove io = None then x(tmp := None) else x)"
proof -
  let ?doc = "map (\<lambda>(name, v). (name, fromVerifier v)) roles"
  let ?enc = "\<lambda>plain. if ps_encrypted p then ps_encrypt rnd p plain else Inr plain"
  show ?thesis
  proof (cases "fst js ?doc")
    case (Inr plain)
    show ?thesis
    proof (cases "?enc plain")
      case enc: (Inr out)
      obtain x e where w: "write_temp io tmp (ps_path p) out (fs(tmp \<mapsto> [])) = (x, e)" by fastforce
      show ?thesis
      proof (cases "io_mkdir io = None \<and> io_create io = None")
        case True
        then have "err = e" "fs' = (if io_remove io = None then x(tmp := None) else x)"
          using assms unfolding ps_save_def Inr by (simp_all add: enc w)
        then show ?thesis using that(2) [OF Inr enc] w by simp
      next
        case False
        then have "fs' = fs \<and> err \<noteq> None" using assms unfolding ps_save_def Inr
          by (cases "io_mkdir io"; cases "io_create io") (simp_all add: enc, (metis option.distinct(1))+)
        then show ?thesis using that(1) by blast
      qed
    next
      case (Inl e)
      then have "fs' = fs \<and> err = Some e" using assms unfolding ps_save_def \<open>fst js ?doc = Inr plain\<close> by auto
      then show ?thesis using that(1) by blast
    qed
  next
    case (Inl e)
    then have "fs' = fs \<and> err = Some e" using assms by (auto simp: ps_save_def)
    then show ?thesis using that(1) by blast
  qed
qed

lemma save_file:
  assumes "ps_save js io tmp rnd fs p roles = (fs', err)" and "tmp \<noteq> ps_path p"
  shows "err \<noteq> None \<Longrightarrow> fs' (ps_path p) = fs (ps_path p)"
    and "q \<noteq> ps_path p \<Longrightarrow> q \<noteq> tmp \<Longrightarrow> fs' q = fs q"
    and "err = None \<Longrightarrow> \<exists>plain out. fst js (map (\<lambda>(name, v). (name, fromVerifier v)) roles) = Inr plain
      \<and> (if ps_encrypted p then ps_encrypt rnd p plain else Inr plain) = Inr out \<and> fs' (ps_path p) = Some out"
proof -
  have "(err \<noteq> None \<longrightarrow> fs' (ps_path p) = fs (ps_path p)) \<and> (q \<noteq> ps_path p \<longrightarrow> q \<noteq> tmp \<longrightarrow> fs' q = fs q)
    \<and> (err = None \<longrightarrow> (\<exists>plain out. fst js (map (\<lambda>(name, v). (name, fromVerifier v)) roles) = Inr plain
      \<and> (if ps_encrypted p then ps_encrypt rnd p plain else Inr plain) = Inr out \<and> fs' (ps_path p) = Some out))"
    using assms(1)
  proof (cases rule: save_cases)
    case (2 plain out x)
    have "fs' (ps_path p) = x (ps_path p)" "q \<noteq> tmp \<Longrightarrow> fs' q = x q" using 2(4) assms(2) by auto
    moreover note write_temp_file [OF 2(3) assms(2)]
    ultimately show ?thesis using 2(1,2) assms(2) by auto
  qed auto
  then show "err \<noteq> None \<Longrightarrow> fs' (ps_path p) = fs (ps_path p)"
    and "q \<noteq> ps_path p \<Longrightarrow> q \<noteq> tmp \<Longrightarrow> fs' q = fs q"
    and "err = None \<Longrightarrow> \<exists>plain out. fst js (map (\<lambda>(name, v). (name, fromVerifier v)) roles) = Inr plain
      \<and> (if ps_encrypted p then ps_encrypt rnd p plain else Inr plain) = Inr out \<and> fs' (ps_path p) = Some out" by blast+
qed

lemma decrypt_encrypt:
  assumes "ps_encrypt rnd p plain = Inr out" and "\<forall>n. rnd = Inr n \<longrightarrow> length n = 12"
  shows "ps_decrypt p out = Inr plain \<and> out \<noteq> []"
proof -
  obtain n where n: "rnd = Inr n" "length n = 12" "out = n @ gcm_seal (deriveAESKey (ps_encKey p)) n plain []"
    using assms by (auto simp: ps_encrypt_def split: sum.splits)
  have "length (deriveAESKey k) = 32" for k by (simp add: deriveAESKey_def)
  from gcm_open_seal [OF this] n show ?thesis
    by (auto simp: ps_decrypt_def gcm_nonce_size_def)
qed

lemma load_saved:
  assumes "json_ok js" and "ps_save js io tmp rnd fs p roles = (fs', None)" and "tmp \<noteq> ps_path p"
    and "\<forall>n. rnd = Inr n \<longrightarrow> length n = 12" and "io_read io' = None" and "distinct (map fst roles)"
  shows "\<exists>out. ps_load js io' fs' p = Inr out \<and> map_of out = map_of roles"
proof -
  let ?doc = "map (\<lambda>(name, v). (name, fromVerifier v)) roles"
  obtain plain out where f: "fst js ?doc = Inr plain"
    "(if ps_encrypted p then ps_encrypt rnd p plain else Inr plain) = Inr out" "fs' (ps_path p) = Some out"
    using save_file(3) [OF assms(2,3)] by blast
  have dd: "distinct (map fst ?doc)" using assms(6) by (simp add: comp_def case_prod_beta)
  then obtain d' where d: "plain \<noteq> []" "snd js plain = Inr d'" "distinct (map fst d')" "map_of d' = map_of ?doc"
    using assms(1) f(1) unfolding json_ok_def by blast
  have md: "map_of ?doc = (\<lambda>n. map_option fromVerifier (map_of roles n))" by (simp add: map_of_map fun_eq_iff)
  have "\<forall>pv \<in> ran (map_of d'). \<exists>v. pv = fromVerifier v" by (auto simp: d(4) md ran_def)
  from load_loop_decodes [OF this d(3)] obtain res where
    r: "load_loop d' = Inr res" "map_of res = (\<lambda>n. map_option (\<lambda>pv. projr (toVerifier pv)) (map_of d' n))" by blast
  have "map_of res = map_of roles" by (simp add: r(2) d(4) md option.map_comp comp_def option.map_ident)
  moreover have "ps_load js io' fs' p = Inr res"
    using f d(1,2) r(1) assms(5) decrypt_encrypt [OF _ assms(4), of p plain out]
    by (auto simp: ps_load_def split: if_splits)
  ultimately show ?thesis by blast
qed

subsection \<open>Operations on a persistent store\<close>

datatype role_op =
    RUpsert string SCRAMVerifier
  | RPassword "bytes res" string string
  | RDelete string

fun role_step :: "kdf \<Rightarrow> rolesDoc json \<Rightarrow> role_io \<Rightarrow> file_system \<Rightarrow> RoleStore \<Rightarrow> role_op \<Rightarrow> RoleStore \<times> file_system \<times> go_error option" where
  "role_step kd js w fs s (RUpsert u v) = UpsertVerifier js w fs s u v"
| "role_step kd js w fs s (RPassword salt u pw) = UpsertPassword kd salt js w fs s u pw"
| "role_step kd js w fs s (RDelete u) = rs_Delete js w fs s u"

lemma role_step_saves:
  assumes "role_step kd js w fs s op = (s', fs', err)" and "distinct (map fst (rs_roles s))"
  shows "distinct (map fst (rs_roles s')) \<and> rs_persist s' = rs_persist s
    \<and> ((fs', err) = saveLocked js w fs s' \<or> (fs' = fs \<and> err \<noteq> None))"
  using assms
  by (cases op) (auto simp: UpsertVerifier_def UpsertPassword_def rs_Delete_def Let_def distinct_update distinct_delete
      saveLocked_def split: sum.splits option.splits)

text \<open>
  C25. A role change is durable or leaves the file as it was: when the operation reports success, a
  server restarted on the file finds for every role exactly the verifier the running store has; when it
  reports an error, the file is untouched, even if the write stopped half way; no other file but the
  temporary one is touched either way. With or without encryption of the file.
\<close>

theorem role_change_durable_or_undone:
  assumes "json_ok js" and "rs_persist s = Some \<lparr>ps_path = path, ps_encKey = key\<rparr>" and "distinct (map fst (rs_roles s))"
    and "tmp \<noteq> path" and "\<forall>n. rnd = Inr n \<longrightarrow> length n = 12" and "io_read io' = None"
    and "role_step kd js (io, tmp, rnd) fs s op = (s', fs', err)"
  shows "(if err = None
          then \<exists>s2. NewPersistentRoleStore js io' fs' path key = Inr s2 \<and> (\<forall>u. rs_Lookup s2 u = rs_Lookup s' u)
          else fs' path = fs path)
       \<and> (\<forall>q. q \<noteq> path \<and> q \<noteq> tmp \<longrightarrow> fs' q = fs q)"
proof -
  let ?p = "\<lparr>ps_path = path, ps_encKey = key\<rparr>"
  have st: "distinct (map fst (rs_roles s'))" "rs_persist s' = Some ?p"
    "(fs', err) = saveLocked js (io, tmp, rnd) fs s' \<or> (fs' = fs \<and> err \<noteq> None)"
    using role_step_saves [OF assms(7,3)] assms(2) by auto
  show ?thesis
  proof (cases "fs' = fs \<and> err \<noteq> None")
    case False
    then have sv: "ps_save js io tmp rnd fs ?p (rs_roles s') = (fs', err)" using st(2,3) by (auto simp: saveLocked_def)
    note f = save_file [OF sv]
    show ?thesis
    proof (cases err)
      case None
      obtain out where "ps_load js io' fs' ?p = Inr out" "map_of out = map_of (rs_roles s')"
        using load_saved [OF assms(1) sv [unfolded None] _ assms(5,6) st(1)] assms(4) by auto
      then show ?thesis using f(2) assms(4) None by (simp add: NewPersistentRoleStore_def rs_Lookup_def)
    qed (use f assms(4) in auto)
  qed auto
qed

text \<open>A codec that knows one document, and a connection without faults.\<close>

definition one_doc :: "rolesDoc \<Rightarrow> rolesDoc json" where
  "one_doc d = (\<lambda>x. if x = d then Inr ''doc'' else Inl (ErrMsg ''json''), \<lambda>_. Inr d)"

lemma one_doc_ok: "distinct (map fst d) \<Longrightarrow> json_ok (one_doc d)"
  by (auto simp: json_ok_def one_doc_def split: if_splits)

definition no_faults :: io_faults where
  "no_faults = \<lparr>io_read = None, io_mkdir = None, io_create = None, io_write = None, io_sync = None, io_close = None,
     io_chmod = None, io_rename = None, io_remove = None\<rparr>"

theorem role_change_durable_or_undone_witness:
  "let v = deriveVerifier (\<lambda>p salt _ _. hmac_sha256 p salt) ''secret'' ''salt'' 4096;
       js = one_doc [(''alice'', fromVerifier v)];
       s = \<lparr>rs_roles = [], rs_persist = Some \<lparr>ps_path = ''roles.json'', ps_encKey = ''key''\<rparr>\<rparr>;
       (s', fs', err) = role_step (\<lambda>p salt _ _. hmac_sha256 p salt) js (no_faults, ''.roles-1.tmp'', Inr ''123456789012'') Map.empty s (RUpsert '' alice'' v)
   in err = None \<and> (\<exists>s2. NewPersistentRoleStore js no_faults fs' ''roles.json'' ''key'' = Inr s2 \<and> rs_Lookup s2 ''alice'' = Some v)"
proof -
  define v where "v = deriveVerifier (\<lambda>p salt _ _. hmac_sha256 p salt) ''secret'' ''salt'' 4096"
  define js where "js = one_doc [(''alice'', fromVerifier v)]"
  define s where "s = \<lparr>rs_roles = [], rs_persist = Some \<lparr>ps_path = ''roles.json'', ps_encKey = ''key''\<rparr>\<rparr>"
  let ?r = "role_step (\<lambda>p salt _ _. hmac_sha256 p salt) js (no_faults, ''.roles-1.tmp'', Inr ''123456789012'') Map.empty s (RUpsert '' alice'' v)"
  obtain s' fs' err where r: "?r = (s', fs', err)" using prod_cases3 by blast
  have n: "normaliseRole '' alice'' = ''alice''" "normaliseRole ''alice'' = ''alice''"
    by (simp_all add: normaliseRole_def trimSpace_def is_space_def)
  have e: "err = None" "rs_roles s' = [(''alice'', v)]"
    using r by (auto simp: UpsertVerifier_def Let_def n s_def js_def saveLocked_def ps_save_def one_doc_def no_faults_def
        ps_encrypted_def ps_encrypt_def write_temp_def split: prod.splits)
  have "json_ok js" by (simp add: js_def one_doc_ok)
  have "(if err = None
          then \<exists>s2. NewPersistentRoleStore js no_faults fs' ''roles.json'' ''key'' = Inr s2 \<and> (\<forall>u. rs_Lookup s2 u = rs_Lookup s' u)
          else fs' ''roles.json'' = Map.empty ''roles.json'')
       \<and> (\<forall>q. q \<noteq> ''roles.json'' \<and> q \<noteq> ''.roles-1.tmp'' \<longrightarrow> fs' q = Map.empty q)"
    by (rule role_change_durable_or_undone [OF \<open>json_ok js\<close> _ _ _ _ _ r]) (simp_all add: s_def no_faults_def)
  moreover have "rs_Lookup s' ''alice'' = Some v" by (simp add: rs_Lookup_def n e)
  ultimately have "\<exists>s2. NewPersistentRoleStore js no_faults fs' ''roles.json'' ''key'' = Inr s2 \<and> rs_Lookup s2 ''alice'' = Some v"
    using e(1) by (simp only: if_True simp_thms) metis
  with r e show ?thesis by (simp add: v_def [symmetric] js_def [symmetric] s_def [symmetric] Let_def)
qed

end
