(* ===== verification/Lexer.thy ===== *)
theory Lexer
  imports GoLib
begin

text \<open>
  The hand-written scanner of the SQL parser (parser/lexer.go). A token carries the value the scanner
  leaves in \<open>lval\<close>; the token of a keyword is named by its constant. Positions are byte offsets
  into the source; \<open>pos\<close> can pass the end of the source after an unterminated block comment, as
  in the code. The tables that goyacc generates from the grammar are not modelled.
\<close>

subsection \<open>Tokens and keywords\<close>

datatype token =
    EOF
  | SCONST string
  | IDENT string
  | ICONST string
  | FCONST string
  | PARAM u64
  | KW string string
  | NOT_DEFERRABLE
  | JSON_OP string
  | VECTOR_OP string
  | COMPARE_OP string
  | CONTAIN_OP string
  | ADD_OP string
  | MUL_OP string
  | POW_OP string
  | STAR string
  | TYPECAST
  | Punct char

text \<open>The keyword table; \<open>None\<close> stands for the entry whose token is not positive.\<close>

definition keyword_table :: "(string \<times> string option) list" where
  "keyword_table =
    [(''SELECT'', Some ''SELECT''), (''FROM'', Some ''FROM''), (''WHERE'', Some ''WHERE''), (''AS'', Some ''AS''),
     (''JOIN'', Some ''JOIN''), (''INNER'', Some ''INNER''), (''LEFT'', Some ''LEFT''), (''RIGHT'', Some ''RIGHT''),
     (''FULL'', Some ''FULL''), (''CROSS'', Some ''CROSS''), (''ON'', Some ''ON''), (''USING'', Some ''USING''),
     (''AND'', Some ''AND''), (''OR'', Some ''OR''), (''NOT'', Some ''NOT''), (''NULL'', Some ''NULL''),
     (''IS'', Some ''IS''), (''ORDER'', Some ''ORDER''), (''BY'', Some ''BY''), (''ASC'', Some ''ASC''),
     (''DESC'', Some ''DESC''), (''GROUP'', Some ''GROUP''), (''HAVING'', Some ''HAVING''),
     (''LIMIT'', Some ''LIMIT''), (''OFFSET'', Some ''OFFSET''), (''INSERT'', Some ''INSERT''),
     (''INTO'', Some ''INTO''), (''VALUES'', Some ''VALUES''), (''UPDATE'', Some ''UPDATE''),
     (''SET'', Some ''SET''), (''DELETE'', Some ''DELETE''), (''CREATE'', Some ''CREATE''),
     (''TABLE'', Some ''TABLE''), (''PRIMARY'', Some ''PRIMARY''), (''KEY'', Some ''KEY''),
     (''INDEX'', Some ''INDEX''), (''UNIQUE'', Some ''UNIQUE''), (''BRANCH'', Some ''BRANCH''),
     (''MERGE'', Some ''MERGE''), (''DROP'', Some ''DROP''), (''INTO_BRANCH'', None), (''TRUE'', Some ''TRUE''),
     (''FALSE'', Some ''FALSE''), (''DISTINCT'', Some ''DISTINCT''), (''ALTER'', Some ''ALTER''),
     (''TRUNCATE'', Some ''TRUNCATE''), (''COLUMN'', Some ''COLUMN''), (''ADD'', Some ''ADD''),
     (''IF'', Some ''IF''), (''EXISTS'', Some ''EXISTS''), (''IN'', Some ''IN''),
     (''RETURNING'', Some ''RETURNING''), (''CONFLICT'', Some ''CONFLICT''), (''DO'', Some ''DO''),
     (''NOTHING'', Some ''NOTHING''), (''DEFAULT'', Some ''DEFAULT''), (''CASE'', Some ''CASE''),
     (''WHEN'', Some ''WHEN''), (''THEN'', Some ''THEN''), (''ELSE'', Some ''ELSE''), (''END'', Some ''END''),
     (''UNION'', Some ''UNION''), (''INTERSECT'', Some ''INTERSECT''), (''EXCEPT'', Some ''EXCEPT''),
     (''ALL'', Some ''ALL''), (''REFERENCES'', Some ''REFERENCES''), (''CHECK'', Some ''CHECK''),
     (''FOREIGN'', Some ''FOREIGN''), (''WITH'', Some ''WITH''), (''OVER'', Some ''OVER''),
     (''PARTITION'', Some ''PARTITION''), (''VIEW'', Some ''VIEW''), (''REPLACE'', Some ''REPLACE''),
     (''COPY'', Some ''COPY''), (''TO'', Some ''TO''), (''STDIN'', Some ''STDIN''), (''STDOUT'', Some ''STDOUT''),
     (''FORMAT'', Some ''FORMAT''), (''DELIMITER'', Some ''DELIMITER''), (''HEADER'', Some ''HEADER''),
     (''SHOW'', Some ''SHOW''), (''CAST'', Some ''CAST''), (''SAVEPOINT'', Some ''SAVEPOINT''),
     (''RELEASE'', Some ''RELEASE''), (''LATERAL'', Some ''LATERAL''), (''SEQUENCE'', Some ''SEQUENCE''),
     (''EXTENSION'', Some ''EXTENSION''), (''SCHEMA'', Some ''SCHEMA''), (''LISTEN'', Some ''LISTEN''),
     (''NOTIFY'', Some ''NOTIFY''), (''UNLISTEN'', Some ''UNLISTEN''), (''ENUM'', Some ''ENUM''),
     (''TYPE'', Some ''TYPE''), (''FOR'', Some ''FOR''), (''SHARE'', Some ''SHARE''), (''NOWAIT'', Some ''NOWAIT''),
     (''SKIP'', Some ''SKIP''), (''LOCKED'', Some ''LOCKED''), (''START'', Some ''START''),
     (''INCREMENT'', Some ''INCREMENT''), (''MINVALUE'', Some ''MINVALUE''), (''MAXVALUE'', Some ''MAXVALUE''),
     (''CYCLE'', Some ''CYCLE''), (''CACHE'', Some ''CACHE''), (''OWNED'', Some ''OWNED''),
     (''AUTHORIZATION'', Some ''AUTHORIZATION''), (''NO'', Some ''NO''), (''VACUUM'', Some ''VACUUM''),
     (''ANALYSE'', Some ''ANALYSE''), (''ANALYZE'', Some ''ANALYSE''), (''REINDEX'', Some ''REINDEX''),
     (''ARRAY'', Some ''ARRAY''), (''INTERVAL'', Some ''INTERVAL''), (''TEMP'', Some ''TEMP''),
     (''TEMPORARY'', Some ''TEMPORARY''), (''RENAME'', Some ''RENAME''), (''CONSTRAINT'', Some ''CONSTRAINT''),
     (''RECURSIVE'', Some ''RECURSIVE''), (''EXPLAIN'', Some ''EXPLAIN''), (''VERBOSE'', Some ''VERBOSE''),
     (''FILTER'', Some ''FILTER''), (''WITHIN'', Some ''WITHIN''), (''MATERIALIZED'', Some ''MATERIALIZED''),
     (''REFRESH'', Some ''REFRESH''), (''CONCURRENTLY'', Some ''CONCURRENTLY''), (''ROLLUP'', Some ''ROLLUP''),
     (''CUBE'', Some ''CUBE''), (''GROUPING'', Some ''GROUPING''), (''SETS'', Some ''SETS''),
     (''FETCH'', Some ''FETCH''), (''FIRST'', Some ''FIRST''), (''NEXT'', Some ''NEXT''), (''ROWS'', Some ''ROWS''),
     (''ROW'', Some ''ROW''), (''ONLY'', Some ''ONLY''), (''SIMILAR'', Some ''SIMILAR''),
     (''DEFERRABLE'', Some ''DEFERRABLE''), (''INITIALLY'', Some ''INITIALLY''), (''DEFERRED'', Some ''DEFERRED''),
     (''IMMEDIATE'', Some ''IMMEDIATE''), (''GENERATED'', Some ''GENERATED''), (''ALWAYS'', Some ''ALWAYS''),
     (''IDENTITY'', Some ''IDENTITY''), (''STORED'', Some ''STORED''), (''ACTION'', Some ''ACTION''),
     (''CASCADE'', Some ''CASCADE''), (''RESTRICT'', Some ''RESTRICT''), (''POLICY'', Some ''POLICY''),
     (''PERMISSIVE'', Some ''PERMISSIVE''), (''RESTRICTIVE'', Some ''RESTRICTIVE''), (''FORCE'', Some ''FORCE''),
     (''LEVEL'', Some ''LEVEL''), (''SECURITY'', Some ''SECURITY''), (''ENABLE'', Some ''ENABLE''),
     (''DISABLE'', Some ''DISABLE'')]"

text \<open>The token of a word, when it is a keyword.\<close>

definition keyword :: "string \<Rightarrow> string option" where
  "keyword word = (case map_of keyword_table (toUpper word) of Some (Some tok) \<Rightarrow> Some tok | _ \<Rightarrow> None)"

text \<open>\<open>unicode.IsLetter\<close> on the code points 0 to 255, which is all that a byte can be.\<close>

definition isLetter :: "char \<Rightarrow> bool" where
  "isLetter c =
     (let n = of_char c :: nat
      in (65 \<le> n \<and> n \<le> 90) \<or> (97 \<le> n \<and> n \<le> 122) \<or> n = 170 \<or> n = 181 \<or> n = 186
         \<or> (192 \<le> n \<and> n \<le> 214) \<or> (216 \<le> n \<and> n \<le> 246) \<or> (248 \<le> n))"

definition isIdentStart :: "char \<Rightarrow> bool" where
  "isIdentStart c \<longleftrightarrow> c = CHR ''_'' \<or> isLetter c"

definition isIdentPart :: "char \<Rightarrow> bool" where
  "isIdentPart c \<longleftrightarrow> c = CHR ''_'' \<or> c = CHR ''$'' \<or> isLetter c \<or> isDigit c"

subsection \<open>The scanner\<close>

record ParseError =
  pe_Msg :: string
  pe_SQLSTATE :: string
  pe_Pos :: nat

record lexer =
  lx_src :: string
  lx_pos :: nat
  lx_err :: "ParseError option"
  lx_maxParam :: u64

definition newLexer :: "string \<Rightarrow> lexer" where
  "newLexer src = \<lparr>lx_src = src, lx_pos = 0, lx_err = None, lx_maxParam = 0\<rparr>"

definition lx_rest :: "lexer \<Rightarrow> string" where
  "lx_rest l = drop (lx_pos l) (lx_src l)"

definition advance :: "nat \<Rightarrow> lexer \<Rightarrow> lexer" where
  "advance n l = l\<lparr>lx_pos := lx_pos l + n\<rparr>"

text \<open>Messages are kept without the character or text the source formats into them.\<close>

definition lx_Error :: "string \<Rightarrow> lexer \<Rightarrow> lexer" where
  "lx_Error s l =
     (if lx_err l = None then l\<lparr>lx_err := Some \<lparr>pe_Msg = s, pe_SQLSTATE = ''42601'', pe_Pos = lx_pos l\<rparr>\<rparr> else l)"

text \<open>The inner loop over a block comment: how far it is to its end or to the last byte of the source.\<close>

fun comment_len :: "string \<Rightarrow> nat" where
  "comment_len (a # b # r) = (if a = CHR ''*'' \<and> b = CHR ''/'' then 0 else Suc (comment_len (b # r)))"
| "comment_len _ = 0"

definition starts :: "string \<Rightarrow> string \<Rightarrow> bool" where
  "starts p s \<longleftrightarrow> take (length p) s = p"

function skip_len :: "string \<Rightarrow> nat" where
  "skip_len s =
     (case s of
        [] \<Rightarrow> 0
      | c # cs \<Rightarrow>
          if c = CHR '' '' \<or> c = CHR 0x09 \<or> c = CHR 0x0A \<or> c = CHR 0x0D then Suc (skip_len cs)
          else if starts ''--'' s then
            (let n = length (takeWhile (\<lambda>c. c \<noteq> CHR 0x0A) s) in n + skip_len (drop n s))
          else if starts ''/*'' s then
            (let n = 2 + comment_len (drop 2 s) + 2 in n + skip_len (drop n s))
          else 0)"
  by pat_completeness auto

termination
  by (relation "measure length") (auto simp: starts_def Let_def)

declare skip_len.simps [simp del]

definition skipSpaceAndComments :: "lexer \<Rightarrow> lexer" where
  "skipSpaceAndComments l = advance (skip_len (lx_rest l)) l"

text \<open>The body of a quoted token: its value and its length with the closing quote.\<close>

fun quoted :: "char \<Rightarrow> string \<Rightarrow> (string \<times> nat) option" where
  "quoted q [] = None"
| "quoted q [c] = (if c = q then Some ([], 1) else None)"
| "quoted q (c # d # r) =
     (if c = q then
        (if d = q then map_option (\<lambda>(s, n). (q # s, n + 2)) (quoted q r) else Some ([], 1))
      else map_option (\<lambda>(s, n). (c # s, n + 1)) (quoted q (d # r)))"

definition scanString :: "lexer \<Rightarrow> lexer \<times> token" where
  "scanString l =
     (let l = advance 1 l
      in case quoted (CHR 0x27) (lx_rest l) of
           Some (s, n) \<Rightarrow> (advance n l, SCONST s)
         | None \<Rightarrow> (lx_Error ''unterminated string literal'' (l\<lparr>lx_pos := length (lx_src l)\<rparr>), EOF))"

definition scanQuotedIdent :: "lexer \<Rightarrow> lexer \<times> token" where
  "scanQuotedIdent l =
     (let l = advance 1 l
      in case quoted (CHR 0x22) (lx_rest l) of
           Some (s, n) \<Rightarrow> (advance n l, IDENT s)
         | None \<Rightarrow> (lx_Error ''unterminated quoted identifier'' (l\<lparr>lx_pos := length (lx_src l)\<rparr>), EOF))"

text \<open>The number of a parameter is a Go \<open>int\<close>: it wraps, and its order is the signed one.\<close>

definition scanParam :: "lexer \<Rightarrow> lexer \<times> token" where
  "scanParam l =
     (let l = advance 1 l;
          ds = takeWhile isDigit (lx_rest l);
          l = advance (length ds) l
      in if ds = [] then (lx_Error ''invalid parameter reference'' l, EOF)
         else
           let n = foldl (\<lambda>n ch. n * 10 + of_nat (digit_val ch)) (0 :: u64) ds;
               l = (if sint n > sint (lx_maxParam l) then l\<lparr>lx_maxParam := n\<rparr> else l)
           in (l, PARAM n))"

fun number :: "bool \<Rightarrow> string \<Rightarrow> string \<times> bool" where
  "number isFloat [] = ([], isFloat)"
| "number isFloat (c # cs) =
     (if isDigit c then (case number isFloat cs of (s, f) \<Rightarrow> (c # s, f))
      else if c = CHR ''.'' \<and> \<not> isFloat then (case number True cs of (s, f) \<Rightarrow> (c # s, f))
      else ([], isFloat))"

definition scanNumber :: "lexer \<Rightarrow> lexer \<times> token" where
  "scanNumber l =
     (case number False (lx_rest l) of
        (s, isFloat) \<Rightarrow> (advance (length s) l, if isFloat then FCONST s else ICONST s))"

definition peekIsDeferrable :: "lexer \<Rightarrow> lexer \<times> bool" where
  "peekIsDeferrable l =
     (let l1 = skipSpaceAndComments l
      in case lx_rest l1 of
           [] \<Rightarrow> (l, False)
         | c # _ \<Rightarrow>
             if \<not> isIdentStart c then (l, False)
             else let word = takeWhile isIdentPart (lx_rest l1)
                  in if keyword word = Some ''DEFERRABLE'' then (advance (length word) l1, True) else (l, False))"

definition scanIdentOrKeyword :: "lexer \<Rightarrow> lexer \<times> token" where
  "scanIdentOrKeyword l =
     (let word = takeWhile isIdentPart (lx_rest l);
          l = advance (length word) l
      in case keyword word of
           Some tok \<Rightarrow>
             (case (if tok = ''NOT'' then peekIsDeferrable l else (l, False)) of
                (l, True) \<Rightarrow> (l, NOT_DEFERRABLE)
              | (l, False) \<Rightarrow> (l, KW tok (toUpper word)))
         | None \<Rightarrow> (l, IDENT (toLower word)))"

definition multi :: "(string \<times> (string \<Rightarrow> token)) list" where
  "multi =
     [(''->>'', JSON_OP), (''#>>'', JSON_OP), (''#>'', JSON_OP), (''->'', JSON_OP),
      (''<=>'', VECTOR_OP), (''<->'', VECTOR_OP), (''<#>'', VECTOR_OP),
      (''<='', COMPARE_OP), (''>='', COMPARE_OP), (''<>'', COMPARE_OP), (''!='', COMPARE_OP),
      (''&&'', CONTAIN_OP), (''::'', \<lambda>_. TYPECAST)]"

definition single :: "char \<Rightarrow> token option" where
  "single c =
     (if c \<in> set ''()[],.;'' then Some (Punct c)
      else if c = CHR ''*'' then Some (STAR ''*'')
      else if c \<in> set ''=<>'' then Some (COMPARE_OP [c])
      else if c \<in> set ''+-'' then Some (ADD_OP [c])
      else if c \<in> set ''/%'' then Some (MUL_OP [c])
      else if c = CHR ''^'' then Some (POW_OP ''^'')
      else None)"

definition scanOperatorOrPunct :: "lexer \<Rightarrow> lexer \<times> token" where
  "scanOperatorOrPunct l =
     (case find (\<lambda>m. hasPrefix (lx_rest l) (fst m)) multi of
        Some (s, tok) \<Rightarrow> (advance (length s) l, tok s)
      | None \<Rightarrow>
          (let c = hd (lx_rest l); l = advance 1 l
           in case single c of Some t \<Rightarrow> (l, t) | None \<Rightarrow> (lx_Error ''unexpected character'' l, EOF)))"

definition Lex :: "lexer \<Rightarrow> lexer \<times> token" where
  "Lex l =
     (let l = skipSpaceAndComments l
      in if lx_pos l \<ge> length (lx_src l) then (l, EOF)
         else let c = lx_src l ! lx_pos l
              in if c = CHR 0x27 then scanString l
                 else if c = CHR 0x22 then scanQuotedIdent l
                 else if c = CHR ''$'' then scanParam l
                 else if isDigit c then scanNumber l
                 else if isIdentStart c then scanIdentOrKeyword l
                 else scanOperatorOrPunct l)"

subsection \<open>Progress\<close>

lemma advance_simps [simp]:
  "lx_src (advance n l) = lx_src l" "lx_pos (advance n l) = lx_pos l + n" "lx_err (advance n l) = lx_err l"
  "lx_rest (advance n l) = drop n (lx_rest l)"
  by (simp_all add: advance_def lx_rest_def add.commute)

lemma advance_0 [simp]: "advance 0 l = l"
  by (simp add: advance_def)

lemma skip_src [simp]: "lx_src (skipSpaceAndComments l) = lx_src l" "lx_pos l \<le> lx_pos (skipSpaceAndComments l)"
  "lx_err (skipSpaceAndComments l) = lx_err l"
  by (simp_all add: skipSpaceAndComments_def)

lemma lx_Error_simps [simp]: "lx_src (lx_Error s l) = lx_src l" "lx_pos (lx_Error s l) = lx_pos l" "lx_err (lx_Error s l) \<noteq> None"
  "\<exists>y. lx_err (lx_Error s l) = Some y"
  by (simp_all add: lx_Error_def)

lemma length_rest: "length (lx_rest l) = length (lx_src l) - lx_pos l"
  by (simp add: lx_rest_def)

lemma quoted_bounds: "quoted q s = Some (v, n) \<Longrightarrow> 0 < n \<and> n \<le> length s"
proof (induction q s arbitrary: v n rule: quoted.induct)
  case (3 q c d r)
  then show ?case by (auto split: if_splits)
qed (auto split: if_splits)

lemma number_length: "length (fst (number b s)) \<le> length s"
  by (induction b s rule: number.induct) (auto split: prod.splits)

lemma number_pos: "isDigit c \<Longrightarrow> 0 < length (fst (number b (c # s)))"
  by (auto split: prod.splits)

lemma takeWhile_pos: "P c \<Longrightarrow> 0 < length (takeWhile P (c # s))"
  by simp

lemma isIdentStart_Part: "isIdentStart c \<Longrightarrow> isIdentPart c"
  by (auto simp: isIdentStart_def isIdentPart_def)

text \<open>What a call of a scanner on a lexer with input left guarantees.\<close>

definition scans :: "lexer \<Rightarrow> lexer \<times> token \<Rightarrow> bool" where
  "scans l r \<longleftrightarrow> lx_src (fst r) = lx_src l
     \<and> (if snd r = EOF then lx_err (fst r) \<noteq> None else lx_pos l < lx_pos (fst r) \<and> lx_pos (fst r) \<le> length (lx_src l))"

lemma quoted_scans:
  assumes "lx_rest l \<noteq> []" and "\<And>v. t v \<noteq> EOF"
  shows "scans l (case quoted q (drop (Suc 0) (lx_rest l)) of
      Some (v, n) \<Rightarrow> (advance n (advance (Suc 0) l), t v)
    | None \<Rightarrow> (lx_Error m ((advance (Suc 0) l)\<lparr>lx_pos := length (lx_src l)\<rparr>), EOF))"
proof (cases "quoted q (drop (Suc 0) (lx_rest l))")
  case (Some p)
  obtain v n where p: "p = (v, n)" by (cases p)
  have "0 < length (lx_rest l)" using assms(1) by simp
  then show ?thesis using quoted_bounds [of q "drop (Suc 0) (lx_rest l)" v n] length_rest [of l] assms(2)
    by (auto simp: scans_def Some p)
qed (simp add: scans_def)

lemma scanString_scans: "lx_rest l \<noteq> [] \<Longrightarrow> scans l (scanString l)"
  unfolding scanString_def Let_def advance_simps One_nat_def by (rule quoted_scans) simp_all

lemma scanQuotedIdent_scans: "lx_rest l \<noteq> [] \<Longrightarrow> scans l (scanQuotedIdent l)"
  unfolding scanQuotedIdent_def Let_def advance_simps One_nat_def by (rule quoted_scans) simp_all

lemma scanParam_scans: "lx_rest l \<noteq> [] \<Longrightarrow> scans l (scanParam l)"
  using length_takeWhile_le [of isDigit "drop 1 (lx_rest l)"] length_rest [of l]
  by (cases "lx_rest l") (auto simp: scans_def scanParam_def Let_def)

lemma scanNumber_scans: "lx_rest l = c # r \<Longrightarrow> isDigit c \<Longrightarrow> scans l (scanNumber l)"
  using number_length [of False "lx_rest l"] number_pos [of c False r] length_rest [of l]
  by (auto simp: scans_def scanNumber_def split: prod.splits)

lemma peek_bounds:
  assumes "peekIsDeferrable l = (l', b)" and "lx_pos l \<le> length (lx_src l)"
  shows "lx_src l' = lx_src l \<and> lx_pos l \<le> lx_pos l' \<and> lx_pos l' \<le> length (lx_src l)"
proof -
  let ?l1 = "skipSpaceAndComments l"
  have "lx_pos ?l1 + length (takeWhile isIdentPart (lx_rest ?l1)) \<le> length (lx_src l)" if "lx_rest ?l1 \<noteq> []"
    using that length_takeWhile_le [of isIdentPart "lx_rest ?l1"] length_rest [of ?l1] by (cases "lx_rest ?l1") auto
  moreover have "l' = l \<or> (lx_rest ?l1 \<noteq> [] \<and> l' = advance (length (takeWhile isIdentPart (lx_rest ?l1))) ?l1)"
    using assms(1) unfolding peekIsDeferrable_def Let_def by (cases "lx_rest ?l1") (simp_all split: if_splits)
  ultimately show ?thesis using assms(2) skip_src(2) [of l] by (elim disjE) (simp, simp add: trans_le_add1)
qed

lemma scanIdentOrKeyword_scans:
  assumes "lx_rest l = c # r" and "isIdentStart c"
  shows "scans l (scanIdentOrKeyword l)"
proof -
  let ?w = "takeWhile isIdentPart (lx_rest l)"
  have w: "0 < length ?w" "length ?w \<le> length (lx_src l) - lx_pos l" "lx_pos l < length (lx_src l)"
    using assms isIdentStart_Part length_takeWhile_le [of isIdentPart "lx_rest l"] length_rest [of l] by auto
  let ?l = "advance (length ?w) l"
  obtain p d where pd: "peekIsDeferrable ?l = (p, d)" by fastforce
  have pb: "lx_src p = lx_src l \<and> lx_pos l + length ?w \<le> lx_pos p \<and> lx_pos p \<le> length (lx_src l)"
    using peek_bounds [OF pd] w(2,3) by simp
  then have "lx_src p = lx_src l" "lx_pos l < lx_pos p" "lx_pos p \<le> length (lx_src l)" using w(1) by linarith+
  moreover have "lx_pos l + length ?w \<le> length (lx_src l)" using w(2,3) by linarith
  ultimately show ?thesis using w
    by (simp add: scans_def scanIdentOrKeyword_def Let_def pd split: option.split bool.split)
qed

lemma scanOperatorOrPunct_scans:
  assumes "lx_rest l = c # r"
  shows "scans l (scanOperatorOrPunct l)"
proof (cases "find (\<lambda>m. hasPrefix (lx_rest l) (fst m)) multi")
  case None
  have "lx_pos l < length (lx_src l)" using assms length_rest [of l] by simp
  moreover have "t \<noteq> EOF" if "single c = Some t" for t using that by (auto simp: single_def split: if_splits)
  moreover have "hd (lx_rest l) = c" using assms by simp
  ultimately show ?thesis by (auto simp: scans_def scanOperatorOrPunct_def None Let_def split: option.split)
next
  case (Some m)
  then have m: "m \<in> set multi" "hasPrefix (lx_rest l) (fst m)" by (auto simp: find_Some_iff)
  have "length (fst m) \<le> length (lx_rest l)" using m(2) by (auto simp: hasPrefix_iff dest: prefix_length_le)
  moreover have "0 < length (fst m)" "snd m (fst m) \<noteq> EOF" using m(1) by (auto simp: multi_def)
  moreover have "lx_pos l < length (lx_src l)" using assms length_rest [of l] by simp
  ultimately show ?thesis using length_rest [of l] by (cases m) (auto simp: scans_def scanOperatorOrPunct_def Some)
qed

lemma Lex_scans:
  assumes "Lex l = (l', t)"
  shows "lx_src l' = lx_src l"
    and "t \<noteq> EOF \<Longrightarrow> lx_pos l < lx_pos l' \<and> lx_pos l' \<le> length (lx_src l)"
    and "t = EOF \<Longrightarrow> lx_err l' = None \<Longrightarrow> length (lx_src l) \<le> lx_pos l'"
proof -
  let ?l = "skipSpaceAndComments l"
  have "lx_src l' = lx_src l \<and> (t \<noteq> EOF \<longrightarrow> lx_pos l < lx_pos l' \<and> lx_pos l' \<le> length (lx_src l))
      \<and> (t = EOF \<longrightarrow> lx_err l' = None \<longrightarrow> length (lx_src l) \<le> lx_pos l')"
  proof (cases "length (lx_src l) \<le> lx_pos ?l")
    case True
    then show ?thesis using assms by (auto simp: Lex_def)
  next
    case False
    let ?c = "lx_src ?l ! lx_pos ?l"
    have r: "lx_rest ?l = ?c # drop (Suc (lx_pos ?l)) (lx_src ?l)"
      using False by (simp add: lx_rest_def Cons_nth_drop_Suc)
    then have ne: "lx_rest ?l \<noteq> []" by simp
    have "scans ?l (l', t)"
      using assms False scanString_scans [OF ne] scanQuotedIdent_scans [OF ne] scanParam_scans [OF ne]
        scanNumber_scans [OF r] scanIdentOrKeyword_scans [OF r] scanOperatorOrPunct_scans [OF r]
      by (auto simp: Lex_def Let_def split: if_splits)
    then show ?thesis using skip_src(2) [of l] by (auto simp: scans_def simp del: skip_src(2) split: if_splits)
  qed
  then show "lx_src l' = lx_src l"
    and "t \<noteq> EOF \<Longrightarrow> lx_pos l < lx_pos l' \<and> lx_pos l' \<le> length (lx_src l)"
    and "t = EOF \<Longrightarrow> lx_err l' = None \<Longrightarrow> length (lx_src l) \<le> lx_pos l'" by blast+
qed

subsection \<open>Scanning a whole statement\<close>

lemma Lex_decreases:
  "(l', t) = Lex l \<Longrightarrow> t \<noteq> EOF \<Longrightarrow> length (lx_src l') - lx_pos l' < length (lx_src l) - lx_pos l"
  using Lex_scans [of l l' t] by auto

text \<open>
  The loop of the generated parser, which pulls tokens until the scanner reports the end; it stands for the caller of
  the scanner and is no function of the source.
\<close>

function lex_all :: "lexer \<Rightarrow> lexer \<times> token list" where
  "lex_all l =
     (case Lex l of (l', t) \<Rightarrow> if t = EOF then (l', []) else (case lex_all l' of (l'', ts) \<Rightarrow> (l'', t # ts)))"
  by pat_completeness auto

termination
  by (relation "measure (\<lambda>l. length (lx_src l) - lx_pos l)") (auto intro: Lex_decreases)

declare lex_all.simps [simp del]

lemma lex_all_bounds:
  "lex_all l = (l', ts) \<Longrightarrow> lx_src l' = lx_src l \<and> length ts \<le> length (lx_src l) - lx_pos l
     \<and> (lx_err l' = None \<longrightarrow> length (lx_src l) \<le> lx_pos l')"
proof (induction l arbitrary: l' ts rule: lex_all.induct)
  case (1 l)
  obtain m t where m: "Lex l = (m, t)" by fastforce
  show ?case
  proof (cases "t = EOF")
    case True
    then show ?thesis using "1.prems" Lex_scans [OF m] by (simp add: lex_all.simps [of l] m)
  next
    case False
    obtain l2 ts2 where r: "lex_all m = (l2, ts2)" by fastforce
    have "l' = l2" "ts = t # ts2" using "1.prems" False by (simp_all add: lex_all.simps [of l] m r)
    with "1.IH" [OF m [symmetric] False r] Lex_scans [OF m] False show ?thesis by auto
  qed
qed

text \<open>
  C28. Scanning terminates and is total on every byte string: pulling tokens until the end yields at
  most one token per byte, and the scan either has recorded an error or has consumed the whole source; no
  byte is silently left unread.
\<close>

theorem scan_terminates_exhaustively:
  "\<exists>l ts. lex_all (newLexer src) = (l, ts) \<and> length ts \<le> length src
     \<and> ((\<exists>e. lx_err l = Some e) \<or> length src \<le> lx_pos l)"
proof -
  obtain l ts where r: "lex_all (newLexer src) = (l, ts)" by fastforce
  from lex_all_bounds [OF r] r show ?thesis by (auto simp: newLexer_def)
qed

subsection \<open>Literals\<close>

text \<open>A quoted token of the source, its quotes doubled.\<close>

definition quote :: "char \<Rightarrow> string \<Rightarrow> string" where
  "quote q s = q # concat (map (\<lambda>c. if c = q then [q, q] else [c]) s) @ [q]"

lemma quoted_quote:
  assumes "r = [] \<or> hd r \<noteq> q"
  shows "quoted q (concat (map (\<lambda>c. if c = q then [q, q] else [c]) s) @ q # r) = Some (s, length (quote q s) - 1)"
proof (induction s)
  case Nil
  show ?case using assms by (cases r) (auto simp: quote_def)
next
  case (Cons c s)
  let ?e = "concat (map (\<lambda>c. if c = q then [q, q] else [c]) s)"
  obtain d t where d: "?e @ q # r = d # t" by (cases "?e @ q # r") auto
  show ?case
  proof (cases "c = q")
    case True
    then show ?thesis using Cons by (simp add: quote_def)
  next
    case False
    then show ?thesis using Cons d by (simp add: quote_def)
  qed
qed

lemma skip_quote: "q = CHR 0x27 \<or> q = CHR 0x22 \<Longrightarrow> skip_len (q # s) = 0"
  by (subst skip_len.simps) (auto simp: starts_def)

lemma quoted_token:
  assumes "r = [] \<or> hd r \<noteq> q" and "lx_rest l = quote q s @ r"
  shows "(q = CHR 0x27 \<longrightarrow> Lex l = (advance (length (quote q s)) l, SCONST s))
       \<and> (q = CHR 0x22 \<longrightarrow> Lex l = (advance (length (quote q s)) l, IDENT s))"
proof -
  let ?e = "concat (map (\<lambda>c. if c = q then [q, q] else [c]) s)"
  have rest: "lx_rest l = q # ?e @ q # r" using assms(2) by (simp add: quote_def)
  have sk: "skipSpaceAndComments l = l" if "q = CHR 0x27 \<or> q = CHR 0x22"
    unfolding skipSpaceAndComments_def rest skip_quote [OF that] by simp
  have pos: "\<not> length (lx_src l) \<le> lx_pos l" using length_rest [of l] rest by auto
  have c: "lx_src l ! lx_pos l = q" using rest by (metis lx_rest_def nth_via_drop)
  have qd: "quoted q (lx_rest (advance 1 l)) = Some (s, length (quote q s) - 1)" using quoted_quote [OF assms(1)] rest by simp
  have len: "advance (length (quote q s) - 1) (advance 1 l) = advance (length (quote q s)) l" by (simp add: advance_def quote_def)
  show ?thesis
    using sk pos c qd len by (auto simp: Lex_def Let_def scanString_def scanQuotedIdent_def)
qed

text \<open>
  C29. Quoted tokens are read back exactly: at any point of a source, a string literal or a quoted
  identifier written with its quotes doubled, and not followed by another quote, scans to one token with
  exactly the original bytes, leaving what follows it.
\<close>

theorem quoted_token_roundtrip:
  assumes "r = [] \<or> hd r \<noteq> q" and "lx_rest l = quote q s @ r"
  shows "(q = CHR 0x27 \<longrightarrow> Lex l = (advance (length (quote q s)) l, SCONST s))
       \<and> (q = CHR 0x22 \<longrightarrow> Lex l = (advance (length (quote q s)) l, IDENT s))"
  using assms by (rule quoted_token)

theorem quoted_token_roundtrip_witness:
  "Lex (newLexer (quote (CHR 0x27) [CHR ''i'', CHR 0x27] @ '';'')) =
     (advance 5 (newLexer (quote (CHR 0x27) [CHR ''i'', CHR 0x27] @ '';'')), SCONST [CHR ''i'', CHR 0x27])"
  using quoted_token_roundtrip [of "'';''" "CHR 0x27" "newLexer (quote (CHR 0x27) [CHR ''i'', CHR 0x27] @ '';'')" "[CHR ''i'', CHR 0x27]"]
  by (simp add: newLexer_def lx_rest_def quote_def eval_nat_numeral)

lemma param_fold: "foldl (\<lambda>n ch. n * 10 + of_nat (digit_val ch)) (of_nat a :: u64) ds = of_nat (foldl (\<lambda>n c. n * 10 + digit_val c) a ds)"
proof (induction ds arbitrary: a)
  case (Cons c ds)
  have "(of_nat a :: u64) * 10 + of_nat (digit_val c) = of_nat (a * 10 + digit_val c)" by simp
  then show ?case using Cons by (simp only: foldl.simps)
qed simp

lemma Lex_param: "snd (Lex (newLexer (CHR ''$'' # utoa n))) = PARAM (of_nat n)"
proof -
  let ?l = "newLexer (CHR ''$'' # utoa n)"
  have sk: "skipSpaceAndComments ?l = ?l"
    by (simp add: skipSpaceAndComments_def newLexer_def lx_rest_def skip_len.simps starts_def)
  have ds: "takeWhile isDigit (lx_rest (advance 1 ?l)) = utoa n"
    using utoa_digits [of n] by (simp add: newLexer_def lx_rest_def advance_def takeWhile_eq_all_conv list_all_iff)
  have "foldl (\<lambda>n ch. n * 10 + of_nat (digit_val ch)) (0 :: u64) (utoa n) = of_nat n"
    using param_fold [of 0 "utoa n"] utoa_digits [of n] by (simp add: digits_val_def)
  then show ?thesis
    using utoa_digits [of n] unfolding Lex_def Let_def sk scanParam_def ds
    by (simp add: newLexer_def)
qed

text \<open>
  The number of a parameter reference is computed in 64-bit arithmetic without a check: a reference
  whose number exceeds the range scans, without an error, to the same token as the number it wraps to, so
  \<open>$18446744073709551617\<close> is \<open>$1\<close>.
\<close>

theorem param_number_wraps:
  "snd (Lex (newLexer (CHR ''$'' # utoa n))) = PARAM (of_nat n)
   \<and> snd (Lex (newLexer (CHR ''$'' # utoa (n + 2 ^ 64)))) = snd (Lex (newLexer (CHR ''$'' # utoa n)))"
proof -
  have "(of_nat (n + 2 ^ 64) :: u64) = of_nat n"
    using word_of_nat_eq_iff [of "n + 2 ^ 64" n, where 'a = 64] by (simp add: take_bit_eq_mod)
  then show ?thesis by (simp only: Lex_param)
qed

end
