(* ===== verification/Floats.thy ===== *)
theory Floats
  imports GoLib
begin

text \<open>
  Go's \<open>float64\<close> as its 64 bits: comparison, arithmetic by rounding the exact result to nearest even, and
  the conversions \<open>strconv.ParseFloat(s, 64)\<close> and \<open>strconv.FormatFloat(f, 'g', -1, 64)\<close>. Hexadecimal
  literals and digit separators, which \<open>ParseFloat\<close> also reads, are not covered.
\<close>

subsection \<open>Parts of a float\<close>

definition fl_mag :: "u64 \<Rightarrow> nat" where
  "fl_mag w = unat w mod 2 ^ 63"

definition inf_mag :: nat where
  "inf_mag = 2047 * 2 ^ 52"

definition fl_make :: "bool \<Rightarrow> nat \<Rightarrow> u64" where
  "fl_make neg m = of_nat (min m inf_mag + (if neg then 2 ^ 63 else 0))"

definition fl_nan :: u64 where
  "fl_nan = of_nat (2047 * 2 ^ 52 + 2 ^ 51 + 1)"

definition isNaN :: "u64 \<Rightarrow> bool" where
  "isNaN w \<longleftrightarrow> inf_mag < fl_mag w"

text \<open>Floats in order of value, the two zeros equal.\<close>

definition fl_rank :: "u64 \<Rightarrow> int" where
  "fl_rank w = (if bit w 63 then - int (fl_mag w) else int (fl_mag w))"

definition fl_less :: "u64 \<Rightarrow> u64 \<Rightarrow> bool" where
  "fl_less a b \<longleftrightarrow> \<not> isNaN a \<and> \<not> isNaN b \<and> fl_rank a < fl_rank b"

text \<open>A finite float is \<open>\<plusminus>m * 2 ^ e\<close>; \<open>e\<close> is given with 1074 added to it.\<close>

definition fl_parts :: "u64 \<Rightarrow> nat \<times> nat" where
  "fl_parts w =
     (let ex = fl_mag w div 2 ^ 52; fr = fl_mag w mod 2 ^ 52
      in if ex = 0 then (fr, 0) else (2 ^ 52 + fr, ex - 1))"

subsection \<open>Rounding\<close>

fun bit_len :: "nat \<Rightarrow> nat" where
  "bit_len n = (if n = 0 then 0 else Suc (bit_len (n div 2)))"

declare bit_len.simps [simp del]

definition round_even :: "nat \<Rightarrow> nat \<Rightarrow> nat" where
  "round_even p q =
     (let f = p div q; r = p mod q in if q < 2 * r \<or> (2 * r = q \<and> odd f) then f + 1 else f)"

text \<open>
  The magnitude bits of the float nearest to \<open>n / d\<close>: the exponent \<open>e\<close> (here with 1074 added) is the one
  that leaves 53 bits before the point, or the least.
\<close>

definition scale2 :: "nat \<Rightarrow> nat \<Rightarrow> int \<Rightarrow> nat \<times> nat" where
  "scale2 n d e = (if e \<ge> 0 then (n, d * 2 ^ nat e) else (n * 2 ^ nat (- e), d))"

definition float_exp :: "nat \<Rightarrow> nat \<Rightarrow> int" where
  "float_exp n d =
     (let k = int (bit_len n) - int (bit_len d) - 53
      in max (case scale2 n d k of (p, q) \<Rightarrow> if 2 ^ 53 * q \<le> p then k + 1 else k) (- 1074))"

definition round_mag :: "nat \<Rightarrow> nat \<Rightarrow> nat" where
  "round_mag n d =
     (if n = 0 then 0
      else case scale2 n d (float_exp n d) of (p, q) \<Rightarrow> nat (float_exp n d + 1074) * 2 ^ 52 + round_even p q)"

subsection \<open>Arithmetic\<close>

definition fl_neg :: "u64 \<Rightarrow> u64" where
  "fl_neg w = w XOR push_bit 63 1"

definition fl_signed :: "u64 \<Rightarrow> int" where
  "fl_signed w = (case fl_parts w of (m, e) \<Rightarrow> (if bit w 63 then - int (m * 2 ^ e) else int (m * 2 ^ e)))"

definition fl_add :: "u64 \<Rightarrow> u64 \<Rightarrow> u64" where
  "fl_add a b =
     (if isNaN a \<or> isNaN b then fl_nan
      else if fl_mag a = inf_mag then (if fl_mag b = inf_mag \<and> bit a 63 \<noteq> bit b 63 then fl_nan else a)
      else if fl_mag b = inf_mag then b
      else let s = fl_signed a + fl_signed b
           in if s = 0 then fl_make (bit a 63 \<and> bit b 63) 0
              else fl_make (s < 0) (round_mag (nat \<bar>s\<bar>) (2 ^ 1074)))"

definition fl_sub :: "u64 \<Rightarrow> u64 \<Rightarrow> u64" where
  "fl_sub a b = fl_add a (fl_neg b)"

definition fl_mul :: "u64 \<Rightarrow> u64 \<Rightarrow> u64" where
  "fl_mul a b =
     (let neg = (bit a 63 \<noteq> bit b 63)
      in if isNaN a \<or> isNaN b then fl_nan
         else if fl_mag a = inf_mag \<or> fl_mag b = inf_mag then
           (if fl_mag a = 0 \<or> fl_mag b = 0 then fl_nan else fl_make neg inf_mag)
         else case (fl_parts a, fl_parts b) of
           ((m, e), (n, f)) \<Rightarrow> fl_make neg (round_mag (m * n * 2 ^ (e + f)) (2 ^ 2148)))"

definition fl_div :: "u64 \<Rightarrow> u64 \<Rightarrow> u64" where
  "fl_div a b =
     (let neg = (bit a 63 \<noteq> bit b 63)
      in if isNaN a \<or> isNaN b then fl_nan
         else if fl_mag a = inf_mag then (if fl_mag b = inf_mag then fl_nan else fl_make neg inf_mag)
         else if fl_mag b = inf_mag then fl_make neg 0
         else if fl_mag b = 0 then (if fl_mag a = 0 then fl_nan else fl_make neg inf_mag)
         else case (fl_parts a, fl_parts b) of
           ((m, e), (n, f)) \<Rightarrow> fl_make neg (round_mag (m * 2 ^ e) (n * 2 ^ f)))"

subsection \<open>Parsing\<close>

definition parse_exponent :: "string \<Rightarrow> int option" where
  "parse_exponent s =
     (case s of
        [] \<Rightarrow> None
      | c # t \<Rightarrow>
          if c = CHR ''-'' then map_option (\<lambda>n. - int n) (parse_digits t)
          else if c = CHR ''+'' then map_option int (parse_digits t)
          else map_option int (parse_digits s))"

definition parse_decimal :: "string \<Rightarrow> (nat \<times> int) option" where
  "parse_decimal s =
     (let whole = takeWhile isDigit s; r = dropWhile isDigit s;
          (frac, r) = (case r of c # t \<Rightarrow> if c = CHR ''.'' then (takeWhile isDigit t, dropWhile isDigit t) else ([], r)
                                | [] \<Rightarrow> ([], []));
          m = (digits_val (whole @ frac), - int (length frac))
      in if whole @ frac = [] then None
         else case r of
           [] \<Rightarrow> Some m
         | c # t \<Rightarrow> if c = CHR ''e'' \<or> c = CHR ''E'' then map_option (\<lambda>x. (fst m, snd m + x)) (parse_exponent t) else None)"

text \<open>
  \<open>ParseFloat\<close> returns a number also when it fails: zero for a syntax error, an infinity for a number out
  of range. The flag says whether the error is nil.
\<close>

definition parse_float :: "string \<Rightarrow> u64 \<times> bool" where
  "parse_float s =
     (let (neg, signed, t) = (case s of c # u \<Rightarrow> if c = CHR ''-'' then (True, True, u)
                                          else if c = CHR ''+'' then (False, True, u) else (False, False, s)
                                      | [] \<Rightarrow> (False, False, []));
          l = toLower t
      in if l = ''inf'' \<or> l = ''infinity'' then (fl_make neg inf_mag, True)
         else if l = ''nan'' \<and> \<not> signed then (fl_nan, True)
         else case parse_decimal t of
           None \<Rightarrow> (0, False)
         | Some (m, x) \<Rightarrow>
             (let g = (if x \<ge> 0 then round_mag (m * 10 ^ nat x) 1 else round_mag m (10 ^ nat (- x)))
              in (fl_make neg g, g < inf_mag)))"

definition ParseFloat :: "string \<Rightarrow> u64 option" where
  "ParseFloat s = (case parse_float s of (w, ok) \<Rightarrow> if ok then Some w else None)"

subsection \<open>Formatting\<close>

text \<open>The decimal point of \<open>n / d > 0\<close>: the \<open>p\<close> with \<open>10 ^ (p - 1) \<le> n / d < 10 ^ p\<close>.\<close>

definition dec_scale :: "nat \<Rightarrow> nat \<Rightarrow> int \<Rightarrow> nat \<times> nat" where
  "dec_scale n d x = (if x \<ge> 0 then (n * 10 ^ nat x, d) else (n, d * 10 ^ nat (- x)))"

definition dec_point :: "nat \<Rightarrow> nat \<Rightarrow> int" where
  "dec_point n d =
     (if d \<le> n then int (length (utoa (n div d)))
      else 1 - int (length (utoa (d div n))) + (if d mod n = 0 \<and> d div n = 10 ^ (length (utoa (d div n)) - 1) then 1 else 0))"

primrec shortest :: "nat \<Rightarrow> nat \<Rightarrow> nat \<Rightarrow> nat \<Rightarrow> int \<Rightarrow> nat \<Rightarrow> nat \<times> nat" where
  "shortest 0 g n d p k = (0, k)"
| "shortest (Suc fuel) g n d p k =
     (case dec_scale n d (int k - p) of (a, b) \<Rightarrow>
        (let lo = a div b;
             back = (\<lambda>c. case dec_scale c 1 (p - int k) of (u, v) \<Rightarrow> round_mag u v = g);
             near = (if 2 * (a mod b) \<le> b then [lo, lo + 1] else [lo + 1, lo])
         in case filter back near of c # _ \<Rightarrow> (c, k) | [] \<Rightarrow> shortest fuel g n d p (Suc k)))"

definition rstrip_zeros :: "string \<Rightarrow> string" where
  "rstrip_zeros s = rev (dropWhile (\<lambda>c. c = CHR ''0'') (rev s))"

definition FormatFloat :: "u64 \<Rightarrow> string" where
  "FormatFloat w =
     (let sign = (if bit w 63 then ''-'' else [])
      in if isNaN w then ''NaN''
         else if fl_mag w = inf_mag then (if bit w 63 then ''-Inf'' else ''+Inf'')
         else if fl_mag w = 0 then sign @ ''0''
         else
           let (m, e) = fl_parts w; n = m * 2 ^ e; d = 2 ^ 1074;
               p = dec_point n d;
               (c, k) = shortest 17 (fl_mag w) n d p 1;
               x = p - 1 + (if length (utoa c) > k then 1 else 0);
               ds = rstrip_zeros (utoa c)
           in if x < - 4 \<or> 6 \<le> x then
                sign @ take 1 ds @ (if length ds > 1 then CHR ''.'' # drop 1 ds else []) @ ''e''
                @ (if x < 0 then ''-'' else ''+'') @ (if \<bar>x\<bar> < 10 then ''0'' else []) @ utoa (nat \<bar>x\<bar>)
              else if x < 0 then sign @ ''0.'' @ replicate (nat (- x - 1)) (CHR ''0'') @ ds
              else let i = nat (x + 1)
                   in if length ds \<le> i then sign @ ds @ replicate (i - length ds) (CHR ''0'')
                      else sign @ take i ds @ CHR ''.'' # drop i ds)"

subsection \<open>Integers as floats\<close>

lemma bit_len_bounds: "0 < n \<Longrightarrow> 2 ^ (bit_len n - 1) \<le> n \<and> n < 2 ^ bit_len n"
proof (induction n rule: bit_len.induct)
  case (1 n)
  show ?case
  proof (cases "n = 1")
    case True
    then show ?thesis by (simp add: bit_len.simps)
  next
    case False
    then have "0 < n div 2" using "1.prems" by simp
    with "1.IH" "1.prems" have h: "2 ^ (bit_len (n div 2) - 1) \<le> n div 2" "n div 2 < 2 ^ bit_len (n div 2)" by simp_all
    have "bit_len (n div 2) \<noteq> 0" using \<open>0 < n div 2\<close> by (simp add: bit_len.simps)
    then obtain k where k: "bit_len (n div 2) = Suc k" by (cases "bit_len (n div 2)") simp_all
    have b: "bit_len n = Suc (Suc k)" using "1.prems" k by (simp add: bit_len.simps [of n])
    show ?thesis using h unfolding b k by simp linarith
  qed
qed

lemma bit_len_mono: "0 < n \<Longrightarrow> n \<le> m \<Longrightarrow> bit_len n \<le> bit_len m"
proof (rule ccontr)
  assume n: "0 < n" "n \<le> m" and "\<not> bit_len n \<le> bit_len m"
  then have "bit_len m \<le> bit_len n - 1" by simp
  then have "(2 :: nat) ^ bit_len m \<le> 2 ^ (bit_len n - 1)" by (rule power_increasing) simp
  with bit_len_bounds [of n] bit_len_bounds [of m] n show False by linarith
qed

text \<open>
  An integer of at most 53 bits is a float exactly: its magnitude bits are the exponent and the integer
  itself, shifted so that its first bit is the leading one.
\<close>

definition int_mag :: "nat \<Rightarrow> nat" where
  "int_mag n = (if n = 0 then 0 else (bit_len n + 1021) * 2 ^ 52 + n * 2 ^ 53 div 2 ^ bit_len n)"

lemma scale2_neg: "scale2 n d (- int m) = (n * 2 ^ m, d)"
  by (cases m) (simp_all add: scale2_def del: of_nat_Suc)

lemma round_mag_int:
  assumes "n \<le> 2 ^ 53"
  shows "round_mag n 1 = int_mag n"
proof (cases "n = 0")
  case True
  then show ?thesis by (simp add: round_mag_def int_mag_def)
next
  case False
  let ?b = "bit_len n"
  have b: "2 ^ (?b - 1) \<le> n" "n < 2 ^ ?b" using bit_len_bounds [of n] False by simp_all
  have "?b \<noteq> 0" using False by (simp add: bit_len.simps)
  have "bit_len n \<le> bit_len (2 ^ 53)" using False assms by (intro bit_len_mono) simp_all
  moreover have "bit_len (2 ^ 53) = 54" by (simp add: bit_len.simps)
  ultimately have b54: "?b \<le> 54" by simp
  have one: "bit_len 1 = 1" by (simp add: bit_len.simps)
  have big: "2 ^ 53 \<le> n * 2 ^ (54 - ?b)"
  proof -
    have "(2 :: nat) ^ 53 = 2 ^ (?b - 1) * 2 ^ (54 - ?b)"
      using b54 \<open>?b \<noteq> 0\<close> by (simp flip: power_add)
    also have "\<dots> \<le> n * 2 ^ (54 - ?b)" using b(1) by (rule mult_right_mono) simp
    finally show ?thesis .
  qed
  show ?thesis
  proof (cases "?b = 54")
    case True
    then have "n = 2 ^ 53" using b(1) assms by simp
    then show ?thesis by (simp add: round_mag_def float_exp_def scale2_def int_mag_def bit_len.simps round_even_def)
  next
    case False
    then have b53: "?b \<le> 53" using b54 by simp
    have k: "int ?b - int (bit_len 1) - 53 = - int (54 - ?b)" using b53 one by (simp add: of_nat_diff)
    have "- int (54 - ?b) + 1 = - int (53 - ?b)" using b53 by simp
    then have e: "float_exp n 1 = - int (53 - ?b)"
      unfolding float_exp_def Let_def k scale2_neg using big by (simp only: split mult_1_right if_True)
    have "nat (- int (53 - ?b) + 1074) = ?b + 1021" using b53 by simp
    moreover have "(2 :: nat) ^ 53 = 2 ^ (53 - ?b) * 2 ^ ?b" using b53 by (simp flip: power_add)
    then have "n * 2 ^ 53 div 2 ^ ?b = n * 2 ^ (53 - ?b)" by (simp only: mult.assoc [symmetric] nonzero_mult_div_cancel_right) simp
    ultimately show ?thesis using \<open>n \<noteq> 0\<close> by (simp only: round_mag_def int_mag_def e scale2_neg if_False split round_even_def Let_def) simp
  qed
qed

lemma int_mag_bounds:
  assumes "0 < n"
  shows "(bit_len n + 1022) * 2 ^ 52 \<le> int_mag n" and "int_mag n < (bit_len n + 1023) * 2 ^ 52"
proof -
  let ?b = "bit_len n"
  have b: "2 ^ (?b - 1) \<le> n" "n < 2 ^ ?b" using bit_len_bounds [OF assms] by simp_all
  have "?b \<noteq> 0" using assms by (simp add: bit_len.simps)
  then have p: "(2 :: nat) ^ ?b = 2 * 2 ^ (?b - 1)" by (cases ?b) simp_all
  have "2 ^ 52 * 2 ^ ?b = (2 :: nat) ^ (?b - 1) * 2 ^ 53" unfolding p by simp
  also have "\<dots> \<le> n * 2 ^ 53" using b(1) by (rule mult_right_mono) simp
  finally have "2 ^ 52 \<le> n * 2 ^ 53 div 2 ^ ?b" by (simp add: less_eq_div_iff_mult_less_eq)
  moreover have "n * 2 ^ 53 < 2 ^ 53 * 2 ^ ?b" using b(2) by simp
  then have "n * 2 ^ 53 div 2 ^ ?b < 2 ^ 53" by (rule less_mult_imp_div_less)
  ultimately show "(?b + 1022) * 2 ^ 52 \<le> int_mag n" and "int_mag n < (?b + 1023) * 2 ^ 52"
    using assms by (simp_all add: int_mag_def)
qed

lemma int_mag_less:
  assumes "n < m" and "m \<le> 2 ^ 53"
  shows "int_mag n < int_mag m"
proof (cases "n = 0")
  case True
  then show ?thesis using int_mag_bounds(1) [of m] assms by (simp add: int_mag_def [of 0])
next
  case False
  then have le: "bit_len n \<le> bit_len m" using assms by (intro bit_len_mono) simp_all
  show ?thesis
  proof (cases "bit_len n = bit_len m")
    case True
    let ?b = "bit_len m"
    have "?b \<le> 53"
    proof (rule ccontr)
      assume "\<not> ?b \<le> 53"
      then have "(2 :: nat) ^ 53 \<le> 2 ^ (?b - 1)" by (intro power_increasing) simp_all
      with bit_len_bounds [of n] False True assms show False by simp
    qed
    then have "(2 :: nat) ^ 53 = 2 ^ (53 - ?b) * 2 ^ ?b" by (simp flip: power_add)
    then have "k * 2 ^ 53 div 2 ^ ?b = k * 2 ^ (53 - ?b)" for k :: nat
      by (simp only: mult.assoc [symmetric] nonzero_mult_div_cancel_right) simp
    then show ?thesis using True False assms(1) unfolding int_mag_def by simp
  next
    case False
    then have "bit_len n + 1023 \<le> bit_len m + 1022" using le by simp
    then have "(bit_len n + 1023) * 2 ^ 52 \<le> (bit_len m + 1022) * (2 :: nat) ^ 52" by (rule mult_right_mono) simp
    then show ?thesis using int_mag_bounds(2) [of n] int_mag_bounds(1) [of m] \<open>n \<noteq> 0\<close> assms(1) by linarith
  qed
qed

lemma int_mag_inf: "n \<le> 2 ^ 53 \<Longrightarrow> int_mag n < inf_mag"
proof (cases "n = 0")
  case True
  then show ?thesis by (simp add: int_mag_def inf_mag_def)
next
  case False
  assume "n \<le> 2 ^ 53"
  then have "bit_len n \<le> bit_len (2 ^ 53)" using False by (intro bit_len_mono) simp_all
  then have "bit_len n \<le> 54" by (simp add: bit_len.simps)
  then have "(bit_len n + 1023) * (2 :: nat) ^ 52 \<le> 2047 * 2 ^ 52" by (intro mult_right_mono) simp_all
  then show ?thesis using int_mag_bounds(2) [of n] False unfolding inf_mag_def by linarith
qed

lemma unat_fl_make:
  assumes "m \<le> inf_mag"
  shows "unat (fl_make neg m) = m + (if neg then 2 ^ 63 else 0)"
proof -
  have "m + (if neg then 2 ^ 63 else 0) < 2 ^ 64" using assms by (simp add: inf_mag_def)
  then show ?thesis unfolding fl_make_def min_absorb1 [OF assms] unat_of_nat by (intro mod_less) simp
qed

lemma fl_make_mag: "m \<le> inf_mag \<Longrightarrow> fl_mag (fl_make neg m) = m"
  by (simp add: fl_mag_def unat_fl_make) (simp add: inf_mag_def)

lemma fl_make_sign:
  assumes "m \<le> inf_mag"
  shows "bit (fl_make neg m) 63 = neg"
proof -
  have "unat (fl_make neg m) div 2 ^ 63 = (if neg then 1 else 0)"
    unfolding unat_fl_make [OF assms] using assms by (cases neg) (simp_all add: inf_mag_def div_add_self2)
  moreover have "bit (fl_make neg m) 63 \<longleftrightarrow> odd (unat (fl_make neg m) div 2 ^ 63)"
    unfolding bit_iff_odd [symmetric] by (simp add: bit_unsigned_iff)
  ultimately show ?thesis by simp
qed

lemma fl_make_rank: "m \<le> inf_mag \<Longrightarrow> fl_rank (fl_make neg m) = (if neg then - int m else int m)"
  by (simp add: fl_rank_def fl_make_mag fl_make_sign)

lemma fl_make_number: "m \<le> inf_mag \<Longrightarrow> \<not> isNaN (fl_make neg m)"
  by (simp add: isNaN_def fl_make_mag)

text \<open>A decimal integer of at most 53 bits parses to its float.\<close>

lemma parse_decimal_utoa: "parse_decimal (utoa n) = Some (n, 0)"
proof -
  have d: "list_all isDigit (utoa n)" "digits_val (utoa n) = n" "utoa n \<noteq> []" using utoa_digits [of n] by simp_all
  then have w: "takeWhile isDigit (utoa n) = utoa n" "dropWhile isDigit (utoa n) = []"
    by (simp_all add: list_all_iff takeWhile_eq_all_conv)
  show ?thesis unfolding parse_decimal_def w using d by simp
qed

lemma utoa_not_word: "toLower (utoa n) \<notin> {''inf'', ''infinity'', ''nan''}"
proof -
  obtain c cs where u: "utoa n = c # cs" using utoa_digits [of n] by (cases "utoa n") auto
  then have "isDigit c" using utoa_hd [of n] by simp
  then have "ascii_lower c = c" "c \<noteq> CHR ''i''" "c \<noteq> CHR ''n''"
    by (auto simp: isDigit_iff ascii_lower_def le_char_iff)
  then show ?thesis by (simp add: u toLower_def)
qed

lemma parse_float_utoa:
  assumes "n \<le> 2 ^ 53"
  shows "parse_float (utoa n) = (fl_make False (int_mag n), True)"
    and "parse_float (CHR ''-'' # utoa n) = (fl_make True (int_mag n), True)"
proof -
  obtain c cs where u: "utoa n = c # cs" using utoa_digits [of n] by (cases "utoa n") auto
  then have "isDigit c" using utoa_hd [of n] by simp
  then have c: "c \<noteq> CHR ''-''" "c \<noteq> CHR ''+''" by (auto simp: isDigit_iff)
  have m: "round_mag n 1 = int_mag n" "int_mag n < inf_mag"
    using assms by (rule round_mag_int, rule int_mag_inf)
  show "parse_float (utoa n) = (fl_make False (int_mag n), True)"
    using c utoa_not_word [of n] parse_decimal_utoa [of n] m unfolding parse_float_def u by simp
  show "parse_float (CHR ''-'' # utoa n) = (fl_make True (int_mag n), True)"
    using utoa_not_word [of n] parse_decimal_utoa [of n] m unfolding parse_float_def by simp
qed

lemma parse_float_itoa:
  assumes "\<bar>i\<bar> \<le> 2 ^ 53"
  shows "parse_float (itoa i) = (fl_make (i < 0) (int_mag (nat \<bar>i\<bar>)), True)"
  using assms parse_float_utoa [of "nat \<bar>i\<bar>"] by (cases "i < 0") (simp_all add: itoa_def nat_le_iff)

lemma int_float_less:
  assumes "\<bar>i\<bar> \<le> 2 ^ 53" and "\<bar>j\<bar> \<le> 2 ^ 53"
  shows "fl_less (fst (parse_float (itoa i))) (fst (parse_float (itoa j))) \<longleftrightarrow> i < j"
proof -
  have b: "nat \<bar>i\<bar> \<le> 2 ^ 53" "nat \<bar>j\<bar> \<le> 2 ^ 53" using assms by (simp_all add: nat_le_iff)
  have m: "int_mag (nat \<bar>i\<bar>) \<le> inf_mag" "int_mag (nat \<bar>j\<bar>) \<le> inf_mag"
    using int_mag_inf [OF b(1)] int_mag_inf [OF b(2)] by simp_all
  let ?r = "\<lambda>k. if k < 0 then - int (int_mag (nat \<bar>k\<bar>)) else int (int_mag (nat \<bar>k\<bar>))"
  have mono: "?r k < ?r l" if "k < l" "\<bar>k\<bar> \<le> 2 ^ 53" "\<bar>l\<bar> \<le> 2 ^ 53" for k l :: int
  proof -
    have n: "nat \<bar>k\<bar> \<le> 2 ^ 53" "nat \<bar>l\<bar> \<le> 2 ^ 53" using that by (simp_all add: nat_le_iff)
    consider "l < 0" | "k < 0" "0 \<le> l" | "0 \<le> k" using that(1) by linarith
    then show ?thesis
    proof cases
      case 1
      then have "nat \<bar>l\<bar> < nat \<bar>k\<bar>" using that(1) by simp
      with int_mag_less [OF this n(1)] 1 that(1) show ?thesis by simp
    next
      case 2
      then have "0 < int_mag (nat \<bar>k\<bar>)" using int_mag_less [of 0 "nat \<bar>k\<bar>"] n(1) by simp
      with 2 show ?thesis by simp
    next
      case 3
      then have "nat \<bar>k\<bar> < nat \<bar>l\<bar>" using that(1) by simp
      with int_mag_less [OF this n(2)] 3 that(1) show ?thesis by simp
    qed
  qed
  have "fl_less (fst (parse_float (itoa i))) (fst (parse_float (itoa j))) \<longleftrightarrow> ?r i < ?r j"
    using m by (simp add: parse_float_itoa [OF assms(1)] parse_float_itoa [OF assms(2)] fl_less_def fl_make_number fl_make_rank)
  moreover have "?r i < ?r j \<longleftrightarrow> i < j"
    using mono [of i j] mono [of j i] assms by (cases i j rule: linorder_cases) auto
  ultimately show ?thesis by simp
qed

end
