(* ===== verification/Rows.thy ===== *)
theory Rows
  imports Keys Floats
begin

text \<open>
  Rows as bytes: cells and the stored tuple format (executor/executor.go, executor/encode.go), and the
  order-preserving encoding of indexed values (executor/orderenc.go).
\<close>

subsection \<open>Cells and types\<close>

record Datum =
  d_Null :: bool
  d_Text :: string

abbreviation null_datum :: Datum where
  "null_datum \<equiv> \<lparr>d_Null = True, d_Text = []\<rparr>"

abbreviation text_datum :: "string \<Rightarrow> Datum" where
  "text_datum s \<equiv> \<lparr>d_Null = False, d_Text = s\<rparr>"

definition OIDBool :: nat where "OIDBool = 16"
definition OIDBytea :: nat where "OIDBytea = 17"
definition OIDChar :: nat where "OIDChar = 18"
definition OIDInt8 :: nat where "OIDInt8 = 20"
definition OIDInt2 :: nat where "OIDInt2 = 21"
definition OIDInt4 :: nat where "OIDInt4 = 23"
definition OIDText :: nat where "OIDText = 25"
definition OIDOid :: nat where "OIDOid = 26"
definition OIDJSON :: nat where "OIDJSON = 114"
definition OIDFloat4 :: nat where "OIDFloat4 = 700"
definition OIDFloat8 :: nat where "OIDFloat8 = 701"
definition OIDVarchar :: nat where "OIDVarchar = 1043"
definition OIDBpchar :: nat where "OIDBpchar = 1042"
definition OIDDate :: nat where "OIDDate = 1082"
definition OIDTime :: nat where "OIDTime = 1083"
definition OIDTimestamp :: nat where "OIDTimestamp = 1114"
definition OIDTimestamptz :: nat where "OIDTimestamptz = 1184"
definition OIDNumeric :: nat where "OIDNumeric = 1700"
definition OIDUUID :: nat where "OIDUUID = 2950"
definition OIDRecord :: nat where "OIDRecord = 2249"
definition OIDJSONB :: nat where "OIDJSONB = 3802"
definition OIDUnknown :: nat where "OIDUnknown = 705"
definition OIDTextArr :: nat where "OIDTextArr = 1009"
definition OIDInterval :: nat where "OIDInterval = 1186"
definition OIDInt4Arr :: nat where "OIDInt4Arr = 1007"
definition OIDInt8Arr :: nat where "OIDInt8Arr = 1016"
definition OIDBoolArr :: nat where "OIDBoolArr = 1000"
definition OIDFloat8Arr :: nat where "OIDFloat8Arr = 1022"

lemmas oid_defs =
  OIDBool_def OIDBytea_def OIDChar_def OIDInt8_def OIDInt2_def OIDInt4_def OIDText_def
  OIDOid_def OIDJSON_def OIDFloat4_def OIDFloat8_def OIDVarchar_def OIDBpchar_def OIDDate_def
  OIDTime_def OIDTimestamp_def OIDTimestamptz_def OIDNumeric_def OIDUUID_def OIDRecord_def OIDJSONB_def
  OIDUnknown_def OIDTextArr_def OIDInterval_def OIDInt4Arr_def OIDInt8Arr_def OIDBoolArr_def OIDFloat8Arr_def

subsection \<open>The tuple format (encode.go)\<close>

definition encode_cell :: "Datum \<Rightarrow> bytes" where
  "encode_cell c =
     (if d_Null c then CHR 0x01 # be 4 0 else CHR 0x00 # be 4 (length (d_Text c)) @ d_Text c)"

definition encodeRow :: "Datum list \<Rightarrow> bytes" where
  "encodeRow cells = foldl (\<lambda>out c. out @ encode_cell c) [RowTagLive] cells"

text \<open>The loop over the columns, on the bytes from \<open>pos\<close> on.\<close>

primrec decode_cells :: "nat \<Rightarrow> bytes \<Rightarrow> Datum list res" where
  "decode_cells 0 b = Inr []"
| "decode_cells (Suc n) b =
     (if b = [] then (case decode_cells n b of Inl e \<Rightarrow> Inl e | Inr cs \<Rightarrow> Inr (null_datum # cs))
      else if length b < 5 then Inl (ExecError ''XX000'')
      else if length b < 5 + unbe (take 4 (tl b)) then Inl (ExecError ''XX000'')
      else
        case decode_cells n (drop (5 + unbe (take 4 (tl b))) b) of
          Inl e \<Rightarrow> Inl e
        | Inr cs \<Rightarrow>
            Inr ((if hd b = CHR 0x01 then null_datum else text_datum (take (unbe (take 4 (tl b))) (drop 5 b))) # cs))"

definition decodeRow :: "bytes \<Rightarrow> nat \<Rightarrow> Datum list res" where
  "decodeRow b n =
     (if length b < 1 then Inl (ExecError ''XX000'')
      else if hd b = RowTagTombstone then Inl (ExecError ''XX000'')
      else decode_cells n (tl b))"

subsection \<open>Order-preserving values (orderenc.go)\<close>

definition isTruthy :: "string \<Rightarrow> bool" where
  "isTruthy text \<longleftrightarrow> toLower (trimSpace text) \<in> {''t'', ''true'', ''1'', ''y'', ''yes'', ''on''}"

definition encodeOrderedText :: "string \<Rightarrow> bytes" where
  "encodeOrderedText s = concat (map (\<lambda>c. if c = CHR 0x00 then [CHR 0x00, CHR 0xFF] else [c]) s) @ [CHR 0x00, CHR 0x00]"

definition orderEncode :: "nat \<Rightarrow> string \<Rightarrow> bytes res" where
  "orderEncode typeOID text =
     (if typeOID = OIDInt4 \<or> typeOID = OIDInt8 then
        (case ParseInt 64 (trimSpace text) of
           None \<Rightarrow> Inl (ExecError ''22P02'')
         | Some v \<Rightarrow> Inr (be 8 (unat ((word_of_int v :: u64) XOR push_bit 63 1))))
      else if typeOID = OIDFloat8 then
        (case ParseFloat (trimSpace text) of
           None \<Rightarrow> Inl (ExecError ''22P02'')
         | Some bits \<Rightarrow>
             (let bits = (if bits AND push_bit 63 1 \<noteq> 0 then NOT bits else bits OR push_bit 63 1)
              in Inr (be 8 (unat bits))))
      else if typeOID = OIDBool then Inr (if isTruthy text then [CHR 0x01] else [CHR 0x00])
      else Inr (encodeOrderedText text))"

subsection \<open>Rows round-trip\<close>

lemma foldl_cells: "foldl (\<lambda>out c. out @ encode_cell c) b cs = b @ concat (map encode_cell cs)"
  by (induction cs arbitrary: b) simp_all

lemma decode_none: "decode_cells n [] = Inr (replicate n null_datum)"
  by (induction n) simp_all

definition datum_ok :: "Datum \<Rightarrow> bool" where
  "datum_ok d \<longleftrightarrow> length (d_Text d) < 2 ^ 32 \<and> (d_Null d \<longrightarrow> d_Text d = [])"

lemma decode_cell:
  assumes "datum_ok d"
  shows "decode_cells (Suc n) (encode_cell d @ r) = (case decode_cells n r of Inl e \<Rightarrow> Inl e | Inr cs \<Rightarrow> Inr (d # cs))"
proof (cases "d_Null d")
  case True
  then have "d = null_datum" using assms by (cases d) (simp add: datum_ok_def)
  then show ?thesis by (simp add: encode_cell_def split: sum.split)
next
  case False
  then obtain t where d: "d = text_datum t" by (cases d) simp
  have "unbe (be 4 (length t)) = length t" using assms by (simp add: datum_ok_def d)
  moreover have "drop (5 + length t) (CHR 0x00 # be 4 (length t) @ t @ r) = r"
    using append_eq_conv_conj [of "CHR 0x00 # be 4 (length t) @ t" r "CHR 0x00 # be 4 (length t) @ t @ r"] by simp
  ultimately show ?thesis unfolding d by (simp add: encode_cell_def split: sum.split)
qed

lemma decode_cells_encoded:
  "\<forall>d \<in> set cs. datum_ok d \<Longrightarrow> decode_cells n (concat (map encode_cell cs)) = Inr (take n (cs @ replicate n null_datum))"
proof (induction cs arbitrary: n)
  case Nil
  show ?case by (simp add: decode_none)
next
  case (Cons d cs)
  show ?case
  proof (cases n)
    case (Suc m)
    have "take m (cs @ replicate (Suc m) null_datum) = take m (cs @ replicate m null_datum)"
      by (simp add: take_append flip: replicate_append_same)
    then show ?thesis using Cons Suc decode_cell [of d m "concat (map encode_cell cs)"] by simp
  qed simp
qed

text \<open>
  C30. Stored rows survive schema growth: a row decodes to its own cells when read with its own number
  of columns, with NULL for every column added to the table since, and with a prefix of its cells when
  columns at the end are gone; and it is never taken for a tombstone.
\<close>

theorem row_codec_roundtrip:
  assumes "\<forall>d \<in> set cs. datum_ok d"
  shows "decodeRow (encodeRow cs) n = Inr (take n (cs @ replicate n null_datum)) \<and> \<not> IsTombstone (encodeRow cs)"
  using decode_cells_encoded [OF assms]
  by (simp add: decodeRow_def encodeRow_def foldl_cells RowTagLive_def RowTagTombstone_def IsTombstone_def)

theorem row_codec_roundtrip_witness:
  "decodeRow (encodeRow [text_datum ''alice'', null_datum]) 3 = Inr [text_datum ''alice'', null_datum, null_datum]"
  using row_codec_roundtrip [of "[text_datum ''alice'', null_datum]" 3] by (simp add: datum_ok_def numeral_3_eq_3)

subsection \<open>Byte order of big-endian integers\<close>

lemma unbe_Cons: "unbe (c # cs) = of_char c * 256 ^ length cs + unbe cs"
proof (induction cs rule: rev_induct)
  case Nil
  show ?case by (simp add: unbe_def)
next
  case (snoc d ds)
  show ?case using snoc unbe_snoc [of "c # ds" d] by (simp add: algebra_simps)
qed

lemma bytes_less_iff: "length a = length b \<Longrightarrow> a < b \<longleftrightarrow> unbe a < unbe b" for a b :: bytes
proof (induction a b rule: list_induct2)
  case (Cons x xs y ys)
  have x: "unbe xs < 256 ^ length xs" "unbe ys < 256 ^ length xs"
    using unbe_less [of xs] unbe_less [of ys] Cons.hyps by simp_all
  have "of_char x * 256 ^ length xs + unbe xs < of_char y * 256 ^ length xs + unbe ys"
    if "of_char x < (of_char y :: nat)"
  proof -
    have "(of_char x + 1) * 256 ^ length xs \<le> of_char y * (256 :: nat) ^ length xs" using that by (intro mult_right_mono) simp_all
    then show ?thesis using x(1) by (simp add: algebra_simps)
  qed
  moreover have "of_char y * 256 ^ length xs + unbe ys < of_char x * 256 ^ length xs + unbe xs"
    if "of_char y < (of_char x :: nat)"
  proof -
    have "(of_char y + 1) * 256 ^ length xs \<le> of_char x * (256 :: nat) ^ length xs" using that by (intro mult_right_mono) simp_all
    then show ?thesis using x(2) by (simp add: algebra_simps)
  qed
  moreover have "x = y \<longleftrightarrow> (of_char x :: nat) = of_char y" by simp
  ultimately show ?case
    using Cons by (cases "(of_char x :: nat)" "of_char y :: nat" rule: linorder_cases) (auto simp: unbe_Cons less_char_iff)
qed simp

lemma be_less_iff: "j < 256 ^ n \<Longrightarrow> k < 256 ^ n \<Longrightarrow> be n j < be n k \<longleftrightarrow> j < k"
  by (simp add: bytes_less_iff)

text \<open>A strict order between encodings of one length, or at a terminator, does not depend on what follows.\<close>

lemma less_append: "length a = length b \<Longrightarrow> a < b \<Longrightarrow> a @ x < b @ y" for a b :: bytes
proof (induction a b rule: list_induct2)
  case (Cons c a d b)
  then show ?case by auto
qed simp

subsection \<open>Order-preserving text\<close>

lemma encodeOrderedText_simps:
  "encodeOrderedText [] = [CHR 0x00, CHR 0x00]"
  "encodeOrderedText (c # s) = (if c = CHR 0x00 then [CHR 0x00, CHR 0xFF] else [c]) @ encodeOrderedText s"
  by (simp_all add: encodeOrderedText_def)

lemma zero_least:
  assumes "c \<noteq> CHR 0x00"
  shows "CHR 0x00 < c"
proof -
  have "(of_char c :: nat) \<noteq> of_char (CHR 0x00)" using assms by (metis char_of_char)
  then show ?thesis by (simp add: less_char_iff)
qed

lemma text_order: "s < t \<Longrightarrow> encodeOrderedText s @ x < encodeOrderedText t @ y"
proof (induction s arbitrary: t)
  case Nil
  then obtain c u where "t = c # u" by (cases t) auto
  then show ?case using zero_least [of c] by (auto simp: encodeOrderedText_simps less_char_iff)
next
  case (Cons c s)
  then obtain d u where t: "t = d # u" by (cases t) auto
  consider "c < d" | "c = d" "s < u" using Cons.prems t by auto
  then show ?case
  proof cases
    case 1
    then have "d \<noteq> CHR 0x00" by (auto simp: less_char_iff)
    then show ?thesis using 1 t zero_least [of d] by (auto simp: encodeOrderedText_simps)
  next
    case 2
    then show ?thesis using Cons.IH [OF 2(2)] t by (auto simp: encodeOrderedText_simps)
  qed
qed

subsection \<open>Order-preserving numbers\<close>

lemma xor_top: "w XOR push_bit 63 1 = w + 2 ^ 63" for w :: u64
proof (cases "bit w 63")
  case True
  have "w XOR push_bit 63 1 = unset_bit 63 w" using True flip_bit_eq_if [of 63 w] unfolding flip_bit_eq_xor by simp
  also have "\<dots> = w - 2 ^ 63" using True by (simp add: unset_bit_eq)
  also have "\<dots> = w + 2 ^ 63" by (simp only: diff_eq_eq add.assoc) simp
  finally show ?thesis .
next
  case False
  have "w XOR push_bit 63 1 = set_bit 63 w" using False flip_bit_eq_if [of 63 w] unfolding flip_bit_eq_xor by simp
  also have "\<dots> = w + 2 ^ 63" using False by (simp add: set_bit_eq)
  finally show ?thesis .
qed

lemma int_key:
  assumes "- (2 ^ 63) \<le> v" and "v < 2 ^ 63"
  shows "unat ((word_of_int v :: u64) XOR push_bit 63 1) = nat (v + 2 ^ 63)"
proof -
  have "(word_of_int v :: u64) + 2 ^ 63 = word_of_int (v + 2 ^ 63)" by simp
  then have "uint ((word_of_int v :: u64) + 2 ^ 63) = v + 2 ^ 63"
    using assms by (simp only: uint_word_of_int) (simp add: mod_pos_pos_trivial)
  then show ?thesis unfolding xor_top by (metis unat_eq_nat_uint)
qed

text \<open>
  The place of a float among all floats by its bits: magnitudes ascend above zero and descend below it,
  -0 standing just before +0.
\<close>

definition float_key :: "u64 \<Rightarrow> int" where
  "float_key bits = (if bit bits 63 then - int (unat bits - 2 ^ 63) - 1 else int (unat bits))"

lemma top_bit: "bits AND push_bit 63 1 \<noteq> 0 \<longleftrightarrow> bit bits 63" for bits :: u64
  by (simp add: bit_iff_and_push_bit_not_eq_0)

lemma bit63: "bit bits 63 \<longleftrightarrow> 2 ^ 63 \<le> unat bits" for bits :: u64
proof -
  let ?q = "unat bits div 2 ^ 63"
  have "?q < 2" using unsigned_less [of bits] by (intro less_mult_imp_div_less) simp
  then consider "?q = 0" | "?q = 1" by linarith
  then have "odd ?q \<longleftrightarrow> \<not> unat bits < 2 ^ 63" by cases (simp_all only: div_eq_0_iff odd_one even_zero, simp_all)
  moreover have "bit bits 63 \<longleftrightarrow> odd ?q" unfolding bit_iff_odd [symmetric] by (simp add: bit_unsigned_iff)
  ultimately show ?thesis by (simp only: not_less)
qed

lemma complement_key:
  "int a = 2 ^ 64 - 1 - int n \<Longrightarrow> 2 ^ 63 \<le> n \<Longrightarrow> a = nat (- int (n - 2 ^ 63) - 1 + 2 ^ 63)" for a n :: nat
  by (simp add: of_nat_diff)

lemma shift_key: "a = n + 2 ^ 63 \<Longrightarrow> a = nat (int n + 2 ^ 63)" for a n :: nat
  by (simp add: nat_add_distrib)

lemma float_bits_key:
  "unat (if bits AND push_bit 63 1 \<noteq> 0 then NOT bits else bits OR push_bit 63 1 :: u64) = nat (float_key bits + 2 ^ 63)"
proof (cases "bit bits 63")
  case True
  have "uint (NOT bits) = 2 ^ 64 - 1 - uint bits"
    using unsigned_less [of bits, where 'a=int]
    by (simp add: unsigned_not_eq take_bit_not_eq_mask_diff mask_eq_exp_minus_1 take_bit_int_eq_self)
  then have "int (unat (NOT bits)) = 2 ^ 64 - 1 - int (unat bits)" by simp
  then have "unat (NOT bits) = nat (- int (unat bits - 2 ^ 63) - 1 + 2 ^ 63)" by (rule complement_key) (rule bit63 [THEN iffD1, OF True])
  then show ?thesis using True by (simp only: top_bit float_key_def if_True)
next
  case False
  have "bits OR push_bit 63 1 = set_bit 63 bits" by (simp add: set_bit_eq_or)
  also have "\<dots> = bits + 2 ^ 63" using False by (simp add: set_bit_eq)
  finally have "unat (bits OR push_bit 63 1) = unat bits + 2 ^ 63"
    using False by (simp add: bit63 unat_word_ariths)
  then have "unat (bits OR push_bit 63 1) = nat (int (unat bits) + 2 ^ 63)" by (rule shift_key)
  then show ?thesis using False by (simp only: top_bit float_key_def if_False)
qed

text \<open>What the encoder reads a text as: an integer or truth value, a float, or the text itself.\<close>

datatype col_key = KNum int | KFloat u64 | KText string

definition column_key :: "nat \<Rightarrow> string \<Rightarrow> col_key option" where
  "column_key ty s =
     (if ty = OIDInt4 \<or> ty = OIDInt8 then map_option KNum (ParseInt 64 (trimSpace s))
      else if ty = OIDFloat8 then map_option KFloat (ParseFloat (trimSpace s))
      else if ty = OIDBool then Some (KNum (if isTruthy s then 1 else 0))
      else Some (KText s))"

fun col_less :: "col_key \<Rightarrow> col_key \<Rightarrow> bool" where
  "col_less (KNum i) (KNum j) = (i < j)"
| "col_less (KFloat a) (KFloat b) = fl_less a b"
| "col_less (KText s) (KText t) = (s < t)"
| "col_less _ _ = False"

lemma key_range:
  "n < 2 ^ 64 \<Longrightarrow> 2 ^ 63 \<le> n \<Longrightarrow> - (2 ^ 63) \<le> - int (n - 2 ^ 63) - 1 \<and> - int (n - 2 ^ 63) - 1 < 2 ^ 63"
  "n < 2 ^ 63 \<Longrightarrow> - (2 ^ 63) \<le> int n \<and> int n < 2 ^ 63" for n :: nat
  by (simp_all add: of_nat_diff)

lemma float_key_bounds: "- (2 ^ 63) \<le> float_key w \<and> float_key w < 2 ^ 63"
proof (cases "bit w 63")
  case True
  have "unat w < 2 ^ 64" using unsigned_less [of w, where 'a=nat] by simp
  then show ?thesis unfolding float_key_def if_P [OF True] by (rule key_range) (rule bit63 [THEN iffD1, OF True])
next
  case False
  then have "unat w < 2 ^ 63" by (simp only: bit63 not_le)
  then show ?thesis unfolding float_key_def if_not_P [OF False] by (rule key_range)
qed

lemma float_key_rank: "float_key w = fl_rank w - (if bit w 63 then 1 else 0)"
proof (cases "bit w 63")
  case True
  have "unat w < 2 ^ 64" using unsigned_less [of w, where 'a=nat] by simp
  then have "unat w mod 2 ^ 63 = unat w - 2 ^ 63"
    using bit63 [THEN iffD1, OF True] by (simp add: mod_if [of "unat w"])
  then show ?thesis using True by (simp only: float_key_def fl_rank_def fl_mag_def if_True)
next
  case False
  then have "unat w < 2 ^ 63" by (simp only: bit63 not_le)
  then have "unat w mod 2 ^ 63 = unat w" by (rule mod_less)
  then show ?thesis using False by (simp only: float_key_def fl_rank_def fl_mag_def if_False diff_zero)
qed

lemma float_key_less: "fl_less a b \<Longrightarrow> float_key a < float_key b"
proof -
  assume l: "fl_less a b"
  then have r: "fl_rank a < fl_rank b" by (simp only: fl_less_def)
  have "bit a 63" if "bit b 63"
  proof (rule ccontr)
    assume "\<not> bit a 63"
    with that have "0 \<le> fl_rank a" "fl_rank b \<le> 0" by (simp_all only: fl_rank_def if_True if_False)
    with r show False by linarith
  qed
  then show ?thesis using r by (simp add: float_key_rank)
qed

lemma ParseInt_bounds: "ParseInt 64 s = Some i \<Longrightarrow> - (2 ^ 63) \<le> i \<and> i < 2 ^ 63"
  by (auto simp: ParseInt_def Let_def split: option.splits if_splits prod.splits list.splits)

lemma num_order:
  assumes "- (2 ^ 63) \<le> i" and "i < j" and "j < 2 ^ 63"
  shows "be 8 (nat (i + 2 ^ 63)) @ x < be 8 (nat (j + 2 ^ 63)) @ y"
  using assms by (intro less_append) (simp_all add: be_less_iff)

definition key_bytes :: "nat \<Rightarrow> col_key \<Rightarrow> bytes" where
  "key_bytes ty k = (case k of
     KNum i \<Rightarrow> if ty = OIDBool then [if i = 1 then CHR 0x01 else CHR 0x00] else be 8 (nat (i + 2 ^ 63))
   | KFloat w \<Rightarrow> be 8 (nat (float_key w + 2 ^ 63))
   | KText s \<Rightarrow> encodeOrderedText s)"

lemma orderEncode_key:
  "orderEncode ty s = (case column_key ty s of None \<Rightarrow> Inl (ExecError ''22P02'') | Some k \<Rightarrow> Inr (key_bytes ty k))"
proof -
  have "unat ((word_of_int v :: u64) XOR push_bit 63 1) = nat (v + 2 ^ 63)" if "ParseInt 64 (trimSpace s) = Some v" for v
    using int_key ParseInt_bounds [OF that] by blast
  then show ?thesis
    by (simp add: orderEncode_def column_key_def key_bytes_def oid_defs float_bits_key Let_def
        del: push_bit_of_1 split: option.split)
qed

lemma key_bytes_order:
  assumes "column_key ty s = Some i" and "column_key ty t = Some j" and "col_less i j"
  shows "key_bytes ty i @ x < key_bytes ty j @ y"
proof (cases "ty = OIDBool")
  case True
  then show ?thesis using assms
    by (auto simp: column_key_def key_bytes_def oid_defs less_char_iff split: if_splits)
next
  case False
  have b: "- (2 ^ 63) \<le> m \<and> m < 2 ^ 63" if "column_key ty u = Some (KNum m)" for u m
    using that False ParseInt_bounds by (auto simp: column_key_def split: if_splits)
  show ?thesis
  proof (cases "(i, j)" rule: col_less.cases)
    case (1 m n)
    then show ?thesis using assms False b [of s m] b [of t n] num_order [of m n x y] by (simp add: key_bytes_def)
  next
    case (2 u v)
    then have "float_key u < float_key v" using assms(3) by (simp add: float_key_less)
    then show ?thesis using 2 float_key_bounds [of u] float_key_bounds [of v] num_order [of "float_key u" "float_key v" x y]
      by (simp add: key_bytes_def)
  next
    case (3 u v)
    then show ?thesis using assms text_order by (simp add: key_bytes_def)
  qed (use assms in simp_all)
qed

text \<open>
  The value SQL gives a text by the type of its column, without regard to how it is encoded: integers of any width,
  floats of either width, truth values, and character types compared bytewise. Other types are left out.
\<close>

definition logical_value :: "nat \<Rightarrow> string \<Rightarrow> col_key option" where
  "logical_value ty s =
     (if ty \<in> {OIDInt2, OIDInt4, OIDInt8} then map_option KNum (ParseInt 64 (trimSpace s))
      else if ty \<in> {OIDFloat4, OIDFloat8} then map_option KFloat (ParseFloat (trimSpace s))
      else if ty = OIDBool then Some (KNum (if isTruthy s then 1 else 0))
      else if ty \<in> {OIDText, OIDVarchar, OIDBpchar, OIDChar} then Some (KText s)
      else None)"

fun value_eq :: "col_key \<Rightarrow> col_key \<Rightarrow> bool" where
  "value_eq (KNum i) (KNum j) = (i = j)"
| "value_eq (KFloat a) (KFloat b) = (\<not> isNaN a \<and> \<not> isNaN b \<and> fl_rank a = fl_rank b)"
| "value_eq (KText s) (KText t) = (s = t)"
| "value_eq _ _ = False"

definition float_zero :: "col_key \<Rightarrow> bool" where
  "float_zero k = (case k of KFloat a \<Rightarrow> fl_rank a = 0 | _ \<Rightarrow> False)"

text \<open>The types whose values the encoder orders, and those it treats as text although they are numbers.\<close>

definition ordered_types :: "nat set" where
  "ordered_types = {OIDInt4, OIDInt8, OIDFloat8, OIDBool, OIDText, OIDVarchar, OIDBpchar, OIDChar}"

lemma logical_column: "ty \<in> ordered_types \<Longrightarrow> logical_value ty s = column_key ty s"
  by (auto simp: ordered_types_def logical_value_def column_key_def oid_defs)

lemma float_key_eq:
  assumes "fl_rank a = fl_rank b" and "fl_rank a \<noteq> 0"
  shows "float_key a = float_key b"
proof -
  have "bit w 63 \<longleftrightarrow> fl_rank w < 0" if "fl_rank w \<noteq> 0" for w
  proof (cases "bit w 63")
    case True
    then have "fl_rank w \<le> 0" by (simp only: fl_rank_def if_True)
    with True that show ?thesis by simp
  next
    case False
    then have "0 \<le> fl_rank w" by (simp only: fl_rank_def if_False)
    with False show ?thesis by simp
  qed
  then show ?thesis using assms by (simp add: float_key_rank)
qed

lemma key_bytes_eq: "value_eq i j \<Longrightarrow> \<not> float_zero i \<Longrightarrow> key_bytes ty i = key_bytes ty j"
proof (induction i j rule: value_eq.induct)
  case (2 a b)
  then have "float_key a = float_key b" using float_key_eq [of a b] by (simp only: value_eq.simps float_zero_def col_key.case) simp
  then show ?case by (simp only: key_bytes_def col_key.case)
qed simp_all



text \<open>
  Outside these types the keys do not follow the values: int2 and float4 columns are ordered as text, so 10 comes
  before 9; and the two zeros of a float8 column, which are equal values, have different keys.
\<close>

lemma zero_keys: "float_key 0 = 0" "float_key (push_bit 63 1) = - 1"
  by (simp_all add: float_key_def)

theorem index_order_gaps:
  "logical_value OIDInt2 ''9'' = Some (KNum 9)" "logical_value OIDInt2 ''10'' = Some (KNum 10)"
  "\<exists>a b. orderEncode OIDInt2 ''9'' = Inr a \<and> orderEncode OIDInt2 ''10'' = Inr b \<and> b < a"
  "ParseFloat (trimSpace s) = Some 0 \<Longrightarrow> ParseFloat (trimSpace t) = Some (push_bit 63 1) \<Longrightarrow> orderEncode OIDFloat8 s \<noteq> orderEncode OIDFloat8 t"
proof -
  show "logical_value OIDInt2 ''9'' = Some (KNum 9)" "logical_value OIDInt2 ''10'' = Some (KNum 10)"
    by (simp_all add: logical_value_def oid_defs ParseInt_def trimSpace_def is_space_def parse_digits_def isDigit_def
        le_char_iff digits_val_def digit_val_def)
  have "''10'' < ''9''" by (simp add: less_char_iff)
  then have "encodeOrderedText ''10'' < encodeOrderedText ''9''" using text_order [of "''10''" "''9''" "[]" "[]"] by (simp only: append_Nil2)
  moreover have "orderEncode OIDInt2 u = Inr (encodeOrderedText u)" for u by (simp add: orderEncode_def oid_defs)
  ultimately show "\<exists>a b. orderEncode OIDInt2 ''9'' = Inr a \<and> orderEncode OIDInt2 ''10'' = Inr b \<and> b < a" by blast
next
  assume z: "ParseFloat (trimSpace s) = Some 0" "ParseFloat (trimSpace t) = Some (push_bit 63 1)"
  have "key_bytes OIDFloat8 (KFloat (push_bit 63 1)) @ [] < key_bytes OIDFloat8 (KFloat 0) @ []"
    unfolding key_bytes_def col_key.case zero_keys by (rule num_order) simp_all
  then have "key_bytes OIDFloat8 (KFloat 0) \<noteq> key_bytes OIDFloat8 (KFloat (push_bit 63 1))" by (metis less_irrefl)
  then show "orderEncode OIDFloat8 s \<noteq> orderEncode OIDFloat8 t"
    unfolding orderEncode_key column_key_def z by (simp add: oid_defs del: push_bit_of_1)
qed

end
