(* ===== verification/Ast.thy ===== *)
theory Ast
  imports GoLib "HOL-Library.Multiset"
begin

text \<open>
  The abstract syntax tree (ast/ast.go): one datatype per struct, with its fields in the order of the
  source. The structs that occur inside queries and expressions are types over the type \<open>'n\<close> of
  nodes, and \<open>Node\<close> ties the knot with a constructor for each of them. The structs that only occur as
  whole statements hold nodes but are never held by one; they are records, and \<open>Stmt\<close> is the statement
  the parser returns. A field that may be nil is an option.
\<close>

subsection \<open>Enumerations\<close>

datatype SetOpType = SetOpNone | SetOpUnion | SetOpIntersect | SetOpExcept

datatype JoinType = JOIN_INNER | JOIN_LEFT | JOIN_RIGHT | JOIN_FULL | JOIN_CROSS

datatype A_ExprKind = AEXPR_OP | AEXPR_OP_ANY | AEXPR_IN | AEXPR_LIKE | AEXPR_ILIKE | AEXPR_BETWEEN
  | AEXPR_NOT_LIKE | AEXPR_NOT_ILIKE | AEXPR_SIMILAR_TO | AEXPR_NOT_SIMILAR_TO

datatype ConstType = ConstNull | ConstString | ConstInt | ConstFloat | ConstBool

datatype BoolOp = AND_EXPR | OR_EXPR | NOT_EXPR

datatype ColQualKind = ColQualNotNull | ColQualNull | ColQualPrimaryKey | ColQualUnique | ColQualDefault
  | ColQualReferences | ColQualCheck | ColQualIdentity | ColQualGenerated

datatype AlterTableKind = AlterAddColumn | AlterDropColumn | AlterRenameTable | AlterRenameColumn
  | AlterColumnType | AlterSetDefault | AlterDropDefault | AlterSetNotNull | AlterDropNotNull
  | AlterAddConstraint | AlterEnableRLS | AlterDisableRLS | AlterForceRLS | AlterNoForceRLS

datatype ConstraintType = ConstrPrimaryKey | ConstrUnique | ConstrForeignKey | ConstrCheck

text \<open>The tags count up from zero in the order of the constant block.\<close>

type_synonym NodeTag = nat

definition T_Invalid :: NodeTag where "T_Invalid = 0"
definition T_SelectStmt :: NodeTag where "T_SelectStmt = 1"
definition T_InsertStmt :: NodeTag where "T_InsertStmt = 2"
definition T_UpdateStmt :: NodeTag where "T_UpdateStmt = 3"
definition T_DeleteStmt :: NodeTag where "T_DeleteStmt = 4"
definition T_CreateStmt :: NodeTag where "T_CreateStmt = 5"
definition T_IndexStmt :: NodeTag where "T_IndexStmt = 6"
definition T_CreateBranchStmt :: NodeTag where "T_CreateBranchStmt = 7"
definition T_MergeBranchStmt :: NodeTag where "T_MergeBranchStmt = 8"
definition T_DropBranchStmt :: NodeTag where "T_DropBranchStmt = 9"
definition T_ResTarget :: NodeTag where "T_ResTarget = 10"
definition T_RangeVar :: NodeTag where "T_RangeVar = 11"
definition T_JoinExpr :: NodeTag where "T_JoinExpr = 12"
definition T_ColumnRef :: NodeTag where "T_ColumnRef = 13"
definition T_A_Expr :: NodeTag where "T_A_Expr = 14"
definition T_A_Const :: NodeTag where "T_A_Const = 15"
definition T_ParamRef :: NodeTag where "T_ParamRef = 16"
definition T_FuncCall :: NodeTag where "T_FuncCall = 17"
definition T_BoolExpr :: NodeTag where "T_BoolExpr = 18"
definition T_NullTest :: NodeTag where "T_NullTest = 19"
definition T_SortBy :: NodeTag where "T_SortBy = 20"
definition T_Alias :: NodeTag where "T_Alias = 21"
definition T_WithClause :: NodeTag where "T_WithClause = 22"
definition T_CommonTableExpr :: NodeTag where "T_CommonTableExpr = 23"
definition T_SubLink :: NodeTag where "T_SubLink = 24"
definition T_TypeCast :: NodeTag where "T_TypeCast = 25"
definition T_A_Star :: NodeTag where "T_A_Star = 26"
definition T_DropStmt :: NodeTag where "T_DropStmt = 27"
definition T_TruncateStmt :: NodeTag where "T_TruncateStmt = 28"
definition T_AlterTableStmt :: NodeTag where "T_AlterTableStmt = 29"
definition T_List :: NodeTag where "T_List = 30"
definition T_CaseExpr :: NodeTag where "T_CaseExpr = 31"
definition T_CaseWhen :: NodeTag where "T_CaseWhen = 32"
definition T_CreateViewStmt :: NodeTag where "T_CreateViewStmt = 33"
definition T_CopyStmt :: NodeTag where "T_CopyStmt = 34"
definition T_SetToDefault :: NodeTag where "T_SetToDefault = 35"
definition T_ShowStmt :: NodeTag where "T_ShowStmt = 36"
definition T_SavepointStmt :: NodeTag where "T_SavepointStmt = 37"
definition T_CreateSeqStmt :: NodeTag where "T_CreateSeqStmt = 38"
definition T_CreateSchemaStmt :: NodeTag where "T_CreateSchemaStmt = 39"
definition T_CreateExtensionStmt :: NodeTag where "T_CreateExtensionStmt = 40"
definition T_CreateEnumStmt :: NodeTag where "T_CreateEnumStmt = 41"
definition T_ListenStmt :: NodeTag where "T_ListenStmt = 42"
definition T_DoNothingStmt :: NodeTag where "T_DoNothingStmt = 43"
definition T_ExplainStmt :: NodeTag where "T_ExplainStmt = 44"
definition T_RowExpr :: NodeTag where "T_RowExpr = 45"
definition T_FieldSelect :: NodeTag where "T_FieldSelect = 46"
definition T_CreatePolicyStmt :: NodeTag where "T_CreatePolicyStmt = 47"
definition T_AlterPolicyStmt :: NodeTag where "T_AlterPolicyStmt = 48"
definition T_DropPolicyStmt :: NodeTag where "T_DropPolicyStmt = 49"
definition T_CreateTypeStmt :: NodeTag where "T_CreateTypeStmt = 50"

subsection \<open>Structs without nodes\<close>

datatype Alias = Alias (al_AliasName: string) (al_ColNames: "string list")

datatype RangeVar = RangeVar (rv_SchemaName: string) (rv_RelName: string) (rv_Alias: "Alias option")

datatype CompositeField = CompositeField (cf_Name: string) (cf_TypeName: string)

subsection \<open>Structs with nodes\<close>

datatype 'n ResTarget = ResTarget (rt_Name: string) (rt_Val: "'n option")

datatype 'n SortBy = SortBy (sb_Node: "'n option") (sb_SortDir: int)

datatype 'n WindowDef = WindowDef (wd_PartitionBy: "'n list") (wd_OrderBy: "'n SortBy list")

datatype 'n FuncCall = FuncCall (fc_FuncName: "string list") (fc_Args: "'n list") (fc_AggStar: bool)
  (fc_AggDistinct: bool) (fc_Over: "'n WindowDef option") (fc_Filter: "'n option")
  (fc_WithinGroup: "'n WindowDef option") (fc_Alias: "Alias option")

datatype 'n CommonTableExpr = CommonTableExpr (cte_Name: string) (cte_Cols: "string list") (cte_Query: "'n option")

datatype 'n WithClause = WithClause (wc_CTEs: "'n CommonTableExpr list") (wc_Recursive: bool)

datatype 'n SelectStmt = SelectStmt (ss_WithClause: "'n WithClause option") (ss_Distinct: bool)
  (ss_DistinctOn: "'n list") (ss_TargetList: "'n ResTarget list") (ss_FromClause: "'n list")
  (ss_WhereClause: "'n option") (ss_GroupClause: "'n list") (ss_HavingClause: "'n option")
  (ss_SortClause: "'n SortBy list") (ss_LimitCount: "'n option") (ss_LimitOffset: "'n option")
  (ss_SetOp: SetOpType) (ss_All: bool) (ss_Larg: "'n SelectStmt option") (ss_Rarg: "'n SelectStmt option")

datatype 'n JoinExpr = JoinExpr (je_JoinType: JoinType) (je_Larg: "'n option") (je_Rarg: "'n option")
  (je_Quals: "'n option") (je_UsingCols: "string list") (je_Alias: "Alias option")

datatype 'n CaseWhen = CaseWhen (cw_Cond: 'n) (cw_Result: 'n)

datatype 'n CaseExpr = CaseExpr (ce_Arg: "'n option") (ce_Whens: "'n CaseWhen list") (ce_Else: "'n option")

datatype Node =
    N_SelectStmt "Node SelectStmt"
  | N_ResTarget "Node ResTarget"
  | N_RangeVar RangeVar
  | N_JoinExpr "Node JoinExpr"
  | ColumnRef "string list"
  | A_Expr A_ExprKind string "Node option" "Node option"
  | RowExpr "Node option list"
  | A_Const ConstType string
  | ParamRef int
  | N_FuncCall "Node FuncCall"
  | BoolExpr BoolOp "Node list"
  | NullTest "Node option" bool
  | N_SortBy "Node SortBy"
  | N_Alias Alias
  | N_WithClause "Node WithClause"
  | N_CommonTableExpr "Node CommonTableExpr"
  | NList "Node list"
  | SubLink "Node option" "Alias option" bool
  | RangeSubselect "Node option" "Alias option" bool
  | TypeCast "Node option" string
  | A_Star
  | N_CaseExpr "Node CaseExpr"
  | N_CaseWhen "Node CaseWhen"
  | SetToDefault
  | FieldSelect "Node option" string

subsection \<open>Whole statements\<close>

record OnConflictClause =
  oc_Columns :: "string list"
  oc_DoNothing :: bool
  oc_DoUpdateSet :: "Node ResTarget list"

record InsertStmt =
  is_Relation :: "RangeVar option"
  is_Cols :: "Node ResTarget list"
  is_SelectStmt :: "Node option"
  is_MultiRows :: "Node list list"
  is_ReturningList :: "Node ResTarget list"
  is_OnConflict :: "OnConflictClause option"

record UpdateStmt =
  us_Relation :: "RangeVar option"
  us_TargetList :: "Node ResTarget list"
  us_FromClause :: "Node list"
  us_WhereClause :: "Node option"
  us_ReturningList :: "Node ResTarget list"

record DeleteStmt =
  ds_Relation :: "RangeVar option"
  ds_UsingClause :: "Node list"
  ds_WhereClause :: "Node option"
  ds_ReturningList :: "Node ResTarget list"

record CreateBranchStmt =
  cbs_BranchName :: string
  cbs_FromBranch :: string

record MergeBranchStmt =
  mbs_SourceBranch :: string
  mbs_TargetBranch :: string

record ColumnDef =
  cd_ColName :: string
  cd_TypeName :: string
  cd_NotNull :: bool
  cd_PrimaryKey :: bool
  cd_Unique :: bool
  cd_Default :: "Node option"
  cd_Check :: "Node option"
  cd_FKTable :: string
  cd_FKColumn :: string
  cd_FKName :: string
  cd_FKDeferrable :: bool
  cd_FKInitiallyDeferred :: bool
  cd_Identity :: bool
  cd_IdentityAlways :: bool
  cd_Generated :: bool
  cd_GeneratedExpr :: "Node option"
  cd_FKOnDelete :: string
  cd_FKOnUpdate :: string

record ColQual =
  cq_Kind :: ColQualKind
  cq_Expr :: "Node option"
  cq_RefTable :: string
  cq_RefCol :: string
  cq_ConstraintName :: string
  cq_Deferrable :: bool
  cq_InitiallyDeferred :: bool
  cq_Identity :: bool
  cq_IdentityAlways :: bool
  cq_Generated :: bool
  cq_GeneratedExpr :: "Node option"
  cq_OnDelete :: string
  cq_OnUpdate :: string

record AlterTableConstraint =
  atc_ConstraintType :: ConstraintType
  atc_Name :: string
  atc_Columns :: "string list"
  atc_RefTable :: string
  atc_RefColumns :: "string list"
  atc_OnDelete :: string
  atc_OnUpdate :: string
  atc_Expr :: "Node option"
  atc_Deferrable :: bool
  atc_InitiallyDeferred :: bool

record CreateStmt =
  cs_Relation :: "RangeVar option"
  cs_TableElts :: "ColumnDef list"
  cs_IfNotExists :: bool
  cs_Temporary :: bool
  cs_AsSelect :: "Node SelectStmt option"
  cs_TableConstraints :: "AlterTableConstraint list"

record CreateViewStmt =
  cvs_Relation :: "RangeVar option"
  cvs_Query :: "Node option"
  cvs_Replace :: bool
  cvs_Materialized :: bool
  cvs_IfNotExists :: bool

record CopyStmt =
  cps_Table :: string
  cps_Columns :: "string list"
  cps_Query :: "Node option"
  cps_IsFrom :: bool
  cps_Format :: string
  cps_Delimiter :: string
  cps_Header :: bool

record IndexElem =
  ie_ColName :: string
  ie_Expr :: "Node option"

record IndexStmt =
  ixs_Name :: string
  ixs_Table :: string
  ixs_Columns :: "string list"
  ixs_Elems :: "IndexElem list"
  ixs_Where :: "Node option"
  ixs_Unique :: bool

record DropStmt =
  drs_Table :: string
  drs_IfExists :: bool
  drs_IsView :: bool
  drs_IsSequence :: bool
  drs_IsSchema :: bool
  drs_IsExtension :: bool
  drs_IsType :: bool

record AlterTableCmd =
  atd_Subtype :: AlterTableKind
  atd_Name :: string
  atd_NewName :: string
  atd_TypeName :: string
  atd_UsingExpr :: "Node option"
  atd_DefExpr :: "Node option"
  atd_Constraint :: "AlterTableConstraint option"

record AlterTableStmt =
  ats_Table :: string
  ats_Kind :: AlterTableKind
  ats_Column :: ColumnDef
  ats_NewName :: string
  ats_Cmds :: "AlterTableCmd list"
  ats_Relation :: "RangeVar option"

record SavepointStmt =
  svs_Name :: string
  svs_Release :: bool
  svs_Rollback :: bool

record CreateSeqStmt =
  sqs_Sequence :: "RangeVar option"
  sqs_IfNotExists :: bool

record CreateSchemaStmt =
  scs_SchemaName :: string
  scs_IfNotExists :: bool

record CreateExtensionStmt =
  exs_ExtName :: string
  exs_IfNotExists :: bool

record CreateEnumStmt =
  ens_TypeName :: "RangeVar option"
  ens_Vals :: "string list"

record ListenStmt =
  lns_Channel :: string
  lns_IsNotify :: bool
  lns_IsUnlisten :: bool
  lns_Payload :: string

record CreatePolicyStmt =
  pls_PolicyName :: string
  pls_Table :: string
  pls_Permissive :: bool
  pls_Command :: string
  pls_Roles :: "string list"
  pls_Using :: "Node option"
  pls_WithCheck :: "Node option"

record AlterPolicyStmt =
  aps_PolicyName :: string
  aps_Table :: string
  aps_Roles :: "string list"
  aps_Using :: "Node option"
  aps_WithCheck :: "Node option"

record DropPolicyStmt =
  dps_PolicyName :: string
  dps_Table :: string
  dps_IfExists :: bool

record CreateTypeStmt =
  cts_Name :: string
  cts_Fields :: "CompositeField list"

datatype Stmt =
    S_Node Node
  | S_InsertStmt InsertStmt
  | S_UpdateStmt UpdateStmt
  | S_DeleteStmt DeleteStmt
  | S_CreateBranchStmt CreateBranchStmt
  | S_MergeBranchStmt MergeBranchStmt
  | DropBranchStmt string
  | S_CreateStmt CreateStmt
  | S_CreateViewStmt CreateViewStmt
  | ShowStmt string
  | S_CopyStmt CopyStmt
  | S_IndexStmt IndexStmt
  | S_DropStmt DropStmt
  | TruncateStmt string
  | S_AlterTableStmt AlterTableStmt
  | S_SavepointStmt SavepointStmt
  | S_CreateSeqStmt CreateSeqStmt
  | S_CreateSchemaStmt CreateSchemaStmt
  | S_CreateExtensionStmt CreateExtensionStmt
  | S_CreateEnumStmt CreateEnumStmt
  | S_ListenStmt ListenStmt
  | DoNothingStmt
  | ExplainStmt "Stmt option" bool bool
  | S_CreatePolicyStmt CreatePolicyStmt
  | S_AlterPolicyStmt AlterPolicyStmt
  | S_DropPolicyStmt DropPolicyStmt
  | S_CreateTypeStmt CreateTypeStmt

subsection \<open>Tags and traversal\<close>

definition opt_list :: "'a option \<Rightarrow> 'a list" where
  "opt_list x = (case x of None \<Rightarrow> [] | Some y \<Rightarrow> [y])"

definition nodeTag :: "Node \<Rightarrow> NodeTag" where
  "nodeTag n = (case n of
     N_SelectStmt _ \<Rightarrow> T_SelectStmt | N_ResTarget _ \<Rightarrow> T_ResTarget | N_RangeVar _ \<Rightarrow> T_RangeVar
   | N_JoinExpr _ \<Rightarrow> T_JoinExpr | ColumnRef _ \<Rightarrow> T_ColumnRef | A_Expr _ _ _ _ \<Rightarrow> T_A_Expr | RowExpr _ \<Rightarrow> T_RowExpr
   | A_Const _ _ \<Rightarrow> T_A_Const | ParamRef _ \<Rightarrow> T_ParamRef | N_FuncCall _ \<Rightarrow> T_FuncCall | BoolExpr _ _ \<Rightarrow> T_BoolExpr
   | NullTest _ _ \<Rightarrow> T_NullTest | N_SortBy _ \<Rightarrow> T_SortBy | N_Alias _ \<Rightarrow> T_Alias | N_WithClause _ \<Rightarrow> T_WithClause
   | N_CommonTableExpr _ \<Rightarrow> T_CommonTableExpr | NList _ \<Rightarrow> T_List | SubLink _ _ _ \<Rightarrow> T_SubLink
   | RangeSubselect _ _ _ \<Rightarrow> T_SubLink | TypeCast _ _ \<Rightarrow> T_TypeCast | A_Star \<Rightarrow> T_A_Star
   | N_CaseExpr _ \<Rightarrow> T_CaseExpr | N_CaseWhen _ \<Rightarrow> T_CaseWhen | SetToDefault \<Rightarrow> T_SetToDefault
   | FieldSelect _ _ \<Rightarrow> T_FieldSelect)"

definition TagOf :: "Node option \<Rightarrow> NodeTag" where
  "TagOf n = (case n of None \<Rightarrow> T_Invalid | Some n \<Rightarrow> nodeTag n)"

text \<open>
  The methods \<open>walkChildren\<close> call the visitor on each direct child in turn and stop at the first error;
  the model gives the children in the order of the calls.
\<close>

definition walk_SelectStmt :: "Node SelectStmt \<Rightarrow> Node list" where
  "walk_SelectStmt s =
     map N_SelectStmt (opt_list (ss_Larg s)) @ map N_SelectStmt (opt_list (ss_Rarg s))
     @ map N_WithClause (opt_list (ss_WithClause s)) @ map N_ResTarget (ss_TargetList s) @ ss_FromClause s
     @ opt_list (ss_WhereClause s) @ ss_GroupClause s @ opt_list (ss_HavingClause s)
     @ map N_SortBy (ss_SortClause s) @ opt_list (ss_LimitCount s) @ opt_list (ss_LimitOffset s)"

definition walk_ResTarget :: "Node ResTarget \<Rightarrow> Node list" where
  "walk_ResTarget r = opt_list (rt_Val r)"

definition walk_RangeVar :: "RangeVar \<Rightarrow> Node list" where
  "walk_RangeVar r = map N_Alias (opt_list (rv_Alias r))"

definition walk_JoinExpr :: "Node JoinExpr \<Rightarrow> Node list" where
  "walk_JoinExpr j =
     opt_list (je_Larg j) @ opt_list (je_Rarg j) @ opt_list (je_Quals j) @ map N_Alias (opt_list (je_Alias j))"

definition walk_A_Expr :: "Node option \<Rightarrow> Node option \<Rightarrow> Node list" where
  "walk_A_Expr lexpr rexpr = opt_list lexpr @ opt_list rexpr"

definition walk_RowExpr :: "Node option list \<Rightarrow> Node list" where
  "walk_RowExpr its = concat (map opt_list its)"

definition walk_FuncCall :: "Node FuncCall \<Rightarrow> Node list" where
  "walk_FuncCall c = fc_Args c"

definition walk_SortBy :: "Node SortBy \<Rightarrow> Node list" where
  "walk_SortBy s = opt_list (sb_Node s)"

definition walk_WithClause :: "Node WithClause \<Rightarrow> Node list" where
  "walk_WithClause w = map N_CommonTableExpr (wc_CTEs w)"

definition walk_CommonTableExpr :: "Node CommonTableExpr \<Rightarrow> Node list" where
  "walk_CommonTableExpr c = opt_list (cte_Query c)"

definition walk_SubLink :: "Node option \<Rightarrow> Alias option \<Rightarrow> Node list" where
  "walk_SubLink subSelect alias = opt_list subSelect @ map N_Alias (opt_list alias)"

definition walk_RangeSubselect :: "Node option \<Rightarrow> Alias option \<Rightarrow> Node list" where
  "walk_RangeSubselect subquery alias = opt_list subquery @ map N_Alias (opt_list alias)"

definition walk_CaseExpr :: "Node CaseExpr \<Rightarrow> Node list" where
  "walk_CaseExpr c = opt_list (ce_Arg c) @ map N_CaseWhen (ce_Whens c) @ opt_list (ce_Else c)"

definition walk_CaseWhen :: "Node CaseWhen \<Rightarrow> Node list" where
  "walk_CaseWhen w = [cw_Cond w, cw_Result w]"

definition walkChildren :: "Node \<Rightarrow> Node list" where
  "walkChildren n = (case n of
     N_SelectStmt s \<Rightarrow> walk_SelectStmt s
   | N_ResTarget r \<Rightarrow> walk_ResTarget r
   | N_RangeVar r \<Rightarrow> walk_RangeVar r
   | N_JoinExpr j \<Rightarrow> walk_JoinExpr j
   | A_Expr _ _ lexpr rexpr \<Rightarrow> walk_A_Expr lexpr rexpr
   | RowExpr its \<Rightarrow> walk_RowExpr its
   | N_FuncCall c \<Rightarrow> walk_FuncCall c
   | BoolExpr _ args \<Rightarrow> args
   | NullTest arg _ \<Rightarrow> opt_list arg
   | N_SortBy s \<Rightarrow> walk_SortBy s
   | N_WithClause w \<Rightarrow> walk_WithClause w
   | N_CommonTableExpr c \<Rightarrow> walk_CommonTableExpr c
   | NList its \<Rightarrow> its
   | SubLink subSelect alias _ \<Rightarrow> walk_SubLink subSelect alias
   | RangeSubselect subquery alias _ \<Rightarrow> walk_RangeSubselect subquery alias
   | TypeCast arg _ \<Rightarrow> opt_list arg
   | N_CaseExpr c \<Rightarrow> walk_CaseExpr c
   | N_CaseWhen w \<Rightarrow> walk_CaseWhen w
   | FieldSelect arg _ \<Rightarrow> opt_list arg
   | _ \<Rightarrow> [])"

text \<open>The children of a whole statement.\<close>

definition walk_InsertStmt :: "InsertStmt \<Rightarrow> Node list" where
  "walk_InsertStmt s =
     map N_RangeVar (opt_list (is_Relation s)) @ map N_ResTarget (is_Cols s) @ opt_list (is_SelectStmt s)
     @ map N_ResTarget (is_ReturningList s)"

definition walk_UpdateStmt :: "UpdateStmt \<Rightarrow> Node list" where
  "walk_UpdateStmt s =
     map N_RangeVar (opt_list (us_Relation s)) @ map N_ResTarget (us_TargetList s) @ us_FromClause s
     @ opt_list (us_WhereClause s) @ map N_ResTarget (us_ReturningList s)"

definition walk_DeleteStmt :: "DeleteStmt \<Rightarrow> Node list" where
  "walk_DeleteStmt s =
     map N_RangeVar (opt_list (ds_Relation s)) @ ds_UsingClause s @ opt_list (ds_WhereClause s)
     @ map N_ResTarget (ds_ReturningList s)"

definition stmt_children :: "Stmt \<Rightarrow> Node list" where
  "stmt_children st = (case st of
     S_Node n \<Rightarrow> walkChildren n
   | S_InsertStmt s \<Rightarrow> walk_InsertStmt s
   | S_UpdateStmt s \<Rightarrow> walk_UpdateStmt s
   | S_DeleteStmt s \<Rightarrow> walk_DeleteStmt s
   | S_CreateViewStmt s \<Rightarrow> opt_list (cvs_Query s)
   | S_CopyStmt s \<Rightarrow> opt_list (cps_Query s)
   | S_CreatePolicyStmt s \<Rightarrow> opt_list (pls_Using s) @ opt_list (pls_WithCheck s)
   | S_AlterPolicyStmt s \<Rightarrow> opt_list (aps_Using s) @ opt_list (aps_WithCheck s)
   | _ \<Rightarrow> [])"

lemmas walk_defs = walk_SelectStmt_def walk_ResTarget_def walk_RangeVar_def walk_JoinExpr_def walk_A_Expr_def
  walk_RowExpr_def walk_FuncCall_def walk_SortBy_def walk_WithClause_def walk_CommonTableExpr_def
  walk_SubLink_def walk_RangeSubselect_def walk_CaseExpr_def walk_CaseWhen_def

text \<open>A child is a smaller tree, so a traversal ends.\<close>

lemma opt_list_simps [simp]: "opt_list None = []" "opt_list (Some x) = [x]"
  by (simp_all add: opt_list_def)

lemma opt_list_set [simp]: "x \<in> set (opt_list y) \<longleftrightarrow> y = Some x"
  by (cases y) auto

lemma size_list_member: "x \<in> set xs \<Longrightarrow> f x < size_list f xs"
  by (induction xs) auto

definition rank :: "Node \<Rightarrow> nat" where
  "rank n = 2 * size n + (case n of N_Alias _ \<Rightarrow> 0 | _ \<Rightarrow> 1)"

lemma rank_le: "rank c \<le> 2 * size c + 1"
  by (cases c) (simp_all add: rank_def)

lemma size_nodes:
  "size (N_SelectStmt s) = Suc (size_SelectStmt size s)" "size (N_WithClause w) = Suc (size_WithClause size w)"
  "size (N_ResTarget t) = Suc (size_ResTarget size t)" "size (N_SortBy b) = Suc (size_SortBy size b)"
  "size (N_CommonTableExpr e) = Suc (size_CommonTableExpr size e)" "size (N_CaseWhen v) = Suc (size_CaseWhen size v)"
  "size (N_Alias a) = 0"
  by simp_all

lemma select_child: "c \<in> set (walk_SelectStmt s) \<Longrightarrow> size c < size (N_SelectStmt s)"
  by (cases s) (auto simp: walk_SelectStmt_def dest: size_list_member [where f = size]
      size_list_member [where f = "size_ResTarget size"] size_list_member [where f = "size_SortBy size"])

lemma walkChildren_rank:
  assumes "c \<in> set (walkChildren n)"
  shows "rank c < rank n"
proof (cases n)
  case (N_SelectStmt s)
  then show ?thesis using assms select_child [of c s] rank_le [of c] by (simp add: walkChildren_def rank_def)
next
  case (N_RangeVar r)
  then show ?thesis using assms by (auto simp: walkChildren_def walk_defs rank_def)
next
  case (N_ResTarget r)
  then show ?thesis using assms rank_le [of c] by (cases r) (auto simp: walkChildren_def walk_defs rank_def)
next
  case (N_JoinExpr j)
  then show ?thesis using assms rank_le [of c] by (cases j) (auto simp: walkChildren_def walk_defs rank_def)
next
  case (RowExpr its)
  then show ?thesis using assms rank_le [of c]
    by (fastforce simp: walkChildren_def walk_defs rank_def dest: size_list_member [where f = "size_option size"])
next
  case (N_FuncCall f)
  then show ?thesis using assms rank_le [of c]
    by (cases f) (auto simp: walkChildren_def walk_defs rank_def dest: size_list_member [where f = size])
next
  case (N_SortBy b)
  then show ?thesis using assms rank_le [of c] by (cases b) (auto simp: walkChildren_def walk_defs rank_def)
next
  case (N_WithClause w)
  then show ?thesis using assms rank_le [of c]
    by (cases w) (auto simp: walkChildren_def walk_defs rank_def dest: size_list_member [where f = "size_CommonTableExpr size"])
next
  case (N_CommonTableExpr e)
  then show ?thesis using assms rank_le [of c] by (cases e) (auto simp: walkChildren_def walk_defs rank_def)
next
  case (N_CaseExpr e)
  then show ?thesis using assms rank_le [of c]
    by (cases e) (auto simp: walkChildren_def walk_defs rank_def dest: size_list_member [where f = "size_CaseWhen size"])
next
  case (N_CaseWhen w)
  then show ?thesis using assms rank_le [of c] by (cases w) (auto simp: walkChildren_def walk_defs rank_def)
next
  case (BoolExpr o args)
  then show ?thesis using assms rank_le [of c]
    by (auto simp: walkChildren_def rank_def dest: size_list_member [where f = size])
next
  case (NList its)
  then show ?thesis using assms rank_le [of c]
    by (auto simp: walkChildren_def rank_def dest: size_list_member [where f = size])
qed (use assms rank_le [of c] in \<open>auto simp: walkChildren_def walk_defs rank_def\<close>)

text \<open>A visitor runs on a state and may return an error; the loop over the children stops at the first one.\<close>

type_synonym ('n, 's) visitor = "'n \<Rightarrow> 's \<Rightarrow> 's \<times> go_error option"

primrec each :: "('n, 's) visitor \<Rightarrow> 'n list \<Rightarrow> 's \<Rightarrow> 's \<times> go_error option" where
  "each f [] s = (s, None)"
| "each f (c # cs) s = (case f c s of (s', Some e) \<Rightarrow> (s', Some e) | (s', None) \<Rightarrow> each f cs s')"

lemma each_cong [fundef_cong]:
  "xs = ys \<Longrightarrow> s = t \<Longrightarrow> (\<And>x u. x \<in> set ys \<Longrightarrow> f x u = g x u) \<Longrightarrow> each f xs s = each g ys t"
  by (induction ys arbitrary: xs s t) (auto split: prod.split option.split)

function Walk :: "Node \<Rightarrow> (Node, 's) visitor \<Rightarrow> 's \<Rightarrow> 's \<times> go_error option" where
  "Walk n f s =
     (case f n s of
        (s', Some e) \<Rightarrow> (s', Some e)
      | (s', None) \<Rightarrow> each (\<lambda>c u. Walk c f u) (walkChildren n) s')"
  by pat_completeness auto
termination
  by (relation "measure (\<lambda>(n, f, s). rank n)") (auto dest: walkChildren_rank)

declare Walk.simps [simp del]

text \<open>The nodes of a tree in the order a traversal meets them.\<close>

function preorder :: "Node \<Rightarrow> Node list" where
  "preorder n = n # concat (map preorder (walkChildren n))"
  by pat_completeness auto
termination
  by (relation "measure rank") (auto dest: walkChildren_rank)

declare preorder.simps [simp del]

lemma each_append: "each f (xs @ ys) s = (case each f xs s of (s', Some e) \<Rightarrow> (s', Some e) | (s', None) \<Rightarrow> each f ys s')"
  by (induction xs arbitrary: s) (auto split: prod.split option.split)

lemma each_concat: "each f (concat (map g xs)) s = each (\<lambda>x. each f (g x)) xs s"
  by (induction xs arbitrary: s) (auto simp: each_append split: prod.split option.split)

lemma Walk_preorder: "Walk n f s = each f (preorder n) s"
proof (induction n arbitrary: s rule: preorder.induct)
  case (1 n)
  have "each (\<lambda>c u. Walk c f u) (walkChildren n) t = each f (concat (map preorder (walkChildren n))) t" for t
    unfolding each_concat using 1 by (intro each_cong) simp_all
  then show ?case by (simp add: Walk.simps [of n] preorder.simps [of n] split: prod.split option.split)
qed

subsection \<open>Column qualifiers\<close>

definition empty_column :: ColumnDef where
  "empty_column = \<lparr>cd_ColName = [], cd_TypeName = [], cd_NotNull = False, cd_PrimaryKey = False, cd_Unique = False,
     cd_Default = None, cd_Check = None, cd_FKTable = [], cd_FKColumn = [], cd_FKName = [], cd_FKDeferrable = False,
     cd_FKInitiallyDeferred = False, cd_Identity = False, cd_IdentityAlways = False, cd_Generated = False,
     cd_GeneratedExpr = None, cd_FKOnDelete = [], cd_FKOnUpdate = []\<rparr>"

definition apply_qual :: "ColQual \<Rightarrow> ColumnDef \<Rightarrow> ColumnDef" where
  "apply_qual q cd = (case cq_Kind q of
     ColQualNotNull \<Rightarrow> cd\<lparr>cd_NotNull := True\<rparr>
   | ColQualNull \<Rightarrow> cd\<lparr>cd_NotNull := False\<rparr>
   | ColQualPrimaryKey \<Rightarrow> cd\<lparr>cd_PrimaryKey := True, cd_NotNull := True\<rparr>
   | ColQualUnique \<Rightarrow> cd\<lparr>cd_Unique := True\<rparr>
   | ColQualDefault \<Rightarrow> cd\<lparr>cd_Default := cq_Expr q\<rparr>
   | ColQualReferences \<Rightarrow> cd\<lparr>cd_FKTable := cq_RefTable q, cd_FKColumn := cq_RefCol q, cd_FKOnDelete := cq_OnDelete q,
       cd_FKOnUpdate := cq_OnUpdate q, cd_FKName := cq_ConstraintName q, cd_FKDeferrable := cq_Deferrable q,
       cd_FKInitiallyDeferred := cq_InitiallyDeferred q\<rparr>
   | ColQualCheck \<Rightarrow> cd\<lparr>cd_Check := cq_Expr q\<rparr>
   | ColQualIdentity \<Rightarrow> cd\<lparr>cd_Identity := True, cd_IdentityAlways := cq_IdentityAlways q, cd_NotNull := True\<rparr>
   | ColQualGenerated \<Rightarrow> cd\<lparr>cd_Generated := True, cd_GeneratedExpr := cq_GeneratedExpr q\<rparr>)"

definition NewColumnDef :: "string \<Rightarrow> string \<Rightarrow> ColQual list \<Rightarrow> ColumnDef" where
  "NewColumnDef name typeName quals = fold apply_qual quals (empty_column\<lparr>cd_ColName := name, cd_TypeName := typeName\<rparr>)"

lemma apply_qual_commute:
  assumes "cq_Kind q \<noteq> cq_Kind r" and "cq_Kind q \<noteq> ColQualNull" and "cq_Kind r \<noteq> ColQualNull"
  shows "apply_qual q (apply_qual r cd) = apply_qual r (apply_qual q cd)"
  using assms by (cases cd; cases "cq_Kind q"; cases "cq_Kind r") (simp_all add: apply_qual_def)

lemma distinct_map_eq: "distinct (map f xs) \<Longrightarrow> x \<in> set xs \<Longrightarrow> y \<in> set xs \<Longrightarrow> f x = f y \<Longrightarrow> x = y"
  by (simp add: distinct_map inj_on_def)

text \<open>
  Column qualifiers may come in any order: two orderings of qualifiers of different kinds, none of
  them a bare NULL, define the same column.
\<close>

theorem column_qualifiers_any_order:
  assumes "mset quals = mset quals'" and "distinct (map cq_Kind quals)" and "ColQualNull \<notin> cq_Kind ` set quals"
  shows "NewColumnDef name typ quals = NewColumnDef name typ quals'"
proof -
  have "apply_qual q \<circ> apply_qual r = apply_qual r \<circ> apply_qual q" if "q \<in> set quals" and "r \<in> set quals" for q r
  proof (cases "q = r")
    case False
    with that assms(2) have "cq_Kind q \<noteq> cq_Kind r" using distinct_map_eq [of cq_Kind quals q r] by blast
    moreover have "cq_Kind q \<noteq> ColQualNull" "cq_Kind r \<noteq> ColQualNull" using that assms(3) by force+
    ultimately show ?thesis using apply_qual_commute by fastforce
  qed simp
  from fold_multiset_equiv [OF this assms(1)] show ?thesis by (simp add: NewColumnDef_def)
qed

definition plain_qual :: "ColQualKind \<Rightarrow> ColQual" where
  "plain_qual k = \<lparr>cq_Kind = k, cq_Expr = None, cq_RefTable = [], cq_RefCol = [], cq_ConstraintName = [],
     cq_Deferrable = False, cq_InitiallyDeferred = False, cq_Identity = False, cq_IdentityAlways = False,
     cq_Generated = False, cq_GeneratedExpr = None, cq_OnDelete = [], cq_OnUpdate = []\<rparr>"

theorem column_qualifiers_any_order_witness:
  "NewColumnDef ''id'' ''int'' [plain_qual ColQualUnique, plain_qual ColQualPrimaryKey]
     = NewColumnDef ''id'' ''int'' [plain_qual ColQualPrimaryKey, plain_qual ColQualUnique]"
  by (rule column_qualifiers_any_order) (simp_all add: plain_qual_def)

text \<open>A bare NULL does depend on its place: after PRIMARY KEY it makes the key column nullable.\<close>

theorem primary_key_null_is_nullable:
  "cd_PrimaryKey (NewColumnDef name typ [plain_qual ColQualPrimaryKey, plain_qual ColQualNull])
   \<and> \<not> cd_NotNull (NewColumnDef name typ [plain_qual ColQualPrimaryKey, plain_qual ColQualNull])
   \<and> cd_NotNull (NewColumnDef name typ [plain_qual ColQualNull, plain_qual ColQualPrimaryKey])"
  by (simp add: NewColumnDef_def apply_qual_def plain_qual_def)

subsection \<open>Aggregates in an expression (executor/agg.go, executor/window.go)\<close>

definition isAggregateName :: "string \<Rightarrow> bool" where
  "isAggregateName n \<longleftrightarrow> n \<in> {''count'', ''sum'', ''avg'', ''min'', ''max'',
     ''array_agg'', ''string_agg'', ''json_agg'', ''jsonb_agg'', ''json_object_agg'', ''jsonb_object_agg'',
     ''bool_and'', ''bool_or'', ''every'', ''percentile_cont'', ''percentile_disc'', ''mode'',
     ''first'', ''last'', ''first_value'', ''last_value''}"

definition func_name :: "Node FuncCall \<Rightarrow> string" where
  "func_name f = toLower (join_byte (CHR ''.'') (fc_FuncName f))"

definition aggregate_call :: "Node \<Rightarrow> bool" where
  "aggregate_call n = (case n of N_FuncCall fc \<Rightarrow> fc_Over fc = None \<and> isAggregateName (func_name fc) | _ \<Rightarrow> False)"

definition containsAggregate :: "Node option \<Rightarrow> bool" where
  "containsAggregate n = (case n of None \<Rightarrow> False | Some n \<Rightarrow>
     fst (Walk n (\<lambda>node found. (if aggregate_call node then True else found, None)) False))"

definition needsAggregation :: "Node SelectStmt \<Rightarrow> bool" where
  "needsAggregation s \<longleftrightarrow> 0 < length (ss_GroupClause s) \<or> list_ex (\<lambda>t. containsAggregate (rt_Val t)) (ss_TargetList s)"

text \<open>Every call node of a parsed statement is its own object, so no call is seen twice.\<close>

definition collectWindowFuncs :: "Node ResTarget list \<Rightarrow> Node FuncCall list" where
  "collectWindowFuncs targets =
     fold (\<lambda>t out. case rt_Val t of None \<Rightarrow> out | Some v \<Rightarrow>
        fst (Walk v (\<lambda>n out. (case n of N_FuncCall fc \<Rightarrow> if fc_Over fc \<noteq> None then out @ [fc] else out | _ \<Rightarrow> out, None)) out))
       targets []"

definition hasWindowFunc :: "Node ResTarget list \<Rightarrow> bool" where
  "hasWindowFunc targets \<longleftrightarrow> collectWindowFuncs targets \<noteq> []"

lemma each_flag: "each (\<lambda>n found. (if P n then True else found, None)) ns b = (b \<or> list_ex P ns, None)"
  by (induction ns arbitrary: b) auto

lemma containsAggregate_iff: "containsAggregate (Some n) \<longleftrightarrow> (\<exists>c \<in> set (preorder n). aggregate_call c)"
  by (simp add: containsAggregate_def Walk_preorder each_flag list_ex_iff)

lemma preorder_child: "c \<in> set (walkChildren n) \<Longrightarrow> set (preorder c) \<subseteq> set (preorder n)"
  by (auto simp: preorder.simps [of n])

lemma containsAggregate_Some:
  "containsAggregate x \<longleftrightarrow> (\<exists>v. x = Some v \<and> (\<exists>c \<in> set (preorder v). aggregate_call c))"
  by (cases x) (simp_all add: containsAggregate_def [of None] containsAggregate_iff)

lemma needsAggregation_iff:
  "needsAggregation s \<longleftrightarrow> 0 < length (ss_GroupClause s)
     \<or> (\<exists>t \<in> set (ss_TargetList s). \<exists>v. rt_Val t = Some v \<and> (\<exists>c \<in> set (preorder v). aggregate_call c))"
  by (simp add: needsAggregation_def list_ex_iff containsAggregate_Some)

text \<open>
  A traversal calls its visitor on the nodes of the tree in pre-order, each exactly once, and stops
  at the first error; so a query is sent down the grouping path exactly when it has a GROUP BY or one of
  its targets has an ungrouped aggregate call at any depth.
\<close>

theorem traversal_exhaustive:
  "Walk n f st = each f (preorder n) st
   \<and> (needsAggregation s \<longleftrightarrow> 0 < length (ss_GroupClause s)
        \<or> (\<exists>t \<in> set (ss_TargetList s). \<exists>v. rt_Val t = Some v \<and> (\<exists>c \<in> set (preorder v). aggregate_call c)))"
  by (rule conjI) (rule Walk_preorder, rule needsAggregation_iff)

text \<open>
  The search for aggregates does not stop at a subquery: a query without GROUP BY one of whose
  targets is a scalar subquery that computes an aggregate takes the grouping path itself, which gives it
  a single row whatever its FROM clause yields.
\<close>

theorem subquery_aggregate_groups_outer_query:
  assumes "t \<in> set (ss_TargetList s)" and "rt_Val t = Some (SubLink (Some (N_SelectStmt inner)) al ex)"
    and "u \<in> set (ss_TargetList inner)" and "containsAggregate (rt_Val u)"
  shows "needsAggregation s"
proof -
  obtain v c where v: "rt_Val u = Some v" and c: "c \<in> set (preorder v)" "aggregate_call c"
    using assms(4) by (auto simp: containsAggregate_Some)
  let ?l = "SubLink (Some (N_SelectStmt inner)) al ex"
  have "v \<in> set (walkChildren (N_ResTarget u))" "N_ResTarget u \<in> set (walkChildren (N_SelectStmt inner))"
    "N_SelectStmt inner \<in> set (walkChildren ?l)" using assms(3) v by (auto simp: walkChildren_def walk_defs)
  then have "c \<in> set (preorder ?l)" using c(1) preorder_child by blast
  then show ?thesis using assms(1,2) c(2) needsAggregation_iff by blast
qed

definition bare_select :: "Node ResTarget list \<Rightarrow> Node list \<Rightarrow> Node SelectStmt" where
  "bare_select ts fs = SelectStmt None False [] ts fs None [] None [] None None SetOpNone False None None"

definition count_star :: Node where
  "count_star = N_FuncCall (FuncCall [''count''] [] True False None None None None)"

theorem subquery_aggregate_groups_outer_query_witness:
  "needsAggregation (bare_select
     [ResTarget [] (Some (SubLink (Some (N_SelectStmt (bare_select [ResTarget [] (Some count_star)]
        [N_RangeVar (RangeVar [] ''orders'' None)]))) None False))] [N_RangeVar (RangeVar [] ''users'' None)])"
proof -
  have "containsAggregate (Some count_star)"
    by (simp add: containsAggregate_iff preorder.simps [of count_star])
      (simp add: count_star_def aggregate_call_def func_name_def isAggregateName_def join_byte_def toLower_def ascii_lower_def le_char_iff)
  note agg = this
  let ?inner = "bare_select [ResTarget [] (Some count_star)] [N_RangeVar (RangeVar [] ''orders'' None)]"
  show ?thesis using agg
    by (intro subquery_aggregate_groups_outer_query [where t = "ResTarget [] (Some (SubLink (Some (N_SelectStmt ?inner)) None False))"
          and inner = "?inner" and u = "ResTarget [] (Some count_star)" and al = None and ex = False])
      (simp_all add: bare_select_def)
qed

end
