(* ===== verification/Values.thy ===== *)
theory Values
  imports Rows Ast
begin

text \<open>
  SQL values and the operators on them (executor/eval.go, executor/eval_ext.go, executor/composite.go):
  truth of a value, constants, comparison, arithmetic, arrays and record literals.

  What the operators take from code that is not modelled is a field of the record \<open>elib\<close>: arbitrary
  precision decimals (math/big), timestamps and intervals (package time), regular expressions (regexp),
  JSON, and the scalar functions beyond those of \<open>Eval\<close>. The theorems hold whatever these return.
\<close>

subsection \<open>Values\<close>

record sql_value =
  v_null :: bool
  v_text :: string
  v_oid :: nat

abbreviation val :: "string \<Rightarrow> nat \<Rightarrow> sql_value" where
  "val t oid \<equiv> \<lparr>v_null = False, v_text = t, v_oid = oid\<rparr>"

abbreviation null_val :: "nat \<Rightarrow> sql_value" where
  "null_val oid \<equiv> \<lparr>v_null = True, v_text = [], v_oid = oid\<rparr>"

record elib =
  l_bigCmp :: "string \<Rightarrow> string \<Rightarrow> int"
  l_numericArith :: "string \<Rightarrow> string \<Rightarrow> string \<Rightarrow> sql_value res"
  l_powOp :: "sql_value \<Rightarrow> sql_value \<Rightarrow> sql_value res"
  l_timestampOk :: "string \<Rightarrow> bool"
  l_intervalOk :: "string \<Rightarrow> bool"
  l_timestampShift :: "string \<Rightarrow> string \<Rightarrow> string \<Rightarrow> string"
  l_intervalArith :: "string \<Rightarrow> string \<Rightarrow> string \<Rightarrow> string"
  l_regexp :: "string \<Rightarrow> string \<Rightarrow> bool"
  l_jsonbExtract :: "string \<Rightarrow> sql_value \<Rightarrow> sql_value \<Rightarrow> sql_value res"
  l_jsonbDelete :: "sql_value \<Rightarrow> sql_value \<Rightarrow> bool \<Rightarrow> sql_value res"
  l_math :: "string \<Rightarrow> u64 \<Rightarrow> u64"
  l_bigMath :: "string \<Rightarrow> sql_value list \<Rightarrow> sql_value res"
  l_scalarFunc :: "string \<Rightarrow> sql_value list \<Rightarrow> sql_value res"
  l_randomUUID :: "nat \<Rightarrow> string res"
  l_nowText :: string
  l_nowTimeText :: string

definition asBool :: "sql_value \<Rightarrow> bool" where
  "asBool v \<longleftrightarrow>
     (if v_null v then False
      else if v_oid v = OIDBool then v_text v = ''t'' \<or> v_text v = ''true''
      else v_text v \<noteq> [] \<and> v_text v \<noteq> ''0'' \<and> v_text v \<noteq> ''f'' \<and> v_text v \<noteq> ''false'')"

definition boolValue :: "bool \<Rightarrow> sql_value" where
  "boolValue b = val (if b then ''t'' else ''f'') OIDBool"

definition evalConst :: "ConstType \<Rightarrow> string \<Rightarrow> sql_value" where
  "evalConst ty v = (case ty of
     ConstNull \<Rightarrow> null_val OIDUnknown
   | ConstInt \<Rightarrow> val v OIDInt4
   | ConstFloat \<Rightarrow> val v OIDFloat8
   | ConstBool \<Rightarrow> val (if v = ''true'' then ''t'' else ''f'') OIDBool
   | ConstString \<Rightarrow> val v OIDText)"

definition isNumericOID :: "nat \<Rightarrow> bool" where
  "isNumericOID oid \<longleftrightarrow> oid = OIDInt4 \<or> oid = OIDInt8 \<or> oid = OIDFloat8 \<or> oid = OIDInt2 \<or> oid = OIDFloat4 \<or> oid = OIDNumeric"

definition numErr :: "go_error" where
  "numErr = ExecError ''22P02''"

subsection \<open>Comparison\<close>

definition float_cmp :: "u64 \<Rightarrow> u64 \<Rightarrow> int" where
  "float_cmp a b = (if fl_less a b then - 1 else if fl_less b a then 1 else 0)"

definition string_cmp :: "string \<Rightarrow> string \<Rightarrow> int" where
  "string_cmp a b = (if a < b then - 1 else if b < a then 1 else 0)"

definition cmp_values :: "elib \<Rightarrow> sql_value \<Rightarrow> sql_value \<Rightarrow> int" where
  "cmp_values L a b =
     (if isNumericOID (v_oid a) \<and> isNumericOID (v_oid b) then
        (if v_oid a = OIDNumeric \<or> v_oid b = OIDNumeric then l_bigCmp L (v_text a) (v_text b)
         else float_cmp (fst (parse_float (v_text a))) (fst (parse_float (v_text b))))
      else string_cmp (v_text a) (v_text b))"

definition rowCmpResult :: "string \<Rightarrow> int \<Rightarrow> sql_value" where
  "rowCmpResult op c = boolValue
     (if op = ''='' then c = 0 else if op = ''<>'' \<or> op = ''!='' then c \<noteq> 0
      else if op = ''<'' then c < 0 else if op = ''>'' then c > 0
      else if op = ''<='' then c \<le> 0 else if op = ''>='' then c \<ge> 0 else False)"

definition compare :: "elib \<Rightarrow> string \<Rightarrow> sql_value \<Rightarrow> sql_value \<Rightarrow> sql_value res" where
  "compare L op a b =
     (let c = cmp_values L a b;
          r = (if op = ''='' then c = 0 else if op = ''<>'' \<or> op = ''!='' then c \<noteq> 0
               else if op = ''<'' then c < 0 else if op = ''>'' then c > 0
               else if op = ''<='' then c \<le> 0 else if op = ''>='' then c \<ge> 0 else False)
      in Inr (val (if r then ''t'' else ''f'') OIDBool))"

definition compareCmp :: "elib \<Rightarrow> sql_value \<Rightarrow> sql_value \<Rightarrow> int res" where
  "compareCmp L a b =
     (case compare L ''<'' a b of
        Inl e \<Rightarrow> Inl e
      | Inr lt \<Rightarrow>
          if asBool lt then Inr (- 1)
          else (case compare L ''>'' a b of Inl e \<Rightarrow> Inl e | Inr gt \<Rightarrow> Inr (if asBool gt then 1 else 0)))"

text \<open>Row comparison: the loop over the common length, then the rule for what is left.\<close>

primrec row_loop :: "elib \<Rightarrow> (sql_value \<times> sql_value) list \<Rightarrow> bool \<Rightarrow> (int option \<times> bool) res" where
  "row_loop L [] sawNull = Inr (None, sawNull)"
| "row_loop L (p # ps) sawNull =
     (if v_null (fst p) \<or> v_null (snd p) then row_loop L ps True
      else case compareCmp L (fst p) (snd p) of
        Inl e \<Rightarrow> Inl e
      | Inr c \<Rightarrow> if c \<noteq> 0 then Inr (Some c, sawNull) else row_loop L ps sawNull)"

definition compareRows :: "elib \<Rightarrow> string \<Rightarrow> sql_value list \<Rightarrow> sql_value list \<Rightarrow> sql_value res" where
  "compareRows L op a b =
     (case row_loop L (zip a b) False of
        Inl e \<Rightarrow> Inl e
      | Inr (Some c, _) \<Rightarrow> Inr (rowCmpResult op c)
      | Inr (None, sawNull) \<Rightarrow>
          if sawNull \<and> (op = ''='' \<or> op = ''<>'' \<or> op = ''!='') then Inr (null_val OIDBool)
          else Inr (rowCmpResult op
                 (if length a \<noteq> length b then (if length a < length b then - 1 else 1) else 0)))"

subsection \<open>Arithmetic\<close>

text \<open>\<open>int64\<close> arithmetic wraps around; division truncates.\<close>

definition wrap64 :: "int \<Rightarrow> int" where
  "wrap64 i = sint (word_of_int i :: u64)"

definition trunc_div :: "int \<Rightarrow> int \<Rightarrow> int" where
  "trunc_div a b = sgn a * sgn b * (\<bar>a\<bar> div \<bar>b\<bar>)"

definition trunc_mod :: "int \<Rightarrow> int \<Rightarrow> int" where
  "trunc_mod a b = sgn a * (\<bar>a\<bar> mod \<bar>b\<bar>)"

definition negate :: "sql_value \<Rightarrow> sql_value res" where
  "negate v =
     (if v_oid v = OIDFloat8 then
        (case ParseFloat (v_text v) of
           None \<Rightarrow> Inl (ExecError ''22P02'')
         | Some f \<Rightarrow> Inr (val (FormatFloat (fl_neg f)) OIDFloat8))
      else case ParseInt 64 (v_text v) of
             None \<Rightarrow> Inl (ExecError ''22P02'')
           | Some i \<Rightarrow> Inr (val (itoa (wrap64 (- i))) OIDInt4))"

definition contains :: "string \<Rightarrow> string \<Rightarrow> bool" where
  "contains s t \<longleftrightarrow> sublist t s"

definition looksLikeInterval :: "string \<Rightarrow> bool" where
  "looksLikeInterval s =
     (let sl = toLower s
      in (contains sl ''day'' \<or> contains sl ''hour'' \<or> contains sl ''minute'' \<or> contains sl ''second''
          \<or> contains sl ''week'' \<or> contains sl ''month'' \<or> contains sl ''year'') \<and> \<not> contains sl ''-'')"

definition float_arith :: "string \<Rightarrow> sql_value \<Rightarrow> sql_value \<Rightarrow> sql_value res" where
  "float_arith op a b =
     (case ParseFloat (v_text a) of
        None \<Rightarrow> Inl numErr
      | Some af \<Rightarrow>
          (case ParseFloat (v_text b) of
             None \<Rightarrow> Inl numErr
           | Some bf \<Rightarrow>
               if op = ''+'' then Inr (val (FormatFloat (fl_add af bf)) OIDFloat8)
               else if op = ''-'' then Inr (val (FormatFloat (fl_sub af bf)) OIDFloat8)
               else if op = ''*'' then Inr (val (FormatFloat (fl_mul af bf)) OIDFloat8)
               else if op = ''/'' then
                 (if fl_mag bf = 0 then Inl (ExecError ''22012'') else Inr (val (FormatFloat (fl_div af bf)) OIDFloat8))
               else Inl (ExecError ''0A000'')))"

definition int_arith :: "string \<Rightarrow> sql_value \<Rightarrow> sql_value \<Rightarrow> sql_value res" where
  "int_arith op a b =
     (case ParseInt 64 (v_text a) of
        None \<Rightarrow> Inl numErr
      | Some ai \<Rightarrow>
          (case ParseInt 64 (v_text b) of
             None \<Rightarrow> Inl numErr
           | Some bi \<Rightarrow>
               if op = ''+'' then Inr (val (itoa (wrap64 (ai + bi))) OIDInt4)
               else if op = ''-'' then Inr (val (itoa (wrap64 (ai - bi))) OIDInt4)
               else if op = ''*'' then Inr (val (itoa (wrap64 (ai * bi))) OIDInt4)
               else if op = ''/'' then
                 (if bi = 0 then Inl (ExecError ''22012'') else Inr (val (itoa (wrap64 (trunc_div ai bi))) OIDInt4))
               else if op = ''%'' then
                 (if bi = 0 then Inl (ExecError ''22012'') else Inr (val (itoa (wrap64 (trunc_mod ai bi))) OIDInt4))
               else Inr (val (itoa 0) OIDInt4)))"

definition arith :: "elib \<Rightarrow> string \<Rightarrow> sql_value \<Rightarrow> sql_value \<Rightarrow> sql_value res" where
  "arith L op a b =
     (let shift = ((v_oid a = OIDTimestamp \<or> v_oid a = OIDTimestamptz \<or> v_oid a = OIDDate)
                    \<and> (v_oid b = OIDInterval \<or> (v_oid b = OIDText \<and> looksLikeInterval (v_text b))))
      in if shift \<and> (\<not> l_timestampOk L (v_text a) \<or> \<not> l_intervalOk L (v_text b)) then Inr (val (v_text a) (v_oid a))
         else if shift \<and> (op = ''+'' \<or> op = ''-'') then
           Inr (val (l_timestampShift L op (v_text a) (v_text b)) OIDTimestamptz)
         else if v_oid a = OIDInterval \<and> v_oid b = OIDInterval \<and> (op = ''+'' \<or> op = ''-'') then
           Inr (val (l_intervalArith L op (v_text a) (v_text b)) OIDInterval)
         else if v_oid a = OIDNumeric \<or> v_oid b = OIDNumeric then l_numericArith L op (v_text a) (v_text b)
         else if v_oid a = OIDFloat8 \<or> v_oid b = OIDFloat8 then float_arith op a b
         else int_arith op a b)"

subsection \<open>Arrays\<close>

definition trim_quotes :: "string \<Rightarrow> string" where
  "trim_quotes s = rev (dropWhile (\<lambda>c. c = CHR 0x22) (rev (dropWhile (\<lambda>c. c = CHR 0x22) s)))"

primrec array_loop :: "string \<Rightarrow> string \<Rightarrow> bool \<Rightarrow> string list" where
  "array_loop [] cur inQuote = [trim_quotes cur]"
| "array_loop (c # s) cur inQuote =
     (if c = CHR 0x22 then array_loop s cur (\<not> inQuote)
      else if c = CHR '','' \<and> \<not> inQuote then trim_quotes cur # array_loop s [] inQuote
      else array_loop s (cur @ [c]) inQuote)"

definition pgArrayElements :: "string \<Rightarrow> string list" where
  "pgArrayElements s =
     (let s = trimSpace s;
          s = (if length s \<ge> 2 \<and> hd s = CHR ''{'' \<and> last s = CHR ''}'' then butlast (tl s) else s)
      in if s = [] then [] else array_loop s [] False)"

definition arrayOverlap :: "sql_value \<Rightarrow> sql_value \<Rightarrow> sql_value" where
  "arrayOverlap a b = boolValue (list_ex (\<lambda>e. e \<in> set (pgArrayElements (v_text a))) (pgArrayElements (v_text b)))"

definition arrayContains :: "sql_value \<Rightarrow> sql_value \<Rightarrow> sql_value" where
  "arrayContains arr elems =
     (if hasPrefix (trimSpace (v_text arr)) ''{'' then
        boolValue (list_all (\<lambda>e. e \<in> set (pgArrayElements (v_text arr))) (pgArrayElements (v_text elems)))
      else boolValue (contains (v_text arr) (v_text elems)))"

subsection \<open>Record literals\<close>

definition record_special :: "string \<Rightarrow> bool" where
  "record_special s \<longleftrightarrow> list_ex (\<lambda>c. c \<in> {CHR ''('', CHR '')'', CHR '','', CHR 0x22}) s \<or> s = []"

definition double_quotes :: "string \<Rightarrow> string" where
  "double_quotes s = concat (map (\<lambda>c. if c = CHR 0x22 then [CHR 0x22, CHR 0x22] else [c]) s)"

definition record_elem :: "sql_value \<Rightarrow> string" where
  "record_elem e =
     (if v_null e then []
      else if record_special (v_text e) then CHR 0x22 # double_quotes (v_text e) @ [CHR 0x22]
      else v_text e)"

definition encodeRowText :: "sql_value list \<Rightarrow> string" where
  "encodeRowText es = CHR ''('' # join_byte (CHR '','') (map record_elem es) @ [CHR '')'']"

definition recElem :: "string \<Rightarrow> bool \<Rightarrow> sql_value" where
  "recElem text quoted = (if text = [] \<and> \<not> quoted then null_val 0 else val text OIDText)"

text \<open>The loop over the body: the bytes left, the element so far, whether inside quotes, whether quoted.\<close>

fun record_loop :: "string \<Rightarrow> string \<Rightarrow> bool \<Rightarrow> bool \<Rightarrow> sql_value list" where
  "record_loop [] b inQuote quoted = [recElem b quoted]"
| "record_loop (c # s) b True quoted =
     (if c = CHR 0x22 then
        (case s of
           d # s' \<Rightarrow> if d = CHR 0x22 then record_loop s' (b @ [CHR 0x22]) True quoted else record_loop s b False quoted
         | [] \<Rightarrow> record_loop s b False quoted)
      else record_loop s (b @ [c]) True quoted)"
| "record_loop (c # s) b False quoted =
     (if c = CHR 0x22 then record_loop s b True True
      else if c = CHR '','' then recElem b quoted # record_loop s [] False False
      else record_loop s (b @ [c]) False quoted)"

definition decodeRecordText :: "string \<Rightarrow> sql_value list option" where
  "decodeRecordText s =
     (let s = trimSpace s
      in if length s < 2 \<or> hd s \<noteq> CHR ''('' \<or> last s \<noteq> CHR '')'' then None
         else let body = butlast (tl s) in if body = [] then Some [] else Some (record_loop body [] False False))"

subsection \<open>Type names\<close>

definition type_names :: "(string list \<times> nat) list" where
  "type_names =
    [([''int'', ''int4'', ''integer'', ''serial''], OIDInt4),
     ([''bigint'', ''int8'', ''bigserial''], OIDInt8),
     ([''smallint'', ''int2'', ''smallserial''], OIDInt2),
     ([''real'', ''float4''], OIDFloat4),
     ([''float8'', ''double precision'', ''float''], OIDFloat8),
     ([''numeric'', ''decimal''], OIDNumeric),
     ([''bool'', ''boolean''], OIDBool),
     ([''uuid''], OIDUUID),
     ([''json''], OIDJSON),
     ([''jsonb''], OIDJSONB),
     ([''bytea''], OIDBytea),
     ([''date''], OIDDate),
     ([''time'', ''time without time zone'', ''time with time zone'', ''timetz''], OIDTime),
     ([''timestamp'', ''timestamp without time zone''], OIDTimestamp),
     ([''timestamptz'', ''timestamp with time zone''], OIDTimestamptz),
     ([''varchar'', ''character varying''], OIDVarchar),
     ([''char'', ''character'', ''bpchar''], OIDBpchar),
     ([''text''], OIDText),
     ([''interval''], OIDInterval),
     ([''text[]'', ''varchar[]'', ''character varying[]''], OIDTextArr),
     ([''int[]'', ''int4[]'', ''integer[]''], OIDInt4Arr),
     ([''int8[]'', ''bigint[]''], OIDInt8Arr),
     ([''bool[]'', ''boolean[]''], OIDBoolArr),
     ([''float8[]'', ''double precision[]''], OIDFloat8Arr),
     ([''uuid[]''], 2951),
     ([''jsonb[]''], 3807),
     ([''json[]''], 199),
     ([''int4range'', ''int8range'', ''numrange'', ''tsrange'', ''tstzrange'', ''daterange'', ''int4multirange'',
       ''int8multirange'', ''nummultirange'', ''tsmultirange'', ''tstzmultirange'', ''datemultirange''], 3904),
     ([''inet''], 869), ([''cidr''], 650), ([''macaddr''], 829), ([''macaddr8''], 774),
     ([''tsvector''], 3614), ([''tsquery''], 3615),
     ([''money''], 790), ([''xml''], 142), ([''jsonpath''], 4072),
     ([''bit'', ''varbit'', ''bit varying''], 1560),
     ([''point''], 600), ([''line''], 628), ([''lseg''], 601), ([''box''], 603), ([''path''], 602),
     ([''polygon''], 604), ([''circle''], 718),
     ([''txid_snapshot'', ''pg_snapshot''], 2970), ([''pg_lsn''], 3220), ([''void''], 2278),
     ([''cstring''], 2275), ([''name''], 19), ([''xid''], 28), ([''cid''], 29), ([''tid''], 27)]"

definition oidForTypeName :: "string \<Rightarrow> nat" where
  "oidForTypeName name =
     (case find (\<lambda>(ns, _). toLower (trimSpace name) \<in> set ns) type_names of
        Some (_, oid) \<Rightarrow> oid
      | None \<Rightarrow> OIDText)"

subsection \<open>Record literals round-trip\<close>

definition record_norm :: "sql_value \<Rightarrow> sql_value" where
  "record_norm e = (if v_null e then null_val 0 else val (v_text e) OIDText)"

lemma record_loop_plain:
  "\<forall>c \<in> set s. c \<noteq> CHR 0x22 \<and> c \<noteq> CHR '','' \<Longrightarrow> record_loop (s @ r) b False q = record_loop r (b @ s) False q"
  by (induction s arbitrary: b) auto

lemma record_loop_quoted:
  assumes "r = [] \<or> hd r \<noteq> CHR 0x22"
  shows "record_loop (double_quotes s @ CHR 0x22 # r) b True q = record_loop r (b @ s) False q"
proof (induction s arbitrary: b)
  case Nil
  show ?case using assms by (cases r) (auto simp: double_quotes_def)
next
  case (Cons c s)
  have "double_quotes (c # s) = (if c = CHR 0x22 then [c, c] else [c]) @ double_quotes s"
    by (simp add: double_quotes_def)
  then show ?case using Cons by simp
qed

lemma record_loop_elem:
  assumes "r = [] \<or> (\<exists>r'. r = CHR '','' # r')"
  shows "record_loop (record_elem e @ r) [] False False
       = record_norm e # (if r = [] then [] else record_loop (tl r) [] False False)"
proof -
  have r: "r = [] \<or> hd r \<noteq> CHR 0x22" using assms by auto
  consider (null) "v_null e" | (quoted) "\<not> v_null e" "record_special (v_text e)"
    | (plain) "\<not> v_null e" "\<not> record_special (v_text e)" by blast
  then show ?thesis
  proof cases
    case null
    then show ?thesis using assms by (auto simp: record_elem_def record_norm_def recElem_def)
  next
    case quoted
    then have "record_loop (record_elem e @ r) [] False False = record_loop r (v_text e) False True"
      using record_loop_quoted [OF r, of "v_text e" "[]" True] by (simp add: record_elem_def)
    then show ?thesis using assms quoted by (auto simp: record_norm_def recElem_def)
  next
    case plain
    then have "\<forall>c \<in> set (v_text e). c \<noteq> CHR 0x22 \<and> c \<noteq> CHR '',''" and ne: "v_text e \<noteq> []"
      by (auto simp: record_special_def list_ex_iff)
    then have "record_loop (v_text e @ r) [] False False = record_loop r (v_text e) False False"
      using record_loop_plain [of "v_text e" r "[]" False] by simp
    then show ?thesis using plain ne assms
      by (elim disjE exE) (simp_all add: record_elem_def record_norm_def recElem_def)
  qed
qed

lemma record_loop_join:
  "record_loop (record_elem e @ concat (map (\<lambda>x. CHR '','' # record_elem x) es)) [] False False = map record_norm (e # es)"
proof (induction es arbitrary: e)
  case Nil
  show ?case using record_loop_elem [of "[]" e] by simp
next
  case (Cons f es)
  show ?case using record_loop_elem [of "CHR '','' # record_elem f @ concat (map (\<lambda>x. CHR '','' # record_elem x) es)" e] Cons
    by simp
qed

lemma dropWhile_hd: "s \<noteq> [] \<Longrightarrow> \<not> P (hd s) \<Longrightarrow> dropWhile P s = s"
  by (cases s) simp_all

lemma trimSpace_id: "s \<noteq> [] \<Longrightarrow> \<not> is_space (hd s) \<Longrightarrow> \<not> is_space (last s) \<Longrightarrow> trimSpace s = s"
  by (simp add: trimSpace_def dropWhile_hd hd_rev)

lemma record_elem_empty: "record_elem e = [] \<longleftrightarrow> v_null e"
  by (auto simp: record_elem_def record_special_def)

text \<open>
  A row value survives its text form: decoding the record literal of a row gives back its elements,
  nulls as nulls and texts as texts whatever quotes, commas, parentheses or spaces they contain, for
  every row but the one whose only element is NULL, which decodes to a row of no elements.
\<close>

theorem record_literal_roundtrip:
  "decodeRecordText (encodeRowText es) =
     Some (if length es = 1 \<and> v_null (hd es) then [] else map record_norm es)"
proof -
  let ?body = "join_byte (CHR '','') (map record_elem es)"
  have t: "trimSpace (encodeRowText es) = encodeRowText es"
    by (rule trimSpace_id) (simp_all add: encodeRowText_def is_space_def)
  have d: "decodeRecordText (encodeRowText es) = (if ?body = [] then Some [] else Some (record_loop ?body [] False False))"
    unfolding decodeRecordText_def t by (simp add: encodeRowText_def)
  show ?thesis
  proof (cases es)
    case Nil
    then show ?thesis using d by (simp add: join_byte_def)
  next
    case (Cons e es')
    have b: "?body = record_elem e @ concat (map (\<lambda>x. CHR '','' # record_elem x) es')"
      by (simp add: Cons join_byte_def comp_def)
    show ?thesis unfolding d b using record_loop_join [of e es'] by (cases es') (simp_all add: Cons record_elem_empty)
  qed
qed

subsection \<open>Integers compare through floats\<close>

definition int_rel :: "string \<Rightarrow> int \<Rightarrow> int \<Rightarrow> bool" where
  "int_rel op i j =
     (if op = ''='' then i = j else if op = ''<>'' \<or> op = ''!='' then i \<noteq> j else if op = ''<'' then i < j
      else if op = ''>'' then i > j else if op = ''<='' then i \<le> j else if op = ''>='' then i \<ge> j else False)"

definition int_oid :: "nat \<Rightarrow> bool" where
  "int_oid oid \<longleftrightarrow> oid = OIDInt2 \<or> oid = OIDInt4 \<or> oid = OIDInt8"

lemma cmp_ints:
  assumes "\<bar>i\<bar> \<le> 2 ^ 53" and "\<bar>j\<bar> \<le> 2 ^ 53" and "int_oid a" and "int_oid b"
  shows "cmp_values L (val (itoa i) a) (val (itoa j) b) = (if i < j then - 1 else if j < i then 1 else 0)"
proof -
  have "isNumericOID a" "isNumericOID b" "a \<noteq> OIDNumeric" "b \<noteq> OIDNumeric"
    using assms(3,4) by (auto simp: int_oid_def isNumericOID_def oid_defs)
  then show ?thesis
    using int_float_less [OF assms(1,2)] int_float_less [OF assms(2,1)] by (simp add: cmp_values_def float_cmp_def)
qed

text \<open>An instance of the parameters that refuses what they are for.\<close>

definition plain_lib :: elib where
  "plain_lib = \<lparr>l_bigCmp = string_cmp, l_numericArith = (\<lambda>_ _ _. Inl (ExecError ''0A000'')),
     l_powOp = (\<lambda>_ _. Inl (ExecError ''0A000'')), l_timestampOk = (\<lambda>_. False), l_intervalOk = (\<lambda>_. False),
     l_timestampShift = (\<lambda>_ _ _. []), l_intervalArith = (\<lambda>_ _ _. []), l_regexp = (\<lambda>_ _. False),
     l_jsonbExtract = (\<lambda>_ _ _. Inl (ExecError ''0A000'')), l_jsonbDelete = (\<lambda>_ _ _. Inl (ExecError ''0A000'')),
     l_math = (\<lambda>_ x. x), l_bigMath = (\<lambda>_ _. Inl (ExecError ''0A000'')),
     l_scalarFunc = (\<lambda>_ _. Inl (ExecError ''42883'')), l_randomUUID = (\<lambda>n. Inr (utoa n)), l_nowText = ''2026-01-01 00:00:00'', l_nowTimeText = ''00:00:00+00''\<rparr>"

text \<open>
  C35. Integer columns compare by value as long as they stay within 53 bits; beyond, the comparison goes
  through float64 and different integers compare as equal: \<open>9007199254740993 = 9007199254740992\<close> is true,
  while their index keys differ.
\<close>

theorem integer_comparison_exact:
  assumes "\<bar>i\<bar> \<le> 2 ^ 53" and "\<bar>j\<bar> \<le> 2 ^ 53" and "int_oid a" and "int_oid b"
  shows "compare L op (val (itoa i) a) (val (itoa j) b) = Inr (boolValue (int_rel op i j))
    \<and> compare L ''='' (val ''9007199254740993'' OIDInt8) (val ''9007199254740992'' OIDInt8) = Inr (boolValue True)
    \<and> orderEncode OIDInt8 ''9007199254740993'' \<noteq> orderEncode OIDInt8 ''9007199254740992''"
proof -
  have 1: "compare L op (val (itoa i) a) (val (itoa j) b) = Inr (boolValue (int_rel op i j))"
    unfolding compare_def cmp_ints [OF assms] by (auto simp: int_rel_def boolValue_def Let_def)
  have "fst (parse_float ''9007199254740993'') = fst (parse_float ''9007199254740992'')"
    by (simp add: parse_float_def parse_decimal_def toLower_def ascii_lower_def le_char_iff isDigit_def
        digits_val_def digit_val_def round_mag_def float_exp_def scale2_def round_even_def bit_len.simps)
  then have 2: "compare L ''='' (val ''9007199254740993'' OIDInt8) (val ''9007199254740992'' OIDInt8) = Inr (boolValue True)"
    by (simp add: compare_def cmp_values_def isNumericOID_def oid_defs float_cmp_def fl_less_def boolValue_def)
  have "column_key OIDInt8 ''9007199254740993'' = Some (KNum 9007199254740993)"
    "column_key OIDInt8 ''9007199254740992'' = Some (KNum 9007199254740992)"
    by (simp_all add: column_key_def oid_defs ParseInt_def trimSpace_def is_space_def parse_digits_def isDigit_def
        le_char_iff digits_val_def digit_val_def)
  then have 3: "orderEncode OIDInt8 ''9007199254740993'' \<noteq> orderEncode OIDInt8 ''9007199254740992''"
    using key_bytes_order [of OIDInt8 "''9007199254740992''" "KNum 9007199254740992" "''9007199254740993''" "KNum 9007199254740993" "[]" "[]"]
    by (auto simp: orderEncode_key)
  from 1 2 3 show ?thesis by blast
qed

theorem integer_comparison_exact_witness:
  "compare plain_lib ''<'' (val (itoa (-3)) OIDInt4) (val (itoa 10) OIDInt8) = Inr (boolValue True)"
  using integer_comparison_exact [of "-3" 10 OIDInt4 OIDInt8 plain_lib "''<''"] by (simp add: int_oid_def int_rel_def)

end
