(* ===== verification/Strings.thy ===== *)
theory Strings
  imports GoLib
begin

text \<open>
  UTF-8 and the functions of Go's packages \<open>unicode/utf8\<close>, \<open>strings\<close> and \<open>strconv\<close> that the SQL functions use. A
  string is its bytes; \<open>[]rune(s)\<close> is \<open>runes s\<close>, a list of code points, in which a byte that is not part of a
  well-formed sequence counts as one replacement character, and \<open>string(rs)\<close> is \<open>string_of rs\<close>.
\<close>

subsection \<open>Decoding and encoding\<close>

definition runeError :: nat where
  "runeError = 65533"

definition cont :: "nat \<Rightarrow> bool" where
  "cont b \<longleftrightarrow> 128 \<le> b \<and> b \<le> 191"

text \<open>
  What a first byte announces: the number of bytes that follow, its own bits, and the range of the second
  byte, which excludes overlong forms, surrogates and code points above the last one.
\<close>

definition lead :: "nat \<Rightarrow> (nat \<times> nat \<times> nat \<times> nat) option" where
  "lead b =
     (if 194 \<le> b \<and> b \<le> 223 then Some (1, b - 192, 128, 191)
      else if b = 224 then Some (2, 0, 160, 191)
      else if b = 237 then Some (2, 13, 128, 159)
      else if 225 \<le> b \<and> b \<le> 239 then Some (2, b - 224, 128, 191)
      else if b = 240 then Some (3, 0, 144, 191)
      else if 241 \<le> b \<and> b \<le> 243 then Some (3, b - 240, 128, 191)
      else if b = 244 then Some (3, 4, 128, 143) else None)"

definition decodeRune :: "string \<Rightarrow> nat \<times> nat" where
  "decodeRune s =
     (let b = of_char (hd s)
      in if b < 128 then (b, 1)
         else case lead b of
           None \<Rightarrow> (runeError, 1)
         | Some (n, x, lo, hi) \<Rightarrow>
             (let cs = map of_char (take n (tl s))
              in if length cs = n \<and> lo \<le> hd cs \<and> hd cs \<le> hi \<and> list_all cont (tl cs)
                 then (foldl (\<lambda>x c. x * 64 + (c - 128)) x cs, n + 1) else (runeError, 1)))"

lemma decodeRune_size: "1 \<le> snd (decodeRune s) \<and> snd (decodeRune s) \<le> 4"
  by (auto simp: decodeRune_def Let_def lead_def split: option.split)

function runes :: "string \<Rightarrow> nat list" where
  "runes s = (if s = [] then [] else fst (decodeRune s) # runes (drop (snd (decodeRune s)) s))"
  by pat_completeness auto
termination
  by (relation "measure length") (use decodeRune_size in \<open>auto simp: Suc_le_eq\<close>)

declare runes.simps [simp del]

lemma runes_Nil [simp]: "runes [] = []"
  by (simp add: runes.simps)

definition valid_rune :: "nat \<Rightarrow> bool" where
  "valid_rune r \<longleftrightarrow> r < 55296 \<or> (57344 \<le> r \<and> r \<le> 1114111)"

definition encodeRune :: "nat \<Rightarrow> string" where
  "encodeRune r =
     map char_of
       (if r < 128 then [r]
        else if r < 2048 then [192 + r div 64, 128 + r mod 64]
        else if \<not> valid_rune r then [239, 191, 189]
        else if r < 65536 then [224 + r div 4096, 128 + r div 64 mod 64, 128 + r mod 64]
        else [240 + r div 262144, 128 + r div 4096 mod 64, 128 + r div 64 mod 64, 128 + r mod 64 :: nat])"

definition string_of :: "nat list \<Rightarrow> string" where
  "string_of rs = concat (map encodeRune rs)"

lemma encodeRune_ne [simp]: "encodeRune r \<noteq> []"
  by (simp add: encodeRune_def)

lemma decode_lead:
  assumes "lead b = Some (n, x, lo, hi)" and "length cs = n" and "lo \<le> hd cs" and "hd cs \<le> hi" and "list_all cont cs"
  shows "decodeRune (map char_of (b # cs) @ s) = (foldl (\<lambda>x c. x * 64 + (c - 128)) x cs, n + 1)"
proof -
  have b: "128 \<le> b" "b < 256" using assms(1) by (auto simp: lead_def split: if_splits)
  have "map of_char (map char_of cs :: string) = cs"
    using assms(5) by (auto simp: list_all_iff cont_def intro!: map_idI)
  moreover have "list_all cont (tl cs)" using assms(5) by (cases cs) simp_all
  ultimately show ?thesis using assms b by (simp add: decodeRune_def Let_def)
qed

lemma decode_encode: "valid_rune r \<Longrightarrow> decodeRune (encodeRune r @ s) = (r, length (encodeRune r))"
proof -
  assume v: "valid_rune r"
  define a b c where "a = r mod 64" and "b = r div 64 mod 64" and "c = r div 4096"
  have abc: "a < 64" "b < 64" and r: "r = (c * 64 + b) * 64 + a"
    using div_mult_mod_eq [of "r div 64" 64] div_mult_mod_eq [of r 64]
    by (simp_all add: a_def b_def c_def div_mult2_eq [symmetric])
  consider "r < 128" | "128 \<le> r" "r < 2048" | "2048 \<le> r" "r < 65536" | "65536 \<le> r" by linarith
  then show ?thesis
  proof cases
    case 1
    then show ?thesis by (simp add: encodeRune_def decodeRune_def Let_def)
  next
    case 2
    have d: "r div 64 < 32" "2 \<le> r div 64" using 2 by (simp_all add: less_mult_imp_div_less div_le_mono [of 128 r 64, simplified])
    then have "lead (192 + r div 64) = Some (1, r div 64, 128, 191)" by (simp add: lead_def)
    from decode_lead [OF this, of "[128 + a]" s] show ?thesis
      using 2 abc by (simp add: encodeRune_def cont_def a_def [symmetric]) (simp add: a_def)
  next
    case 3
    have l: "lead (224 + c) = Some (2, c, if c = 0 then 160 else 128, if c = 13 then 159 else 191)"
      using 3(2) by (auto simp: lead_def c_def)
    have "c = 0 \<Longrightarrow> 32 \<le> b" using 3(1) r abc by auto
    moreover have "c = 13 \<Longrightarrow> b < 32" using v r abc by (auto simp: valid_rune_def)
    ultimately have "decodeRune (map char_of [224 + c, 128 + b, 128 + a] @ s) = (foldl (\<lambda>x c. x * 64 + (c - 128)) c [128 + b, 128 + a], 2 + 1)"
      using abc by (intro decode_lead [OF l]) (auto simp: cont_def)
    moreover have "encodeRune r = map char_of [224 + c, 128 + b, 128 + a]" using 3 v by (simp add: encodeRune_def a_def b_def c_def)
    ultimately show ?thesis using r by simp
  next
    case 4
    define d e where "d = c mod 64" and "e = r div 262144"
    have de: "d < 64" "c = e * 64 + d"
      using div_mult_mod_eq [of c 64] by (simp_all add: d_def e_def c_def div_mult2_eq [symmetric])
    have e: "e \<le> 4" using v 4 by (auto simp: e_def valid_rune_def)
    have l: "lead (240 + e) = Some (3, e, if e = 0 then 144 else 128, if e = 4 then 143 else 191)"
      using e by (auto simp: lead_def)
    have "e = 0 \<Longrightarrow> 16 \<le> d" using 4 r abc de by auto
    moreover have "e = 4 \<Longrightarrow> d < 16" using v 4 r abc de by (auto simp: valid_rune_def)
    ultimately have "decodeRune (map char_of [240 + e, 128 + d, 128 + b, 128 + a] @ s)
        = (foldl (\<lambda>x c. x * 64 + (c - 128)) e [128 + d, 128 + b, 128 + a], 3 + 1)"
      using abc de by (intro decode_lead [OF l]) (auto simp: cont_def)
    moreover have "encodeRune r = map char_of [240 + e, 128 + d, 128 + b, 128 + a]"
      using 4 v by (simp add: encodeRune_def a_def b_def c_def d_def e_def)
    ultimately show ?thesis using r de by simp
  qed
qed

lemma runes_string_of: "list_all valid_rune rs \<Longrightarrow> runes (string_of rs) = rs"
proof (induction rs)
  case (Cons r rs)
  then have "decodeRune (encodeRune r @ string_of rs) = (r, length (encodeRune r))" by (intro decode_encode) simp
  then show ?case using Cons by (simp add: string_of_def runes.simps [of "encodeRune r @ _"])
qed (simp add: string_of_def)

lemma decodeRune_valid:
  assumes "s \<noteq> []"
  shows "valid_rune (fst (decodeRune s))"
proof (cases "fst (decodeRune s) = runeError \<or> of_char (hd s) < (128 :: nat)")
  case True
  then show ?thesis by (auto simp: valid_rune_def runeError_def decodeRune_def Let_def)
next
  case False
  then obtain n x lo hi where l: "lead (of_char (hd s)) = Some (n, x, lo, hi)"
    by (auto simp: decodeRune_def Let_def split: option.splits)
  define cs :: "nat list" where "cs = map of_char (take n (tl s))"
  from False l have "length cs = n \<and> lo \<le> hd cs \<and> hd cs \<le> hi \<and> list_all cont (tl cs)"
    by (auto simp: decodeRune_def Let_def cs_def split: if_splits)
  then have cs: "length cs = n" "lo \<le> hd cs" "hd cs \<le> hi" "list_all cont (tl cs)"
    and d: "fst (decodeRune s) = foldl (\<lambda>x c. x * 64 + (c - 128)) x cs"
    using False l by (auto simp: decodeRune_def Let_def cs_def)
  have "valid_rune (foldl (\<lambda>x c. x * 64 + (c - 128)) x cs)"
  proof -
    consider (one) c where "n = 1" "cs = [c]" | (two) c d where "n = 2" "cs = [c, d]" | (three) c d e where "n = 3" "cs = [c, d, e]"
      using l cs(1) by (auto simp: lead_def length_Suc_conv Suc_length_conv numeral_2_eq_2 numeral_3_eq_3 split: if_splits)
    then show ?thesis using l cs by cases (auto simp: lead_def valid_rune_def cont_def split: if_splits)
  qed
  then show ?thesis by (simp add: d)
qed

lemma runes_valid: "list_all valid_rune (runes s)"
proof (induction s rule: runes.induct)
  case (1 s)
  then show ?case using decodeRune_valid by (subst runes.simps) simp
qed

lemma runes_length: "length (runes s) \<le> length s \<and> length s \<le> 4 * length (runes s)"
proof (induction s rule: runes.induct)
  case (1 s)
  show ?case
  proof (cases "s = []")
    case False
    then show ?thesis using 1 decodeRune_size [of s] by (subst (1 2) runes.simps) (cases s, auto simp: Suc_le_eq)
  qed simp
qed

subsection \<open>Searching, splitting and replacing\<close>

fun index_of :: "string \<Rightarrow> string \<Rightarrow> nat option" where
  "index_of sub s =
     (if hasPrefix s sub then Some 0 else case s of [] \<Rightarrow> None | _ # t \<Rightarrow> map_option Suc (index_of sub t))"

declare index_of.simps [simp del]

function explode_runes :: "string \<Rightarrow> string list" where
  "explode_runes s =
     (if s = [] then [] else take (snd (decodeRune s)) s # explode_runes (drop (snd (decodeRune s)) s))"
  by pat_completeness auto
termination
  by (relation "measure length") (use decodeRune_size in \<open>auto simp: Suc_le_eq\<close>)

declare explode_runes.simps [simp del]

function split_str :: "string \<Rightarrow> string \<Rightarrow> string list" where
  "split_str sep s =
     (if sep = [] then explode_runes s
      else case index_of sep s of None \<Rightarrow> [s] | Some i \<Rightarrow> take i s # split_str sep (drop (i + length sep) s))"
  by pat_completeness auto
termination
proof (relation "measure (\<lambda>(sep, s). length s)")
  fix sep s :: string and i assume "sep \<noteq> []" and i: "index_of sep s = Some i"
  have "s \<noteq> []"
    using \<open>sep \<noteq> []\<close> i by (cases s) (auto simp: index_of.simps hasPrefix_def)
  then show "((sep, drop (i + length sep) s), sep, s) \<in> measure (\<lambda>(sep, s). length s)"
    using \<open>sep \<noteq> []\<close> by (cases sep) auto
qed simp

declare split_str.simps [simp del]

primrec join_str :: "string \<Rightarrow> string list \<Rightarrow> string" where
  "join_str sep [] = []"
| "join_str sep (w # ws) = w @ concat (map (\<lambda>x. sep @ x) ws)"

definition replaceAll :: "string \<Rightarrow> string \<Rightarrow> string \<Rightarrow> string" where
  "replaceAll s old new =
     (if old = [] then new @ concat (map (\<lambda>r. r @ new) (explode_runes s)) else join_str new (split_str old s))"

text \<open>\<open>strconv.Atoi\<close> with its error ignored: zero for a syntax error, the nearest bound for a range error.\<close>

definition atoi_val :: "string \<Rightarrow> int" where
  "atoi_val s =
     (let (neg, t) = (case s of [] \<Rightarrow> (False, []) | c # cs \<Rightarrow>
             if c = CHR ''-'' then (True, cs) else if c = CHR ''+'' then (False, cs) else (False, s))
      in case parse_digits t of
           None \<Rightarrow> 0
         | Some n \<Rightarrow> if neg then max (- int n) (- (2 ^ 63)) else min (int n) (2 ^ 63 - 1))"

lemma atoi_ParseInt: "ParseInt 64 s = Some i \<Longrightarrow> atoi_val s = i"
  by (auto simp: ParseInt_def atoi_val_def Let_def split: prod.splits option.splits if_splits)

lemma atoi_itoa: "- (2 ^ 63) \<le> i \<Longrightarrow> i < 2 ^ 63 \<Longrightarrow> atoi_val (itoa i) = i"
  using ParseInt_itoa [of 64 i] by (intro atoi_ParseInt) simp

lemma replaceAll_byte: "replaceAll s [c] w = concat (map (\<lambda>d. if d = c then w else [d]) s)"
proof -
  have "join_str w (split_str [c] s) = concat (map (\<lambda>d. if d = c then w else [d]) s)"
  proof (induction s)
    case Nil
    then show ?case by (simp add: split_str.simps index_of.simps hasPrefix_def)
  next
    case (Cons d s)
    show ?case
    proof (cases "d = c")
      case True
      then have "split_str [c] (d # s) = [] # split_str [c] s"
        by (subst split_str.simps) (simp add: index_of.simps hasPrefix_def)
      moreover have "split_str [c] s \<noteq> []" by (subst split_str.simps) (simp split: option.split)
      ultimately show ?thesis using Cons True by (cases "split_str [c] s") simp_all
    next
      case False
      then have "index_of [c] (d # s) = map_option Suc (index_of [c] s)"
        by (subst index_of.simps) (simp add: hasPrefix_def)
      then have "split_str [c] (d # s) = (d # hd (split_str [c] s)) # tl (split_str [c] s)"
        by (subst (1 2 3) split_str.simps) (simp split: option.split)
      moreover have "split_str [c] s \<noteq> []" by (subst split_str.simps) (simp split: option.split)
      ultimately show ?thesis using Cons False by (cases "split_str [c] s") simp_all
    qed
  qed
  then show ?thesis by (simp add: replaceAll_def)
qed

end
