(* ===== verification/Funcs.thy ===== *)
theory Funcs
  imports Values Strings Identity Lexer
begin

text \<open>
  The SQL functions that evaluate their arguments first (executor/eval.go, evalScalarFunc from its second
  switch on) and the sequences (executor/sequences.go). Each case of the switch is a definition over the
  argument values; a slice expression out of range, which panics in Go, is the error \<open>panic\<close>.

  Functions on dates and intervals, regular expressions, JSON documents and arbitrary precision numbers are
  left to \<open>elib\<close>.
\<close>

subsection \<open>State\<close>

text \<open>
  What an evaluation can change: the settings of its session, the sequences of the process, and the number of
  random values drawn.
\<close>

record xstate =
  x_sess :: "session option"
  x_seqs :: "string \<Rightarrow> int option"
  x_draws :: nat

type_synonym 'a ex = "(xstate, 'a) sm"

definition panic :: go_error where
  "panic = ErrMsg ''panic: slice bounds out of range''"

subsection \<open>Sequences (sequences.go)\<close>

definition SeqNextVal :: "string \<Rightarrow> xstate \<Rightarrow> xstate \<times> int" where
  "SeqNextVal name st =
     (let v = wrap64 ((case x_seqs st name of Some v \<Rightarrow> v | None \<Rightarrow> 0) + 1)
      in (st\<lparr>x_seqs := (x_seqs st)(name \<mapsto> v)\<rparr>, v))"

definition SeqCurrVal :: "string \<Rightarrow> xstate \<Rightarrow> int res" where
  "SeqCurrVal name st = (case x_seqs st name of None \<Rightarrow> Inl (ErrMsg ''sequence does not exist'') | Some v \<Rightarrow> Inr v)"

definition SeqSetVal :: "string \<Rightarrow> int \<Rightarrow> xstate \<Rightarrow> xstate \<times> int" where
  "SeqSetVal name v st = (st\<lparr>x_seqs := (x_seqs st)(name \<mapsto> v)\<rparr>, v)"

definition SeqInit :: "string \<Rightarrow> int \<Rightarrow> xstate \<Rightarrow> xstate" where
  "SeqInit name start st =
     (if x_seqs st name = None then st\<lparr>x_seqs := (x_seqs st)(name \<mapsto> wrap64 (start - 1))\<rparr> else st)"

text \<open>The name of a sequence argument: quotes trimmed, what follows the last dot.\<close>

definition seq_name :: "string \<Rightarrow> string" where
  "seq_name s =
     (let q = (\<lambda>c. c = CHR 0x22 \<or> c = CHR 0x27);
          nm = rev (dropWhile q (rev (dropWhile q s)))
      in rev (takeWhile (\<lambda>c. c \<noteq> CHR ''.'') (rev nm)))"

definition fn_nextval :: "sql_value list \<Rightarrow> sql_value ex" where
  "fn_nextval args st =
     (case args of
        [] \<Rightarrow> (st, Inl (ExecError ''42883''))
      | a # _ \<Rightarrow> (case SeqNextVal (seq_name (v_text a)) st of (st', v) \<Rightarrow> (st', Inr (val (itoa v) OIDInt8))))"

definition fn_currval :: "sql_value list \<Rightarrow> sql_value ex" where
  "fn_currval args st =
     (case args of
        [] \<Rightarrow> (st, Inl (ExecError ''42883''))
      | a # _ \<Rightarrow> (case SeqCurrVal (seq_name (v_text a)) st of
                     Inl _ \<Rightarrow> (st, Inl (ExecError ''55000''))
                   | Inr v \<Rightarrow> (st, Inr (val (itoa v) OIDInt8))))"

definition fn_setval :: "sql_value list \<Rightarrow> sql_value ex" where
  "fn_setval args st =
     (case args of
        a # b # _ \<Rightarrow>
          (case ParseInt 64 (v_text b) of
             None \<Rightarrow> (st, Inl (ExecError ''22P02''))
           | Some v \<Rightarrow> (case SeqSetVal (seq_name (v_text a)) v st of (st', v) \<Rightarrow> (st', Inr (val (itoa v) OIDInt8))))
      | _ \<Rightarrow> (st, Inl (ExecError ''42883'')))"

subsection \<open>Strings\<close>

definition strFn :: "(string \<Rightarrow> string) \<Rightarrow> sql_value list \<Rightarrow> sql_value res" where
  "strFn g args =
     (case args of
        [a] \<Rightarrow> if v_null a then Inr (null_val OIDText) else Inr (val (g (v_text a)) OIDText)
      | _ \<Rightarrow> Inl (ExecError ''42883''))"

definition trim_left :: "string \<Rightarrow> string" where
  "trim_left s = dropWhile (\<lambda>c. c = CHR '' '') s"

definition trim_right :: "string \<Rightarrow> string" where
  "trim_right s = rev (dropWhile (\<lambda>c. c = CHR '' '') (rev s))"

definition fn_length :: "sql_value list \<Rightarrow> sql_value res" where
  "fn_length args =
     (case args of
        [a] \<Rightarrow> if v_null a then Inr (null_val OIDInt4) else Inr (val (utoa (length (runes (v_text a)))) OIDInt4)
      | _ \<Rightarrow> Inl (ExecError ''42883''))"

definition fn_concat :: "sql_value list \<Rightarrow> sql_value res" where
  "fn_concat args = Inr (val (concat (map (\<lambda>a. if v_null a then [] else v_text a) args)) OIDText)"

text \<open>A function that is NULL with fewer than \<open>k\<close> arguments or a NULL first argument.\<close>

definition null_first :: "nat \<Rightarrow> nat \<Rightarrow> (string \<Rightarrow> sql_value list \<Rightarrow> sql_value res) \<Rightarrow> sql_value list \<Rightarrow> sql_value res" where
  "null_first k oid g args =
     (case args of
        a # rest \<Rightarrow> if length args < k \<or> v_null a then Inr (null_val oid) else g (v_text a) rest
      | [] \<Rightarrow> Inr (null_val oid))"

definition fn_substring :: "sql_value list \<Rightarrow> sql_value res" where
  "fn_substring = null_first 2 OIDText (\<lambda>s rest.
     let r = runes s; b = rest ! 0;
         start = (if v_null b then 0 else max 0 (wrap64 (atoi_val (v_text b) - 1)))
     in if int (length r) \<le> start then Inr (val [] OIDText)
        else if 2 \<le> length rest \<and> \<not> v_null (rest ! 1) then
          let e = min (wrap64 (start + atoi_val (v_text (rest ! 1)))) (int (length r))
          in if e < start then Inl panic
             else Inr (val (string_of (take (nat (e - start)) (drop (nat start) r))) OIDText)
        else Inr (val (string_of (drop (nat start) r)) OIDText))"

definition fn_split_part :: "sql_value list \<Rightarrow> sql_value res" where
  "fn_split_part = null_first 3 OIDText (\<lambda>s rest.
     let parts = split_str (v_text (rest ! 0)) s; n = atoi_val (v_text (rest ! 1))
     in if n < 1 \<or> int (length parts) < n then Inr (val [] OIDText) else Inr (val (parts ! (nat n - 1)) OIDText))"

definition array_text :: "string list \<Rightarrow> string" where
  "array_text es = ''{'' @ join_str '','' es @ ''}''"

definition fn_string_to_array :: "sql_value list \<Rightarrow> sql_value res" where
  "fn_string_to_array = null_first 2 OIDTextArr (\<lambda>s rest. Inr (val (array_text (split_str (v_text (rest ! 0)) s)) OIDTextArr))"

definition fn_array_to_string :: "sql_value list \<Rightarrow> sql_value res" where
  "fn_array_to_string = null_first 2 OIDText (\<lambda>s rest. Inr (val (join_str (v_text (rest ! 0)) (pgArrayElements s)) OIDText))"

definition fn_position :: "sql_value list \<Rightarrow> sql_value res" where
  "fn_position args =
     (case args of
        a # b # _ \<Rightarrow>
          if v_null a \<or> v_null b then Inr (val ''0'' OIDInt4)
          else (case index_of (v_text b) (v_text a) of
                  None \<Rightarrow> Inr (val ''0'' OIDInt4)
                | Some i \<Rightarrow> Inr (val (utoa (length (runes (take i (v_text a))) + 1)) OIDInt4))
      | _ \<Rightarrow> Inr (val ''0'' OIDInt4))"

definition fill_of :: "sql_value list \<Rightarrow> string" where
  "fill_of rest = (if 2 \<le> length rest \<and> \<not> v_null (rest ! 1) \<and> v_text (rest ! 1) \<noteq> [] then v_text (rest ! 1) else '' '')"

text \<open>
  The padding loop, on the front or at the end. The fill is never empty; a string of \<open>4 * n\<close> bytes has at least
  \<open>n\<close> code points, so the loop ends.
\<close>

function pad :: "bool \<Rightarrow> string \<Rightarrow> int \<Rightarrow> string \<Rightarrow> string" where
  "pad front fill n s =
     (if int (length (runes s)) < n \<and> fill \<noteq> [] then pad front fill n (if front then fill @ s else s @ fill) else s)"
  by pat_completeness auto
termination
proof (relation "measure (\<lambda>(front, fill, n, s). nat (4 * n) - length s)")
  fix front :: bool and fill s :: string and n :: int
  assume a: "int (length (runes s)) < n \<and> fill \<noteq> []"
  then have "length s < nat (4 * n)" using runes_length [of s] by linarith
  then show "((front, fill, n, if front then fill @ s else s @ fill), front, fill, n, s)
      \<in> measure (\<lambda>(front, fill, n, s). nat (4 * n) - length s)"
    using a by (cases fill) (auto intro: diff_less_mono2)
qed simp

declare pad.simps [simp del]

definition fn_lpad :: "sql_value list \<Rightarrow> sql_value res" where
  "fn_lpad = null_first 2 OIDText (\<lambda>s rest.
     let n = atoi_val (v_text (rest ! 0)); s = pad True (fill_of rest) n s; rr = runes s
     in if n < int (length rr) then
          (if n < 0 then Inl panic else Inr (val (string_of (drop (length rr - nat n) rr)) OIDText))
        else Inr (val s OIDText))"

definition fn_rpad :: "sql_value list \<Rightarrow> sql_value res" where
  "fn_rpad = null_first 2 OIDText (\<lambda>s rest.
     let n = atoi_val (v_text (rest ! 0)); s = pad False (fill_of rest) n s; rr = runes s
     in if n < int (length rr) then
          (if n < 0 then Inl panic else Inr (val (string_of (take (nat n) rr)) OIDText))
        else Inr (val s OIDText))"

definition fn_repeat :: "sql_value list \<Rightarrow> sql_value res" where
  "fn_repeat = null_first 2 OIDText (\<lambda>s rest.
     let n = nat (max 0 (atoi_val (v_text (rest ! 0))))
     in if 2 ^ 63 \<le> int (length s) * int n then Inl (ErrMsg ''panic: strings: Repeat output length overflow'')
        else Inr (val (concat (replicate n s)) OIDText))"

definition fn_replace :: "sql_value list \<Rightarrow> sql_value res" where
  "fn_replace = null_first 3 OIDText (\<lambda>s rest. Inr (val (replaceAll s (v_text (rest ! 0)) (v_text (rest ! 1))) OIDText))"

definition fn_reverse :: "sql_value list \<Rightarrow> sql_value res" where
  "fn_reverse = null_first 1 OIDText (\<lambda>s _. Inr (val (string_of (rev (runes s))) OIDText))"

definition translate_rune :: "nat list \<Rightarrow> nat list \<Rightarrow> nat \<Rightarrow> nat list" where
  "translate_rune src dst c =
     (if c \<in> set (drop (length dst) src) then []
      else case map_of (rev (zip src dst)) c of Some r \<Rightarrow> [r] | None \<Rightarrow> [c])"

definition fn_translate :: "sql_value list \<Rightarrow> sql_value res" where
  "fn_translate = null_first 3 OIDText (\<lambda>s rest.
     Inr (val (string_of (concat (map (translate_rune (runes (v_text (rest ! 0))) (runes (v_text (rest ! 1)))) (runes s)))) OIDText))"

definition edge_count :: "int \<Rightarrow> nat \<Rightarrow> nat" where
  "edge_count n len = (let n = (if n < 0 then int len + n else n) in nat (min (max n 0) (int len)))"

definition fn_left :: "sql_value list \<Rightarrow> sql_value res" where
  "fn_left = null_first 2 OIDText (\<lambda>s rest.
     let rr = runes s in Inr (val (string_of (take (edge_count (atoi_val (v_text (rest ! 0))) (length rr)) rr)) OIDText))"

definition fn_right :: "sql_value list \<Rightarrow> sql_value res" where
  "fn_right = null_first 2 OIDText (\<lambda>s rest.
     let rr = runes s
     in Inr (val (string_of (drop (length rr - edge_count (atoi_val (v_text (rest ! 0))) (length rr)) rr)) OIDText))"

definition fn_ascii :: "sql_value list \<Rightarrow> sql_value res" where
  "fn_ascii = null_first 1 OIDInt4 (\<lambda>s _. if s = [] then Inr (null_val OIDInt4) else Inr (val (utoa (hd (runes s))) OIDInt4))"

definition fn_chr :: "sql_value list \<Rightarrow> sql_value res" where
  "fn_chr = null_first 1 OIDText (\<lambda>s _.
     let n = sint (word_of_int (atoi_val s) :: u32)
     in Inr (val (if n < 0 then encodeRune runeError else encodeRune (nat n)) OIDText))"

definition fn_quote_ident :: "sql_value list \<Rightarrow> sql_value res" where
  "fn_quote_ident = null_first 1 OIDText (\<lambda>s _.
     Inr (val (CHR 0x22 # replaceAll s [CHR 0x22] [CHR 0x22, CHR 0x22] @ [CHR 0x22]) OIDText))"

definition fn_quote_literal :: "sql_value list \<Rightarrow> sql_value res" where
  "fn_quote_literal args =
     (case args of
        [] \<Rightarrow> Inr (null_val OIDText)
      | a # _ \<Rightarrow>
          if v_null a then Inr (val ''NULL'' OIDText)
          else Inr (val (CHR 0x27 # replaceAll (v_text a) [CHR 0x27] [CHR 0x27, CHR 0x27] @ [CHR 0x27]) OIDText))"

definition fn_octet_length :: "nat \<Rightarrow> sql_value list \<Rightarrow> sql_value res" where
  "fn_octet_length k = null_first 1 OIDInt4 (\<lambda>s _. Inr (val (utoa (length s * k)) OIDInt4))"

subsection \<open>Numbers\<close>

text \<open>
  \<open>math.Trunc\<close>, \<open>Floor\<close>, \<open>Ceil\<close>, \<open>Round\<close> and \<open>Abs\<close>, and the conversion to \<open>int64\<close>, which out of range gives the
  least integer (the result on amd64). A finite float has the magnitude \<open>fl_num / 2 ^ 1074\<close>.
\<close>

definition fl_num :: "u64 \<Rightarrow> nat" where
  "fl_num w = (case fl_parts w of (m, e) \<Rightarrow> m * 2 ^ e)"

definition fl_integral :: "u64 \<Rightarrow> bool" where
  "fl_integral w \<longleftrightarrow> \<not> isNaN w \<and> (fl_mag w = inf_mag \<or> 2 ^ 1074 dvd fl_num w)"

definition fl_with :: "u64 \<Rightarrow> (nat \<Rightarrow> nat) \<Rightarrow> u64" where
  "fl_with w g = (if isNaN w \<or> fl_mag w = inf_mag then w else fl_make (bit w 63) (round_mag (g (fl_num w)) 1))"

definition fl_trunc :: "u64 \<Rightarrow> u64" where
  "fl_trunc w = fl_with w (\<lambda>m. m div 2 ^ 1074)"

definition fl_floor :: "u64 \<Rightarrow> u64" where
  "fl_floor w = fl_with w (\<lambda>m. if bit w 63 then (m + 2 ^ 1074 - 1) div 2 ^ 1074 else m div 2 ^ 1074)"

definition fl_ceil :: "u64 \<Rightarrow> u64" where
  "fl_ceil w = fl_with w (\<lambda>m. if bit w 63 then m div 2 ^ 1074 else (m + 2 ^ 1074 - 1) div 2 ^ 1074)"

definition fl_round :: "u64 \<Rightarrow> u64" where
  "fl_round w = fl_with w (\<lambda>m. (2 * m + 2 ^ 1074) div 2 ^ 1075)"

definition fl_abs :: "u64 \<Rightarrow> u64" where
  "fl_abs w = w AND mask 63"

definition fl_int64 :: "u64 \<Rightarrow> int" where
  "fl_int64 w =
     (let i = (if bit w 63 then - int (fl_num w div 2 ^ 1074) else int (fl_num w div 2 ^ 1074))
      in if isNaN w \<or> fl_mag w = inf_mag \<or> i < - (2 ^ 63) \<or> 2 ^ 63 \<le> i then - (2 ^ 63) else i)"

definition mathFn1 :: "(u64 \<Rightarrow> u64) \<Rightarrow> sql_value list \<Rightarrow> sql_value res" where
  "mathFn1 fn args =
     (case args of
        [a] \<Rightarrow>
          if v_null a then Inr (null_val OIDFloat8)
          else (case ParseFloat (v_text a) of
                  None \<Rightarrow> Inl numErr
                | Some x \<Rightarrow>
                    if fl_integral (fn x) \<and> v_oid a \<noteq> OIDFloat8 \<and> v_oid a \<noteq> OIDNumeric
                    then Inr (val (itoa (fl_int64 (fn x))) OIDInt8)
                    else Inr (val (FormatFloat (fn x)) OIDFloat8))
      | _ \<Rightarrow> Inl (ExecError ''42883''))"

definition math_or_big :: "elib \<Rightarrow> string \<Rightarrow> (u64 \<Rightarrow> u64) \<Rightarrow> sql_value list \<Rightarrow> sql_value res" where
  "math_or_big L name fn args =
     (if (length args = 1 \<or> (name = ''round'' \<and> length args = 2)) \<and> \<not> v_null (hd args) \<and> v_oid (hd args) = OIDNumeric
      then l_bigMath L name args else mathFn1 fn args)"

definition fn_mod :: "elib \<Rightarrow> sql_value list \<Rightarrow> sql_value res" where
  "fn_mod L args =
     (case args of
        [a, b] \<Rightarrow> if v_null a \<or> v_null b then Inr (null_val (v_oid a)) else arith L ''%'' a b
      | _ \<Rightarrow> Inl (ExecError ''42883''))"

definition fl_zero :: u64 where
  "fl_zero = 0"

definition fn_sign :: "sql_value list \<Rightarrow> sql_value res" where
  "fn_sign = null_first 1 OIDFloat8 (\<lambda>s _.
     let v = fst (parse_float s)
     in Inr (val (if fl_less v fl_zero then ''-1'' else if fl_less fl_zero v then ''1'' else ''0'') OIDInt4))"

definition fn_div :: "sql_value list \<Rightarrow> sql_value res" where
  "fn_div args =
     (case args of
        a # b # _ \<Rightarrow>
          if v_null a \<or> v_null b then Inr (null_val OIDInt8)
          else let x = fst (parse_float (v_text a)); y = fst (parse_float (v_text b))
               in if fl_mag y = 0 then Inl (ExecError ''22012'') else Inr (val (itoa (fl_int64 (fl_div x y))) OIDInt8)
      | _ \<Rightarrow> Inr (null_val OIDInt8))"

definition pick :: "elib \<Rightarrow> string \<Rightarrow> sql_value \<Rightarrow> sql_value \<Rightarrow> sql_value" where
  "pick L op best a =
     (if v_null a then best else if v_null best then a
      else case compare L op a best of Inr c \<Rightarrow> if asBool c then a else best | Inl _ \<Rightarrow> best)"

definition fn_extreme :: "elib \<Rightarrow> string \<Rightarrow> sql_value list \<Rightarrow> sql_value res" where
  "fn_extreme L op args = (case args of [] \<Rightarrow> Inr (null_val OIDUnknown) | a # as \<Rightarrow> Inr (foldl (pick L op) a as))"

definition fn_num_nulls :: "bool \<Rightarrow> sql_value list \<Rightarrow> sql_value res" where
  "fn_num_nulls null args = Inr (val (utoa (length (filter (\<lambda>a. v_null a = null) args))) OIDInt4)"

definition fn_cast :: "nat \<Rightarrow> sql_value list \<Rightarrow> sql_value res" where
  "fn_cast oid = null_first 1 oid (\<lambda>s _. Inr (val s oid))"

subsection \<open>Arrays and templates\<close>

definition fn_array_length :: "sql_value list \<Rightarrow> sql_value res" where
  "fn_array_length = null_first 1 OIDInt4 (\<lambda>s _. Inr (val (utoa (length (pgArrayElements s))) OIDInt4))"

definition fn_array_position :: "sql_value list \<Rightarrow> sql_value res" where
  "fn_array_position = null_first 2 OIDInt4 (\<lambda>s rest.
     let elems = pgArrayElements s; target = (if v_null (rest ! 0) then ''NULL'' else v_text (rest ! 0));
         i = length (takeWhile (\<lambda>e. e \<noteq> target) elems)
     in if i < length elems then Inr (val (utoa (i + 1)) OIDInt4) else Inr (null_val OIDInt4))"

definition fn_array_append :: "sql_value list \<Rightarrow> sql_value res" where
  "fn_array_append = null_first 2 OIDTextArr (\<lambda>s rest.
     Inr (val (array_text (pgArrayElements s @ (if v_null (rest ! 0) then [] else [v_text (rest ! 0)]))) OIDTextArr))"

definition fn_array_prepend :: "sql_value list \<Rightarrow> sql_value res" where
  "fn_array_prepend args =
     (case args of
        a # b # _ \<Rightarrow> Inr (val (array_text ((if v_null a then [] else [v_text a]) @ pgArrayElements (v_text b))) OIDTextArr)
      | _ \<Rightarrow> Inr (null_val OIDTextArr))"

definition fn_unnest :: "sql_value list \<Rightarrow> sql_value res" where
  "fn_unnest args = (case args of a # _ \<Rightarrow> if v_null a then Inr (null_val OIDText) else Inr (val (v_text a) (v_oid a)) | [] \<Rightarrow> Inr (null_val OIDText))"

fun format_loop :: "string \<Rightarrow> sql_value list \<Rightarrow> string" where
  "format_loop [] args = []"
| "format_loop [c] args = [c]"
| "format_loop (c # d # t) args =
     (if c = CHR ''%'' \<and> d \<in> set ''sIL'' then
        (case args of a # as \<Rightarrow> v_text a @ format_loop t as | [] \<Rightarrow> format_loop t [])
      else if c = CHR ''%'' \<and> d = CHR ''%'' then CHR ''%'' # format_loop t args
      else c # format_loop (d # t) args)"

definition fn_format :: "sql_value list \<Rightarrow> sql_value res" where
  "fn_format = null_first 1 OIDText (\<lambda>s rest. Inr (val (format_loop s rest) OIDText))"

subsection \<open>JSON builders and bytea\<close>

definition json_text :: "string \<Rightarrow> string" where
  "json_text s = CHR 0x22 # replaceAll s [CHR 0x22] [CHR 0x5C, CHR 0x22] @ [CHR 0x22]"

definition json_item :: "sql_value \<Rightarrow> string" where
  "json_item a = (if v_null a then ''null'' else json_text (v_text a))"

fun json_pairs :: "sql_value list \<Rightarrow> string list" where
  "json_pairs (k # v # r) = (json_text (v_text k) @ '':'' @ json_item v) # json_pairs r"
| "json_pairs _ = []"

definition fn_json_build_object :: "sql_value list \<Rightarrow> sql_value res" where
  "fn_json_build_object args =
     (if odd (length args) then Inl (ExecError ''22023'')
      else Inr (val (''{'' @ join_str '','' (json_pairs args) @ ''}'') OIDJSONB))"

definition fn_json_build_array :: "sql_value list \<Rightarrow> sql_value res" where
  "fn_json_build_array args = Inr (val (''['' @ join_str '','' (map json_item args) @ '']'') OIDJSONB)"

definition fn_to_json :: "sql_value list \<Rightarrow> sql_value res" where
  "fn_to_json = null_first 1 OIDJSONB (\<lambda>s _.
     Inr (val (if hasPrefix s ''{'' \<or> hasPrefix s ''['' then s else json_text s) OIDJSONB))"

definition byteaToText :: "bytes \<Rightarrow> string" where
  "byteaToText b = CHR 0x5C # CHR ''x'' # hex_encode b"

definition byteaFromText :: "string \<Rightarrow> bytes" where
  "byteaFromText s =
     (let s = trimSpace s
      in case (if hasPrefix s [CHR 0x5C, CHR 0x5C, CHR ''x''] then hex_decode (drop 3 s) else None) of
           Some b \<Rightarrow> b
         | None \<Rightarrow> (case (if hasPrefix s [CHR 0x5C, CHR ''x''] then hex_decode (drop 2 s) else None) of Some b \<Rightarrow> b | None \<Rightarrow> s))"

definition fn_get_byte :: "sql_value list \<Rightarrow> sql_value res" where
  "fn_get_byte = null_first 2 OIDInt4 (\<lambda>s rest.
     let b = byteaFromText s; n = atoi_val (v_text (rest ! 0))
     in if n < 0 \<or> int (length b) \<le> n then Inl (ExecError ''22P02'') else Inr (val (utoa (of_char (b ! nat n))) OIDInt4))"

definition fn_set_byte :: "sql_value list \<Rightarrow> sql_value res" where
  "fn_set_byte = null_first 3 OIDBytea (\<lambda>s rest.
     let b = byteaFromText s; n = atoi_val (v_text (rest ! 0)); v = atoi_val (v_text (rest ! 1))
     in Inr (val (byteaToText (if 0 \<le> n \<and> n < int (length b) then b[nat n := char_of (nat (v mod 256))] else b)) OIDBytea))"

definition fn_encode :: "sql_value list \<Rightarrow> sql_value res" where
  "fn_encode = null_first 2 OIDText (\<lambda>s rest.
     let b = byteaFromText s; f = toLower (v_text (rest ! 0))
     in Inr (val (if f = ''hex'' then hex_encode b else if f = ''base64'' then b64_encode b else b) OIDText))"

definition fn_decode :: "sql_value list \<Rightarrow> sql_value res" where
  "fn_decode = null_first 2 OIDBytea (\<lambda>s rest.
     let f = toLower (v_text (rest ! 0));
         decoded = (\<lambda>r. case r of None \<Rightarrow> Inl (ExecError ''22P02'') | Some b \<Rightarrow> Inr (val (byteaToText b) OIDBytea))
     in if f = ''hex'' then decoded (hex_decode s)
        else if f = ''base64'' then decoded (b64_decode s)
        else Inr (val s OIDBytea))"

subsection \<open>Dispatch\<close>

definition sqlTypeName :: "nat \<Rightarrow> string" where
  "sqlTypeName oid = (case map_of
     [(OIDInt2, ''smallint''),
      (OIDInt4, ''integer''),
      (OIDInt8, ''bigint''),
      (OIDFloat4, ''real''),
      (OIDFloat8, ''double precision''),
      (OIDNumeric, ''numeric''),
      (OIDBool, ''boolean''),
      (OIDUUID, ''uuid''),
      (OIDJSON, ''json''),
      (OIDJSONB, ''jsonb''),
      (OIDBytea, ''bytea''),
      (OIDDate, ''date''),
      (OIDTime, ''time without time zone''),
      (OIDTimestamp, ''timestamp without time zone''),
      (OIDTimestamptz, ''timestamp with time zone''),
      (OIDVarchar, ''character varying''),
      (OIDBpchar, ''character'')] oid of Some n \<Rightarrow> n | None \<Rightarrow> ''text'')"

definition fn_typeof :: "sql_value list \<Rightarrow> sql_value res" where
  "fn_typeof args = (case args of [] \<Rightarrow> Inr (null_val OIDText) | a # _ \<Rightarrow> Inr (val (sqlTypeName (v_oid a)) OIDText))"

definition string_funcs :: "(string \<times> (sql_value list \<Rightarrow> sql_value res)) list" where
  "string_funcs =
     [(''length'', fn_length),
      (''char_length'', fn_length),
      (''character_length'', fn_length),
      (''upper'', strFn toUpper),
      (''lower'', strFn toLower),
      (''trim'', strFn trimSpace),
      (''btrim'', strFn trimSpace),
      (''ltrim'', strFn trim_left),
      (''rtrim'', strFn trim_right),
      (''concat'', fn_concat),
      (''substring'', fn_substring),
      (''substr'', fn_substring),
      (''split_part'', fn_split_part),
      (''string_to_array'', fn_string_to_array),
      (''array_to_string'', fn_array_to_string),
      (''position'', fn_position),
      (''strpos'', fn_position),
      (''lpad'', fn_lpad),
      (''rpad'', fn_rpad),
      (''repeat'', fn_repeat),
      (''replace'', fn_replace),
      (''reverse'', fn_reverse),
      (''translate'', fn_translate),
      (''left'', fn_left),
      (''right'', fn_right),
      (''ascii'', fn_ascii),
      (''chr'', fn_chr),
      (''quote_ident'', fn_quote_ident),
      (''quote_literal'', fn_quote_literal),
      (''quote_nullable'', fn_quote_literal),
      (''octet_length'', fn_octet_length 1),
      (''bit_length'', fn_octet_length 8)]"

definition math_funcs :: "elib \<Rightarrow> (string \<times> (sql_value list \<Rightarrow> sql_value res)) list" where
  "math_funcs L =
     [(''abs'', math_or_big L ''abs'' fl_abs),
      (''ceil'', math_or_big L ''ceil'' fl_ceil),
      (''ceiling'', math_or_big L ''ceil'' fl_ceil),
      (''floor'', math_or_big L ''floor'' fl_floor),
      (''round'', math_or_big L ''round'' fl_round),
      (''sqrt'', math_or_big L ''sqrt'' (l_math L ''sqrt'')),
      (''mod'', fn_mod L),
      (''pi'', (\<lambda>_. Inr (val ''3.141592653589793'' OIDFloat8))),
      (''log'', mathFn1 (l_math L ''log10'')),
      (''log10'', mathFn1 (l_math L ''log10'')),
      (''ln'', mathFn1 (l_math L ''ln'')),
      (''exp'', mathFn1 (l_math L ''exp'')),
      (''sign'', fn_sign),
      (''trunc'', mathFn1 fl_trunc),
      (''div'', fn_div),
      (''random'', (\<lambda>_. Inr (val ''0.5'' OIDFloat8))),
      (''greatest'', fn_extreme L ''>''),
      (''least'', fn_extreme L ''<''),
      (''num_nulls'', fn_num_nulls True),
      (''num_nonnulls'', fn_num_nulls False),
      (''int4'', fn_cast (oidForTypeName ''int4'')),
      (''int8'', fn_cast (oidForTypeName ''int8'')),
      (''int2'', fn_cast (oidForTypeName ''int2'')),
      (''float4'', fn_cast (oidForTypeName ''float4'')),
      (''float8'', fn_cast (oidForTypeName ''float8'')),
      (''numeric'', fn_cast (oidForTypeName ''numeric'')),
      (''bool'', fn_cast (oidForTypeName ''bool''))]"

definition data_funcs :: "(string \<times> (sql_value list \<Rightarrow> sql_value res)) list" where
  "data_funcs =
     [(''array_length'', fn_array_length),
      (''cardinality'', fn_array_length),
      (''array_position'', fn_array_position),
      (''array_append'', fn_array_append),
      (''array_prepend'', fn_array_prepend),
      (''unnest'', fn_unnest),
      (''format'', fn_format),
      (''json_build_object'', fn_json_build_object),
      (''jsonb_build_object'', fn_json_build_object),
      (''json_build_array'', fn_json_build_array),
      (''jsonb_build_array'', fn_json_build_array),
      (''row_to_json'', fn_to_json),
      (''to_json'', fn_to_json),
      (''to_jsonb'', fn_to_json),
      (''bytea'', fn_cast OIDBytea),
      (''get_byte'', fn_get_byte),
      (''set_byte'', fn_set_byte),
      (''encode'', fn_encode),
      (''decode'', fn_decode),
      (''interval'', fn_cast OIDInterval)]"

definition stub_funcs :: "elib \<Rightarrow> (string \<times> (sql_value list \<Rightarrow> sql_value res)) list" where
  "stub_funcs L =
     [(''setseed'', (\<lambda>_. Inr (null_val OIDUnknown))),
      (''pg_advisory_lock'', (\<lambda>_. Inr (null_val OIDUnknown))),
      (''pg_advisory_lock_shared'', (\<lambda>_. Inr (null_val OIDUnknown))),
      (''pg_sleep'', (\<lambda>_. Inr (null_val OIDUnknown))),
      (''pg_advisory_unlock'', (\<lambda>_. Inr (val ''t'' OIDBool))),
      (''pg_advisory_unlock_shared'', (\<lambda>_. Inr (val ''t'' OIDBool))),
      (''pg_advisory_unlock_all'', (\<lambda>_. Inr (val ''t'' OIDBool))),
      (''pg_try_advisory_lock'', (\<lambda>_. Inr (val ''t'' OIDBool))),
      (''pg_try_advisory_lock_shared'', (\<lambda>_. Inr (val ''t'' OIDBool))),
      (''has_table_privilege'', (\<lambda>_. Inr (val ''t'' OIDBool))),
      (''has_schema_privilege'', (\<lambda>_. Inr (val ''t'' OIDBool))),
      (''has_column_privilege'', (\<lambda>_. Inr (val ''t'' OIDBool))),
      (''has_sequence_privilege'', (\<lambda>_. Inr (val ''t'' OIDBool))),
      (''pg_has_role'', (\<lambda>_. Inr (val ''t'' OIDBool))),
      (''pg_typeof'', fn_typeof),
      (''lastval'', (\<lambda>_. Inr (val ''1'' OIDInt8))),
      (''pg_get_serial_sequence'', (\<lambda>_. Inr (null_val OIDText))),
      (''pg_relation_size'', (\<lambda>_. Inr (val ''0'' OIDInt8))),
      (''pg_table_size'', (\<lambda>_. Inr (val ''0'' OIDInt8))),
      (''pg_total_relation_size'', (\<lambda>_. Inr (val ''0'' OIDInt8))),
      (''pg_database_size'', (\<lambda>_. Inr (val ''0'' OIDInt8))),
      (''pg_size_pretty'', (\<lambda>_. Inr (val ''0 bytes'' OIDText))),
      (''pg_encoding_to_char'', (\<lambda>_. Inr (val ''UTF8'' OIDText))),
      (''timeofday'', (\<lambda>_. Inr (val (l_nowText L) OIDText)))]"

definition strict_func :: "elib \<Rightarrow> string \<Rightarrow> sql_value list \<Rightarrow> sql_value ex" where
  "strict_func L name args =
     (if name = ''nextval'' then fn_nextval args
      else if name = ''currval'' then fn_currval args
      else if name = ''setval'' then fn_setval args
      else lift (case map_of (string_funcs @ math_funcs L @ data_funcs @ stub_funcs L) name of
                   Some g \<Rightarrow> g args
                 | None \<Rightarrow> l_scalarFunc L name args))"

subsection \<open>Properties\<close>

lemma null_first_val [simp]:
  "length rest + 1 \<ge> k \<Longrightarrow> null_first k oid g (val s o1 # rest) = g s rest"
  by (simp add: null_first_def)

text \<open>
  What \<open>quote_literal\<close> and \<open>quote_ident\<close> produce is safe to paste into a statement: the scanner reads it as
  one string constant, or one identifier, with exactly the original bytes.
\<close>

theorem quote_functions_scan_back:
  "\<exists>t u. fn_quote_literal [val s oid] = Inr (val t OIDText)
       \<and> Lex (newLexer t) = (advance (length t) (newLexer t), SCONST s)
       \<and> fn_quote_ident [val s oid] = Inr (val u OIDText)
       \<and> Lex (newLexer u) = (advance (length u) (newLexer u), IDENT s)"
proof -
  let ?t = "quote (CHR 0x27) s" and ?u = "quote (CHR 0x22) s"
  have "fn_quote_literal [val s oid] = Inr (val ?t OIDText)"
    by (simp add: fn_quote_literal_def quote_def replaceAll_byte)
  moreover have "fn_quote_ident [val s oid] = Inr (val ?u OIDText)"
    by (simp add: fn_quote_ident_def quote_def replaceAll_byte)
  moreover have "Lex (newLexer ?t) = (advance (length ?t) (newLexer ?t), SCONST s)"
    using quoted_token [of "[]" "CHR 0x27" "newLexer ?t" s] by (simp add: newLexer_def lx_rest_def)
  moreover have "Lex (newLexer ?u) = (advance (length ?u) (newLexer ?u), IDENT s)"
    using quoted_token [of "[]" "CHR 0x22" "newLexer ?u" s] by (simp add: newLexer_def lx_rest_def)
  ultimately show ?thesis by blast
qed

lemma pad_reaches: "fill \<noteq> [] \<Longrightarrow> n \<le> int (length (runes (pad front fill n s)))"
proof (induction front fill n s rule: pad.induct)
  case (1 front fill n s)
  show ?case
  proof (cases "int (length (runes s)) < n")
    case True
    then show ?thesis using 1 by (subst pad.simps) simp
  next
    case False
    then show ?thesis by (subst pad.simps) simp
  qed
qed

lemma fill_ne: "fill_of rest \<noteq> []"
  by (simp add: fill_of_def)

text \<open>
  \<open>lpad\<close> and \<open>rpad\<close> return for every length that is not negative, with a string of exactly that many code
  points, whatever the text and the fill, even if they are not well-formed UTF-8.
\<close>

theorem pad_exact_length:
  assumes "0 \<le> n" and "n < 2 ^ 63"
  shows "(\<exists>t. fn_lpad (val s o1 # val (itoa n) o2 # rest) = Inr (val t OIDText) \<and> int (length (runes t)) = n)
       \<and> (\<exists>t. fn_rpad (val s o1 # val (itoa n) o2 # rest) = Inr (val t OIDText) \<and> int (length (runes t)) = n)"
proof -
  have a: "atoi_val (itoa n) = n" using assms by (intro atoi_itoa) simp_all
  have valid: "list_all valid_rune (take k (runes u))" "list_all valid_rune (drop k (runes u))" for k u
    using runes_valid [of u] by (simp_all add: list_all_iff) (meson in_set_takeD in_set_dropD)+
  have l: "n \<le> int (length (runes (pad b (fill_of xs) n s)))" for b xs by (rule pad_reaches [OF fill_ne])
  show ?thesis
    using assms(1) l [of True "val (itoa n) o2 # rest"] l [of False "val (itoa n) o2 # rest"] valid
    by (auto simp: fn_lpad_def fn_rpad_def a Let_def runes_string_of)
qed

theorem pad_exact_length_witness:
  "(\<exists>t. fn_lpad [val ''7'' OIDText, val (itoa 3) OIDInt4, val ''0'' OIDText] = Inr (val t OIDText) \<and> int (length (runes t)) = 3)"
  using pad_exact_length [of 3 "''7''" OIDText OIDInt4 "[val ''0'' OIDText]"] by simp

lemma wrap64_id: "- (2 ^ 63) \<le> i \<Longrightarrow> i < 2 ^ 63 \<Longrightarrow> wrap64 i = i"
  by (simp add: wrap64_def signed_of_int signed_take_bit_int_eq_self)

text \<open>
  Three string functions take a length from the query and slice with it unchecked. \<open>substring\<close> panics exactly
  if the length is negative and the start lies inside the text, \<open>lpad\<close> and \<open>rpad\<close> exactly if the length is
  negative; nothing in the executor recovers from a panic.
\<close>

theorem negative_length_panics:
  assumes "\<bar>i\<bar> < 2 ^ 62" and "\<bar>n\<bar> < 2 ^ 62"
  shows "(fn_substring [val s o1, val (itoa i) o2, val (itoa n) o3] = Inl panic \<longleftrightarrow> n < 0 \<and> max 0 (i - 1) < int (length (runes s)))
       \<and> (fn_lpad [val s o1, val (itoa n) o3] = Inl panic \<longleftrightarrow> n < 0)
       \<and> (fn_rpad [val s o1, val (itoa n) o3] = Inl panic \<longleftrightarrow> n < 0)"
proof -
  have a: "atoi_val (itoa i) = i" "atoi_val (itoa n) = n" using assms by (simp_all add: atoi_itoa)
  have w: "wrap64 (i - 1) = i - 1" using assms by (intro wrap64_id) simp_all
  define m where "m = max 0 (i - 1)"
  have m: "max 0 (i - 1) = m" by (simp add: m_def)
  have v: "wrap64 (m + n) = m + n" using assms by (intro wrap64_id) (simp_all add: m_def)
  have l: "n \<le> int (length (runes (pad b (fill_of xs) n s)))" for b xs by (rule pad_reaches [OF fill_ne])
  show ?thesis
  proof (intro conjI)
    show "fn_substring [val s o1, val (itoa i) o2, val (itoa n) o3] = Inl panic \<longleftrightarrow> n < 0 \<and> max 0 (i - 1) < int (length (runes s))"
      by (auto simp: fn_substring_def a w m v Let_def)
    show "fn_lpad [val s o1, val (itoa n) o3] = Inl panic \<longleftrightarrow> n < 0"
      by (auto simp: fn_lpad_def a Let_def)
    show "fn_rpad [val s o1, val (itoa n) o3] = Inl panic \<longleftrightarrow> n < 0"
      by (auto simp: fn_rpad_def a Let_def)
  qed
qed

theorem negative_length_panics_witness:
  "fn_lpad [val ''abc'' OIDText, val (itoa (- 1)) OIDInt4] = Inl panic"
  using negative_length_panics [of 2 "- 1" "''abc''" OIDText OIDInt4 OIDInt4] by simp

lemma byteaFromText_ToText [simp]: "byteaFromText (byteaToText b) = b"
proof -
  have h: "\<not> is_space (hex_digit n)" if "n < 16" for n
  proof -
    have "\<forall>n \<in> set [0..<16]. \<not> is_space (hex_digit n)" by (simp add: upt_rec hex_digit_def is_space_def)
    with that show ?thesis by simp
  qed
  have "\<not> is_space (last (hex_encode b))" if "b \<noteq> []" using that
  proof (induction b)
    case (Cons c cs)
    then show ?case by (cases cs) (auto simp: h)
  qed simp
  moreover have "hex_encode b = [] \<longleftrightarrow> b = []" by (cases b) simp_all
  ultimately have "trimSpace (byteaToText b) = byteaToText b"
    by (intro trimSpace_id) (auto simp: byteaToText_def is_space_def)
  then show ?thesis by (simp add: byteaFromText_def byteaToText_def hasPrefix_def)
qed

text \<open>
  \<open>decode\<close> undoes \<open>encode\<close>: what either format makes of a bytea value decodes to the canonical hexadecimal
  text of the same bytes, and that text denotes these bytes.
\<close>

theorem bytea_encode_decode:
  assumes "toLower fmt = ''hex'' \<or> toLower fmt = ''base64''"
  shows "\<exists>t. fn_encode [val s o1, val fmt o2] = Inr (val t OIDText)
           \<and> fn_decode [val t OIDText, val fmt o2] = Inr (val (byteaToText (byteaFromText s)) OIDBytea)
           \<and> byteaFromText (byteaToText (byteaFromText s)) = byteaFromText s"
  using assms by (auto simp: fn_encode_def fn_decode_def Let_def)

theorem bytea_encode_decode_witness:
  "\<exists>t. fn_encode [val ''abc'' OIDBytea, val ''HEX'' OIDText] = Inr (val t OIDText)
     \<and> fn_decode [val t OIDText, val ''HEX'' OIDText] = Inr (val (byteaToText (byteaFromText ''abc'')) OIDBytea)"
proof -
  have "toLower ''HEX'' = ''hex''" by code_simp
  from bytea_encode_decode [OF disjI1, OF this, of "''abc''" OIDBytea OIDText] show ?thesis by blast
qed

end
