(* ===== verification/Eval.thy ===== *)
theory Eval
  imports Funcs
begin

text \<open>
  The expression evaluator (executor/eval.go, subquery.go, eval_ext.go, guc.go, window.go).

  Each method of the evaluator is a definition over \<open>f\<close>, the recursive call \<open>ev.eval\<close>; \<open>eval\<close> ties them
  together, on trees of decreasing rank. An evaluation reads and may change the session it runs for (\<open>set_config\<close>)
  and the sequences (\<open>nextval\<close>, \<open>setval\<close>), so it maps a state to a state and a result; the session is a component
  of that state. The closures an evaluator carries (column resolution, subquery execution, the aggregates of the
  current group) are functions in its record. The clock is read once per evaluation.
\<close>

subsection \<open>The evaluator\<close>

record Column =
  c_Name :: string
  c_TypeOID :: nat

record Result =
  r_Columns :: "Column list"
  r_Rows :: "Datum list list"
  r_Command :: string
  r_RowsAffected :: nat

record compositeFieldDef =
  cfd_Name :: string
  cfd_TypeOID :: nat

record compositeType =
  ct_Name :: string
  ct_Fields :: "compositeFieldDef list"

record evaluator =
  ev_params :: "Datum list"
  ev_resolveCol :: "(string list \<Rightarrow> sql_value res) option"
  ev_group :: "(string \<Rightarrow> Node FuncCall \<Rightarrow> sql_value ex) option"
  ev_runSub :: "(Node SelectStmt \<Rightarrow> Result ex) option"
  ev_windowVals :: "(Node FuncCall \<Rightarrow> sql_value list option) option"
  ev_rowIdx :: int
  ev_lookupComposite :: "(string \<Rightarrow> compositeType option) option"
  ev_fieldColType :: "(string list \<Rightarrow> string option) option"

type_synonym evalf = "Node \<Rightarrow> sql_value ex"

definition eval_opt :: "evalf \<Rightarrow> Node option \<Rightarrow> sql_value ex" where
  "eval_opt f n = (case n of None \<Rightarrow> fail (ExecError ''0A000'') | Some n \<Rightarrow> f n)"

subsection \<open>Boolean expressions and CASE\<close>

primrec and_loop :: "evalf \<Rightarrow> Node list \<Rightarrow> sql_value ex" where
  "and_loop f [] = ret (boolValue True)"
| "and_loop f (a # as) = bind_ex (f a) (\<lambda>v. if \<not> asBool v then ret (boolValue False) else and_loop f as)"

primrec or_loop :: "evalf \<Rightarrow> Node list \<Rightarrow> sql_value ex" where
  "or_loop f [] = ret (boolValue False)"
| "or_loop f (a # as) = bind_ex (f a) (\<lambda>v. if asBool v then ret (boolValue True) else or_loop f as)"

text \<open>The grammar gives NOT one operand; with none the code would index out of range.\<close>

definition evalBool :: "evalf \<Rightarrow> BoolOp \<Rightarrow> Node list \<Rightarrow> sql_value ex" where
  "evalBool f op args = (case op of
     NOT_EXPR \<Rightarrow> (case args of a # _ \<Rightarrow> bind_ex (f a) (\<lambda>v. ret (boolValue (\<not> asBool v))) | [] \<Rightarrow> fail (ErrMsg ''index out of range''))
   | AND_EXPR \<Rightarrow> and_loop f args
   | OR_EXPR \<Rightarrow> or_loop f args)"

primrec case_loop :: "elib \<Rightarrow> evalf \<Rightarrow> sql_value option \<Rightarrow> Node CaseWhen list \<Rightarrow> Node option \<Rightarrow> sql_value ex" where
  "case_loop L f arg [] els = (case els of Some e \<Rightarrow> f e | None \<Rightarrow> ret (null_val OIDUnknown))"
| "case_loop L f arg (w # ws) els =
     bind_ex (f (cw_Cond w)) (\<lambda>cv.
       bind_ex
         (case arg of
            None \<Rightarrow> ret (asBool cv)
          | Some a \<Rightarrow> if \<not> v_null a \<and> \<not> v_null cv then bind_ex (lift (compare L ''='' a cv)) (\<lambda>eq. ret (asBool eq)) else ret False)
         (\<lambda>matched. if matched then f (cw_Result w) else case_loop L f arg ws els))"

definition evalCase :: "elib \<Rightarrow> evalf \<Rightarrow> Node CaseExpr \<Rightarrow> sql_value ex" where
  "evalCase L f c =
     (case ce_Arg c of
        None \<Rightarrow> case_loop L f None (ce_Whens c) (ce_Else c)
      | Some a \<Rightarrow> bind_ex (f a) (\<lambda>v. case_loop L f (Some v) (ce_Whens c) (ce_Else c)))"

subsection \<open>Rows, IN and quantified comparison\<close>

definition evalRowItems :: "evalf \<Rightarrow> Node option list \<Rightarrow> sql_value list ex" where
  "evalRowItems f its = map_ex (eval_opt f) its"

definition evalRowExpr :: "evalf \<Rightarrow> Node option list \<Rightarrow> sql_value ex" where
  "evalRowExpr f its = bind_ex (evalRowItems f its) (\<lambda>es. ret (val (encodeRowText es) OIDRecord))"

primrec rowin_loop :: "elib \<Rightarrow> evalf \<Rightarrow> sql_value list \<Rightarrow> Node list \<Rightarrow> bool \<Rightarrow> sql_value ex" where
  "rowin_loop L f la [] sawNull = ret (if sawNull then null_val OIDBool else val ''f'' OIDBool)"
| "rowin_loop L f la (it # its) sawNull =
     (case it of
        RowExpr ritems \<Rightarrow>
          bind_ex (evalRowItems f ritems) (\<lambda>ra.
            bind_ex (lift (compareRows L ''='' la ra)) (\<lambda>eq.
              if v_null eq then rowin_loop L f la its True
              else if asBool eq then ret (val ''t'' OIDBool)
              else rowin_loop L f la its sawNull))
      | _ \<Rightarrow> fail (ExecError ''0A000''))"

definition evalRowIn :: "elib \<Rightarrow> evalf \<Rightarrow> Node option list \<Rightarrow> Node option \<Rightarrow> sql_value ex" where
  "evalRowIn L f lrow rexpr =
     bind_ex (evalRowItems f lrow) (\<lambda>la.
       case rexpr of Some (NList its) \<Rightarrow> rowin_loop L f la its False | _ \<Rightarrow> fail (ExecError ''0A000''))"

definition firstColOID :: "Result \<Rightarrow> nat" where
  "firstColOID res = (case r_Columns res of c # _ \<Rightarrow> c_TypeOID c | [] \<Rightarrow> OIDText)"

definition first_cells :: "Result \<Rightarrow> sql_value list" where
  "first_cells res =
     concat (map (\<lambda>row. case row of [] \<Rightarrow> [] | c # _ \<Rightarrow> [\<lparr>v_null = d_Null c, v_text = d_Text c, v_oid = firstColOID res\<rparr>]) (r_Rows res))"

primrec in_loop :: "elib \<Rightarrow> sql_value \<Rightarrow> sql_value list \<Rightarrow> bool \<Rightarrow> sql_value ex" where
  "in_loop L lv [] sawNull = ret (if sawNull then null_val OIDBool else val ''f'' OIDBool)"
| "in_loop L lv (c # cs) sawNull =
     (if v_null c then in_loop L lv cs True
      else bind_ex (lift (compare L ''='' lv c)) (\<lambda>eq. if asBool eq then ret (val ''t'' OIDBool) else in_loop L lv cs sawNull))"

definition in_candidates :: "evaluator \<Rightarrow> evalf \<Rightarrow> Node option \<Rightarrow> sql_value list ex" where
  "in_candidates ev f rexpr =
     (case rexpr of
        Some (NList its) \<Rightarrow> map_ex f its
      | Some (SubLink (Some (N_SelectStmt sel)) _ _) \<Rightarrow>
          (case ev_runSub ev of None \<Rightarrow> fail (ExecError ''0A000'') | Some run \<Rightarrow> bind_ex (run sel) (\<lambda>res. ret (first_cells res)))
      | _ \<Rightarrow> fail (ExecError ''0A000''))"

definition evalIn :: "elib \<Rightarrow> evaluator \<Rightarrow> evalf \<Rightarrow> Node option \<Rightarrow> Node option \<Rightarrow> sql_value ex" where
  "evalIn L ev f lexpr rexpr =
     (case lexpr of
        Some (RowExpr lrow) \<Rightarrow> evalRowIn L f lrow rexpr
      | _ \<Rightarrow>
          bind_ex (eval_opt f lexpr) (\<lambda>lv.
            if v_null lv then ret (null_val OIDBool)
            else bind_ex (in_candidates ev f rexpr) (\<lambda>cs. in_loop L lv cs False)))"

primrec quant_loop :: "elib \<Rightarrow> string \<Rightarrow> string \<Rightarrow> sql_value \<Rightarrow> string list \<Rightarrow> sql_value" where
  "quant_loop L op quantifier lv [] = val (if quantifier = ''any'' then ''f'' else ''t'') OIDBool"
| "quant_loop L op quantifier lv (elem # elems) =
     (case compare L op lv (val elem (v_oid lv)) of
        Inl _ \<Rightarrow> quant_loop L op quantifier lv elems
      | Inr cmp \<Rightarrow>
          if quantifier = ''any'' \<and> asBool cmp then val ''t'' OIDBool
          else if quantifier = ''all'' \<and> \<not> asBool cmp then val ''f'' OIDBool
          else quant_loop L op quantifier lv elems)"

definition evalQuantifiedComparison ::
  "elib \<Rightarrow> evalf \<Rightarrow> string \<Rightarrow> string \<Rightarrow> Node option \<Rightarrow> Node \<Rightarrow> sql_value ex" where
  "evalQuantifiedComparison L f op quantifier leftNode arrNode =
     bind_ex (eval_opt f leftNode) (\<lambda>lv. bind_ex (f arrNode) (\<lambda>arr.
       if v_null lv \<or> v_null arr then ret (null_val OIDBool)
       else ret (quant_loop L op quantifier lv (pgArrayElements (v_text arr)))))"

subsection \<open>Patterns\<close>

definition pgLike :: "elib \<Rightarrow> string \<Rightarrow> string \<Rightarrow> bool" where
  "pgLike L s pattern =
     l_regexp L
       (''^'' @ concat (map (\<lambda>c. if c = CHR ''%'' then ''.*'' else if c = CHR ''_'' then ''.''
          else if c \<in> set ''.+()[]{}^$|?*'' \<or> c = CHR 0x5C then [CHR 0x5C, c] else [c]) pattern) @ ''$'') s"

definition pgILike :: "elib \<Rightarrow> string \<Rightarrow> string \<Rightarrow> bool" where
  "pgILike L s pattern = pgLike L (toLower s) (toLower pattern)"

definition similarToRegex :: "string \<Rightarrow> string" where
  "similarToRegex pattern =
     ''^'' @ concat (map (\<lambda>c. if c = CHR ''%'' then ''.*'' else if c = CHR ''_'' then ''.''
       else if c \<in> set ''.+^${}[]'' \<or> c = CHR 0x5C then [CHR 0x5C, c] else [c]) pattern) @ ''$''"

subsection \<open>Operators\<close>

definition is_comparison :: "string \<Rightarrow> bool" where
  "is_comparison op \<longleftrightarrow> op \<in> {''='', ''<>'', ''!='', ''<'', ''>'', ''<='', ''>=''}"

text \<open>Binary operators on two values that are not null.\<close>

definition binary_op :: "elib \<Rightarrow> string \<Rightarrow> sql_value \<Rightarrow> sql_value \<Rightarrow> sql_value res" where
  "binary_op L op lv rv =
     (if op = ''-'' then
        (if v_oid lv = OIDJSONB \<or> v_oid lv = OIDJSON
         then l_jsonbDelete L lv rv (v_oid rv = OIDInt4 \<or> v_oid rv = OIDInt8 \<or> v_oid rv = OIDInt2)
         else arith L op lv rv)
      else if op \<in> {''+'', ''*'', ''/'', ''%''} then arith L op lv rv
      else if op = ''^'' then l_powOp L lv rv
      else if op = ''&&'' then Inr (arrayOverlap lv rv)
      else if is_comparison op then compare L op lv rv
      else if op \<in> {''->>'', ''->'', ''#>>'', ''#>''} then l_jsonbExtract L op lv rv
      else if op = ''@>'' then Inr (arrayContains lv rv)
      else if op = ''<@'' then Inr (arrayContains rv lv)
      else if op = ''?'' then Inr (boolValue (contains (v_text lv) (CHR 0x22 # v_text rv @ [CHR 0x22])))
      else if op = ''?|'' then
        Inr (boolValue (list_ex (\<lambda>k. contains (v_text lv) (CHR 0x22 # k @ [CHR 0x22])) (pgArrayElements (v_text rv))))
      else if op = ''?&'' then
        Inr (boolValue (list_all (\<lambda>k. contains (v_text lv) (CHR 0x22 # k @ [CHR 0x22])) (pgArrayElements (v_text rv))))
      else if op = ''||'' then
        (if v_oid lv = OIDTextArr \<or> v_oid rv = OIDTextArr then
           Inr (val (''{'' @ join_byte (CHR '','') (pgArrayElements (v_text lv) @ pgArrayElements (v_text rv)) @ ''}'') OIDTextArr)
         else Inr (val (v_text lv @ v_text rv) OIDText))
      else if op = ''~~'' then Inr (boolValue (pgLike L (v_text lv) (v_text rv)))
      else if op = ''~~*'' then Inr (boolValue (pgILike L (v_text lv) (v_text rv)))
      else if op = ''!~~'' then Inr (boolValue (\<not> pgLike L (v_text lv) (v_text rv)))
      else if op = ''!~~*'' then Inr (boolValue (\<not> pgILike L (v_text lv) (v_text rv)))
      else if op = ''~'' then Inr (boolValue (l_regexp L (v_text rv) (v_text lv)))
      else if op = ''~*'' then Inr (boolValue (l_regexp L (''(?i)'' @ v_text rv) (v_text lv)))
      else if op = ''!~'' then Inr (boolValue (\<not> l_regexp L (v_text rv) (v_text lv)))
      else if op = ''!~*'' then Inr (boolValue (\<not> l_regexp L (''(?i)'' @ v_text rv) (v_text lv)))
      else Inl (ExecError ''0A000''))"

definition eval_two :: "evalf \<Rightarrow> Node option \<Rightarrow> Node option \<Rightarrow> (sql_value \<Rightarrow> sql_value \<Rightarrow> sql_value ex) \<Rightarrow> sql_value ex" where
  "eval_two f lexpr rexpr k =
     bind_ex (eval_opt f lexpr) (\<lambda>lv. bind_ex (eval_opt f rexpr) (\<lambda>rv.
       if v_null lv \<or> v_null rv then ret (null_val OIDBool) else k lv rv))"

definition quantified :: "string \<Rightarrow> Node option \<Rightarrow> (string \<times> Node) option" where
  "quantified op rexpr =
     (if op = ''='' \<or> op = ''<>'' \<or> op = ''!='' then
        (case rexpr of
           Some (N_FuncCall fc) \<Rightarrow>
             (case fc_Args fc of
                [a] \<Rightarrow> if func_name fc = ''any'' \<or> func_name fc = ''all'' then Some (func_name fc, a) else None
              | _ \<Rightarrow> None)
         | _ \<Rightarrow> None)
      else None)"

definition row_operands :: "string \<Rightarrow> Node option \<Rightarrow> Node option \<Rightarrow> (Node option list \<times> Node option list) option" where
  "row_operands op lexpr rexpr =
     (case (lexpr, rexpr) of
        (Some (RowExpr l), Some (RowExpr r)) \<Rightarrow> if is_comparison op then Some (l, r) else None
      | _ \<Rightarrow> None)"

definition evalAExpr ::
  "elib \<Rightarrow> evaluator \<Rightarrow> evalf \<Rightarrow> A_ExprKind \<Rightarrow> string \<Rightarrow> Node option \<Rightarrow> Node option \<Rightarrow> sql_value ex" where
  "evalAExpr L ev f kind op lexpr rexpr =
     (if kind = AEXPR_IN then evalIn L ev f lexpr rexpr
      else if kind = AEXPR_LIKE then eval_two f lexpr rexpr (\<lambda>lv rv. ret (boolValue (pgLike L (v_text lv) (v_text rv))))
      else if kind = AEXPR_ILIKE then eval_two f lexpr rexpr (\<lambda>lv rv. ret (boolValue (pgILike L (v_text lv) (v_text rv))))
      else if kind = AEXPR_SIMILAR_TO then
        eval_two f lexpr rexpr (\<lambda>lv rv. ret (boolValue (l_regexp L (similarToRegex (v_text rv)) (v_text lv))))
      else if kind = AEXPR_NOT_SIMILAR_TO then
        eval_two f lexpr rexpr (\<lambda>lv rv. ret (boolValue (\<not> l_regexp L (similarToRegex (v_text rv)) (v_text lv))))
      else if lexpr = None then bind_ex (eval_opt f rexpr) (\<lambda>r. if op = ''-'' then lift (negate r) else ret r)
      else case quantified op rexpr of
        Some (q, arr) \<Rightarrow> evalQuantifiedComparison L f op q lexpr arr
      | None \<Rightarrow>
          (case row_operands op lexpr rexpr of
             Some (l, r) \<Rightarrow>
               bind_ex (evalRowItems f l) (\<lambda>la. bind_ex (evalRowItems f r) (\<lambda>ra. lift (compareRows L op la ra)))
           | None \<Rightarrow> eval_two f lexpr rexpr (\<lambda>lv rv. lift (binary_op L op lv rv))))"

subsection \<open>Subqueries, windows and composite fields\<close>

definition evalScalarSub :: "evaluator \<Rightarrow> Node option \<Rightarrow> bool \<Rightarrow> sql_value ex" where
  "evalScalarSub ev subSelect exists =
     (case (subSelect, ev_runSub ev) of
        (Some (N_SelectStmt sel), Some run) \<Rightarrow>
          bind_ex (run sel) (\<lambda>res.
            if exists then ret (boolValue (length (r_Rows res) > 0))
            else case r_Rows res of
              [] \<Rightarrow> ret (null_val OIDText)
            | [row] \<Rightarrow>
                (case row of
                   [] \<Rightarrow> ret (null_val OIDText)
                 | c # _ \<Rightarrow> ret \<lparr>v_null = d_Null c, v_text = d_Text c, v_oid = firstColOID res\<rparr>)
            | _ \<Rightarrow> fail (ExecError ''21000''))
      | _ \<Rightarrow> fail (ExecError ''0A000''))"

definition evalWindowRef :: "evaluator \<Rightarrow> Node FuncCall \<Rightarrow> sql_value ex" where
  "evalWindowRef ev fc =
     (case ev_windowVals ev of
        None \<Rightarrow> fail (ExecError ''42P20'')
      | Some wv \<Rightarrow>
          (case wv fc of
             None \<Rightarrow> ret (null_val OIDUnknown)
           | Some vals \<Rightarrow>
               if ev_rowIdx ev < 0 \<or> int (length vals) \<le> ev_rowIdx ev then ret (null_val OIDUnknown)
               else ret (vals ! nat (ev_rowIdx ev))))"

definition fieldIndex :: "compositeType \<Rightarrow> string \<Rightarrow> nat option" where
  "fieldIndex ct name =
     (let i = length (takeWhile (\<lambda>f. \<not> equalFold (cfd_Name f) name) (ct_Fields ct))
      in if i < length (ct_Fields ct) then Some i else None)"

definition resolveCompositeType :: "evaluator \<Rightarrow> Node option \<Rightarrow> compositeType option" where
  "resolveCompositeType ev arg =
     (case ev_lookupComposite ev of
        None \<Rightarrow> None
      | Some look \<Rightarrow>
          (case arg of
             Some (TypeCast _ tn) \<Rightarrow> look tn
           | Some (ColumnRef cols) \<Rightarrow>
               (case ev_fieldColType ev of
                  None \<Rightarrow> None
                | Some ft \<Rightarrow> (case ft cols of None \<Rightarrow> None | Some tn \<Rightarrow> look tn))
           | _ \<Rightarrow> None))"

definition anonFieldIndex :: "string \<Rightarrow> nat option" where
  "anonFieldIndex field =
     (if length field < 2 \<or> (hd field \<noteq> CHR ''f'' \<and> hd field \<noteq> CHR ''F'') then None
      else case ParseInt 64 (tl field) of None \<Rightarrow> None | Some n \<Rightarrow> if n < 1 then None else Some (nat n - 1))"

definition anon_field :: "string \<Rightarrow> sql_value \<Rightarrow> sql_value res" where
  "anon_field field v =
     (if v_null v then Inr (null_val 0)
      else case decodeRecordText (v_text v) of
        None \<Rightarrow> if v_oid v \<noteq> OIDRecord then Inl (ExecError ''42809'') else Inl (ExecError ''22P02'')
      | Some elems \<Rightarrow>
          (case anonFieldIndex field of
             None \<Rightarrow> Inl (ExecError ''42703'')
           | Some idx \<Rightarrow>
               if length elems \<le> idx then Inl (ExecError ''42703'')
               else let out = elems ! idx
                    in Inr (if v_oid out = 0
                            then out\<lparr>v_oid := if decodeRecordText (v_text out) \<noteq> None then OIDRecord else OIDText\<rparr>
                            else out)))"

definition typed_field :: "compositeType \<Rightarrow> nat \<Rightarrow> sql_value \<Rightarrow> sql_value res" where
  "typed_field ct idx v =
     (if v_null v then Inr (null_val 0)
      else case decodeRecordText (v_text v) of
        None \<Rightarrow> Inl (ExecError ''22P02'')
      | Some elems \<Rightarrow>
          if length elems \<le> idx then Inr (null_val 0)
          else let out = elems ! idx
               in Inr (if v_oid out = 0 then out\<lparr>v_oid := cfd_TypeOID (ct_Fields ct ! idx)\<rparr> else out))"

definition evalFieldSelect :: "evaluator \<Rightarrow> evalf \<Rightarrow> Node option \<Rightarrow> string \<Rightarrow> sql_value ex" where
  "evalFieldSelect ev f arg field =
     (case resolveCompositeType ev arg of
        None \<Rightarrow> bind_ex (eval_opt f arg) (\<lambda>v. lift (anon_field field v))
      | Some ct \<Rightarrow>
          (case fieldIndex ct field of
             None \<Rightarrow> fail (ExecError ''42703'')
           | Some idx \<Rightarrow> bind_ex (eval_opt f arg) (\<lambda>v. lift (typed_field ct idx v))))"

subsection \<open>Settings (guc.go)\<close>

definition normalizeGUC :: "string \<Rightarrow> string" where
  "normalizeGUC name = (let n = toLower (trimSpace name) in if n = ''time zone'' then ''timezone'' else n)"

definition gucValueKnown :: "string \<Rightarrow> string option" where
  "gucValueKnown name = map_of
     [(''server_version'', ''15.0''), (''server_version_num'', ''150000''),
      (''transaction_isolation'', ''read committed''), (''default_transaction_isolation'', ''read committed''),
      (''transaction_read_only'', ''off''), (''default_transaction_read_only'', ''off''),
      (''standard_conforming_strings'', ''on''), (''client_encoding'', ''UTF8''), (''server_encoding'', ''UTF8''),
      (''timezone'', ''UTC''), (''search_path'', ''public''), (''datestyle'', ''ISO, MDY''),
      (''integer_datetimes'', ''on''), (''intervalstyle'', ''postgres''), (''bytea_output'', ''hex''),
      (''max_identifier_length'', ''63''), (''is_superuser'', ''off''), (''in_hot_standby'', ''off''),
      (''application_name'', [])] (normalizeGUC name)"

definition gucValue :: "string \<Rightarrow> string" where
  "gucValue name = (case gucValueKnown name of Some v \<Rightarrow> v | None \<Rightarrow> [])"

definition execShow :: "session option \<Rightarrow> string \<Rightarrow> Result" where
  "execShow sess name =
     (let v = (case sess of None \<Rightarrow> gucValue name | Some s \<Rightarrow> (case GetSetting s name of Some v \<Rightarrow> v | None \<Rightarrow> gucValue name))
      in \<lparr>r_Columns = [\<lparr>c_Name = normalizeGUC name, c_TypeOID = OIDText\<rparr>], r_Rows = [[text_datum v]], r_Command = ''SHOW'', r_RowsAffected = 0\<rparr>)"

definition is_user_keyword :: "string \<Rightarrow> bool" where
  "is_user_keyword n \<longleftrightarrow> n \<in> {''current_user'', ''session_user'', ''user'', ''current_role''}"

definition niladicKeyword :: "elib \<Rightarrow> string \<Rightarrow> sql_value option" where
  "niladicKeyword L name =
     (let n = toLower name
      in if is_user_keyword n then Some (val ''postgres'' OIDText)
         else if n \<in> {''current_catalog'', ''current_database''} then Some (val ''defaultdb'' OIDText)
         else if n = ''current_schema'' then Some (val ''public'' OIDText)
         else if n \<in> {''current_timestamp'', ''now'', ''transaction_timestamp'', ''statement_timestamp'', ''clock_timestamp''}
           then Some (val (l_nowText L) OIDTimestamptz)
         else if n = ''current_date'' then Some (val (take 10 (l_nowText L)) OIDDate)
         else if n = ''current_time'' then Some (val (l_nowTimeText L) OIDTime)
         else if n \<in> {''localtime'', ''localtimestamp''} then Some (val (l_nowText L) OIDTimestamptz)
         else None)"

subsection \<open>Functions\<close>

definition VersionNumber :: string where
  "VersionNumber = ''0.9.0''"

definition array_oid :: "nat \<Rightarrow> nat" where
  "array_oid oid =
     (if oid = OIDInt4 then OIDInt4Arr else if oid = OIDInt8 then OIDInt8Arr else if oid = OIDBool then OIDBoolArr
      else if oid = OIDFloat8 then OIDFloat8Arr else OIDTextArr)"

definition array_constructor :: "evalf \<Rightarrow> Node list \<Rightarrow> sql_value ex" where
  "array_constructor f args =
     (if args = [] then ret (val ''{}'' OIDTextArr)
      else bind_ex (map_ex f args) (\<lambda>vs.
        ret (val (''{'' @ join_byte (CHR '','') (map (\<lambda>v. if v_null v then ''NULL'' else v_text v) vs) @ ''}'')
               (array_oid (foldl (\<lambda>oid v. if v_null v then oid else v_oid v) OIDText vs)))))"

definition array_from_subquery :: "evaluator \<Rightarrow> Node list \<Rightarrow> sql_value ex" where
  "array_from_subquery ev args =
     (case (ev_runSub ev, args) of
        (Some run, [SubLink (Some (N_SelectStmt sel)) _ _]) \<Rightarrow>
          bind_ex (run sel) (\<lambda>res.
            ret (val (''{'' @ join_byte (CHR '','')
                   (concat (map (\<lambda>row. case row of [] \<Rightarrow> [] | c # _ \<Rightarrow> if d_Null c then [] else [d_Text c]) (r_Rows res))) @ ''}'')
                 OIDTextArr))
      | _ \<Rightarrow> ret (val ''{}'' OIDTextArr))"

definition get_sess :: "session option ex" where
  "get_sess st = (st, Inr (x_sess st))"

definition put_setting :: "string \<Rightarrow> string \<Rightarrow> unit ex" where
  "put_setting name v st = (st\<lparr>x_sess := map_option (SetSetting name v) (x_sess st)\<rparr>, Inr ())"

definition current_setting :: "evalf \<Rightarrow> Node list \<Rightarrow> sql_value ex" where
  "current_setting f args =
     (case args of
        [] \<Rightarrow> fail (ExecError ''42883'')
      | a # opts \<Rightarrow>
          bind_ex (f a) (\<lambda>nv.
            bind_ex (case opts of [] \<Rightarrow> ret False | m # _ \<Rightarrow> bind_ex (f m) (\<lambda>mv. ret (asBool mv))) (\<lambda>missingOK.
              bind_ex get_sess (\<lambda>sess.
                case (case sess of None \<Rightarrow> None | Some s \<Rightarrow> GetSetting s (v_text nv)) of
                  Some v \<Rightarrow> ret (val v OIDText)
                | None \<Rightarrow>
                    (case gucValueKnown (v_text nv) of
                       Some known \<Rightarrow> ret (val known OIDText)
                     | None \<Rightarrow> if missingOK then ret (null_val OIDText) else fail (ExecError ''42704''))))))"

definition set_config :: "evalf \<Rightarrow> Node list \<Rightarrow> sql_value ex" where
  "set_config f args =
     (case args of
        a # b # _ \<Rightarrow>
          bind_ex (f a) (\<lambda>nv. bind_ex (f b) (\<lambda>v.
            bind_ex (if v_null nv then ret () else put_setting (v_text nv) (v_text v)) (\<lambda>_.
              ret (v\<lparr>v_oid := OIDText\<rparr>))))
      | _ \<Rightarrow> ret (null_val OIDText))"

definition format_type :: "evalf \<Rightarrow> Node list \<Rightarrow> sql_value ex" where
  "format_type f args =
     (case args of
        [] \<Rightarrow> ret (null_val OIDText)
      | a # _ \<Rightarrow> (\<lambda>st. case f a st of
          (st', Inl _) \<Rightarrow> (st', Inr (null_val OIDText))
        | (st', Inr v) \<Rightarrow>
            (st', Inr (if v_null v then null_val OIDText
                       else case ParseUint 32 (v_text v) of
                         Some oid \<Rightarrow> val (sqlTypeName oid) OIDText
                       | None \<Rightarrow> null_val OIDText))))"

definition random_uuid :: "elib \<Rightarrow> sql_value ex" where
  "random_uuid L st =
     (st\<lparr>x_draws := Suc (x_draws st)\<rparr>,
      case l_randomUUID L (x_draws st) of Inl e \<Rightarrow> Inl e | Inr u \<Rightarrow> Inr (val u OIDUUID))"

definition timezone :: "elib \<Rightarrow> evalf \<Rightarrow> Node list \<Rightarrow> sql_value ex" where
  "timezone L f args =
     (case args of
        a # b # _ \<Rightarrow>
          bind_ex (f a) (\<lambda>tz. bind_ex (f b) (\<lambda>ts.
            if v_null ts then ret (null_val OIDTimestamptz) else lift (l_scalarFunc L ''timezone'' [tz, ts])))
      | _ \<Rightarrow> ret (null_val OIDTimestamptz))"

primrec coalesce :: "evalf \<Rightarrow> Node list \<Rightarrow> sql_value ex" where
  "coalesce f [] = ret (null_val OIDUnknown)"
| "coalesce f (a # as) = bind_ex (f a) (\<lambda>v. if \<not> v_null v then ret v else coalesce f as)"

definition nullif :: "elib \<Rightarrow> evalf \<Rightarrow> Node list \<Rightarrow> sql_value ex" where
  "nullif L f args =
     (case args of
        [x, y] \<Rightarrow>
          bind_ex (f x) (\<lambda>a. bind_ex (f y) (\<lambda>b.
            if \<not> v_null a \<and> \<not> v_null b \<and> (case compare L ''='' a b of Inr eq \<Rightarrow> asBool eq | Inl _ \<Rightarrow> False)
            then ret (null_val (v_oid a)) else ret a))
      | _ \<Rightarrow> fail (ExecError ''42883''))"

definition evalScalarFunc :: "elib \<Rightarrow> evalf \<Rightarrow> string \<Rightarrow> Node list \<Rightarrow> sql_value ex" where
  "evalScalarFunc L f name args =
     (if name \<in> {''now'', ''current_timestamp'', ''transaction_timestamp'', ''statement_timestamp'', ''clock_timestamp'',
                 ''pg_postmaster_start_time'', ''pg_conf_load_time''} then ret (val (l_nowText L) OIDTimestamptz)
      else if name = ''current_date'' then ret (val (take 10 (l_nowText L)) OIDDate)
      else if name \<in> {''current_time'', ''localtime''} then ret (val (l_nowTimeText L) OIDTime)
      else if name = ''gen_random_uuid'' \<or> name = ''uuid_generate_v4'' then random_uuid L
      else if name = ''current_setting'' then current_setting f args
      else if name = ''set_config'' then set_config f args
      else if name = ''format_type'' then format_type f args
      else if name \<in> {''obj_description'', ''col_description'', ''shobj_description'', ''pg_get_constraintdef'',
                      ''pg_get_expr'', ''pg_get_indexdef''} then ret (null_val OIDText)
      else if name = ''pg_backend_pid'' then ret (val ''1'' OIDInt4)
      else if name \<in> {''txid_current'', ''pg_current_xact_id''} then ret (val ''1'' OIDInt8)
      else if name = ''pg_is_in_recovery'' then ret (val ''f'' OIDBool)
      else if is_user_keyword name then
        bind_ex get_sess (\<lambda>sess. ret (val (case sess of Some s \<Rightarrow> User s | None \<Rightarrow> ''postgres'') OIDText))
      else if name = ''coalesce'' then coalesce f args
      else if name = ''nullif'' then nullif L f args
      else bind_ex (map_ex f args) (strict_func L name))"

definition evalFunc :: "elib \<Rightarrow> evaluator \<Rightarrow> evalf \<Rightarrow> Node FuncCall \<Rightarrow> sql_value ex" where
  "evalFunc L ev f fc =
     (let name = func_name fc
      in if isAggregateName name then
           (case ev_group ev of None \<Rightarrow> fail (ExecError ''42803'') | Some g \<Rightarrow> g name fc)
         else if name = ''version'' then
           ret (val (''BasuyuDB '' @ VersionNumber @ '' on PostgreSQL 15 wire protocol'') OIDText)
         else if name = ''current_database'' then ret (val ''defaultdb'' OIDText)
         else if name = ''current_schema'' then ret (val ''public'' OIDText)
         else if name = ''array_constructor'' then array_constructor f (fc_Args fc)
         else if name = ''array_from_subquery'' then array_from_subquery ev (fc_Args fc)
         else if name = ''timezone'' then timezone L f (fc_Args fc)
         else evalScalarFunc L f name (fc_Args fc))"

subsection \<open>Expressions\<close>

definition evalParam :: "evaluator \<Rightarrow> int \<Rightarrow> sql_value ex" where
  "evalParam ev k =
     (let idx = k - 1
      in if idx < 0 \<or> int (length (ev_params ev)) \<le> idx then fail (ExecError ''42P02'')
         else let p = ev_params ev ! nat idx in ret \<lparr>v_null = d_Null p, v_text = d_Text p, v_oid = OIDText\<rparr>)"

definition evalColumnRef :: "elib \<Rightarrow> evaluator \<Rightarrow> string list \<Rightarrow> sql_value ex" where
  "evalColumnRef L ev cols =
     (let resolve = lift (case ev_resolveCol ev of None \<Rightarrow> Inl (ExecError ''42703'') | Some r \<Rightarrow> r cols)
      in case cols of
           [c] \<Rightarrow> bind_ex get_sess (\<lambda>sess.
             case (sess, is_user_keyword (toLower c)) of
               (Some s, True) \<Rightarrow> ret (val (User s) OIDText)
             | _ \<Rightarrow> (case niladicKeyword L c of Some v \<Rightarrow> ret v | None \<Rightarrow> resolve))
         | _ \<Rightarrow> resolve)"

definition eval_step :: "elib \<Rightarrow> evaluator \<Rightarrow> evalf \<Rightarrow> Node \<Rightarrow> sql_value ex" where
  "eval_step L ev f n = (case n of
     A_Const ty v \<Rightarrow> ret (evalConst ty v)
   | ParamRef k \<Rightarrow> evalParam ev k
   | A_Expr kind op lexpr rexpr \<Rightarrow> evalAExpr L ev f kind op lexpr rexpr
   | RowExpr its \<Rightarrow> evalRowExpr f its
   | FieldSelect arg field \<Rightarrow> evalFieldSelect ev f arg field
   | SubLink subSelect _ ex \<Rightarrow> evalScalarSub ev subSelect ex
   | N_FuncCall fc \<Rightarrow> (if fc_Over fc \<noteq> None then evalWindowRef ev fc else evalFunc L ev f fc)
   | N_CaseExpr c \<Rightarrow> evalCase L f c
   | TypeCast arg tn \<Rightarrow> bind_ex (eval_opt f arg) (\<lambda>v. ret (v\<lparr>v_oid := oidForTypeName tn\<rparr>))
   | BoolExpr op args \<Rightarrow> evalBool f op args
   | NullTest arg testNull \<Rightarrow> bind_ex (eval_opt f arg) (\<lambda>v. ret (boolValue (v_null v = testNull)))
   | ColumnRef cols \<Rightarrow> evalColumnRef L ev cols
   | _ \<Rightarrow> fail (ExecError ''0A000''))"

subsection \<open>Recursion on smaller trees\<close>

lemma eval_opt_cong: "(\<And>x. n = Some x \<Longrightarrow> f x = g x) \<Longrightarrow> eval_opt f n = eval_opt g n"
  by (cases n) (simp_all add: eval_opt_def)

lemma loops_cong:
  assumes "\<And>x. x \<in> set args \<Longrightarrow> f x = g x"
  shows "and_loop f args = and_loop g args" and "or_loop f args = or_loop g args"
    and "coalesce f args = coalesce g args"
  using assms by (induction args) (auto intro!: bind_ex_cong)

lemma case_loop_cong:
  assumes "\<And>w. w \<in> set ws \<Longrightarrow> f (cw_Cond w) = g (cw_Cond w) \<and> f (cw_Result w) = g (cw_Result w)"
    and "\<And>e. els = Some e \<Longrightarrow> f e = g e"
  shows "case_loop L f arg ws els = case_loop L g arg ws els"
  using assms
proof (induction ws)
  case Nil
  then show ?case by (cases els) simp_all
next
  case (Cons w ws)
  then have "case_loop L f arg ws els = case_loop L g arg ws els" by simp
  with Cons.prems(1) [of w] show ?case by (simp cong: if_cong)
qed

lemma rowin_loop_cong:
  assumes "\<And>its x. RowExpr its \<in> set rows \<Longrightarrow> Some x \<in> set its \<Longrightarrow> f x = g x"
  shows "rowin_loop L f la rows sawNull = rowin_loop L g la rows sawNull"
  using assms
proof (induction rows arbitrary: sawNull)
  case (Cons r rows)
  have IH: "rowin_loop L f la rows b = rowin_loop L g la rows b" for b
    by (rule Cons.IH) (rule Cons.prems, auto)
  show ?case
  proof (cases r)
    case (RowExpr its)
    have "map_ex (eval_opt f) its = map_ex (eval_opt g) its"
      using Cons.prems [of its] RowExpr by (intro map_ex_cong refl eval_opt_cong) auto
    then show ?thesis using IH RowExpr by (simp add: evalRowItems_def cong: if_cong)
  qed simp_all
qed simp

lemma row_items_cong: "(\<And>x. Some x \<in> set its \<Longrightarrow> f x = g x) \<Longrightarrow> evalRowItems f its = evalRowItems g its"
  unfolding evalRowItems_def by (intro map_ex_cong refl eval_opt_cong) auto

text \<open>What a method reads of the recursive call: the direct operands, and the items of rows and lists among them.\<close>

definition below :: "Node option \<Rightarrow> Node \<Rightarrow> bool" where
  "below n x \<longleftrightarrow> (case n of None \<Rightarrow> False | Some m \<Rightarrow> x = m \<or> rank x < rank m)"

lemma below_self [simp]: "below (Some x) x"
  by (simp add: below_def)

lemma below_Some: "below c x \<Longrightarrow> \<exists>y. c = Some y"
  by (cases c) (simp_all add: below_def)

lemma below_child: "x \<in> set (walkChildren m) \<Longrightarrow> below (Some m) x"
  by (simp add: below_def walkChildren_rank)

lemma below_grandchild: "x \<in> set (walkChildren m) \<Longrightarrow> m \<in> set (walkChildren n) \<Longrightarrow> below (Some n) x"
  using walkChildren_rank [of x m] walkChildren_rank [of m n] by (simp add: below_def)

lemma row_item_below: "Some x \<in> set its \<Longrightarrow> below (Some (RowExpr its)) x"
  by (intro below_child) (force simp: walkChildren_def walk_RowExpr_def)

lemma evalIn_cong:
  assumes "\<And>x. below l x \<or> below r x \<Longrightarrow> f x = g x"
  shows "evalIn L ev f l r = evalIn L ev g l r"
proof -
  have "eval_opt f l = eval_opt g l" using assms by (intro eval_opt_cong) simp
  moreover have "in_candidates ev f r = in_candidates ev g r"
  proof -
    have "map_ex f its = map_ex g its" if "r = Some (NList its)" for its
      using assms that below_child [of _ "NList its"] by (intro map_ex_cong refl) (simp add: walkChildren_def)
    then show ?thesis unfolding in_candidates_def by (auto split: option.split Node.split)
  qed
  moreover have "evalRowIn L f its r = evalRowIn L g its r" if "l = Some (RowExpr its)" for its
  proof -
    have "evalRowItems f its = evalRowItems g its"
      using assms that row_item_below by (intro row_items_cong) blast
    moreover have "rowin_loop L f la rows b = rowin_loop L g la rows b" if "r = Some (NList rows)" for la rows b
    proof (rule rowin_loop_cong)
      fix its x assume "RowExpr its \<in> set rows" and "Some x \<in> set its"
      then have "below (Some (NList rows)) x"
        by (intro below_grandchild [of _ "RowExpr its"]) (force simp: walkChildren_def walk_RowExpr_def)+
      then show "f x = g x" using assms that by simp
    qed
    ultimately show ?thesis unfolding evalRowIn_def by (auto intro!: bind_ex_cong split: option.split Node.split)
  qed
  ultimately show ?thesis unfolding evalIn_def by (auto intro!: bind_ex_cong split: option.split Node.split)
qed

lemma evalAExpr_cong:
  assumes "\<And>x. below l x \<or> below r x \<Longrightarrow> f x = g x"
  shows "evalAExpr L ev f kind op l r = evalAExpr L ev g kind op l r"
proof -
  have l: "eval_opt f l = eval_opt g l" and r: "eval_opt f r = eval_opt g r"
    using assms by (auto intro!: eval_opt_cong)
  have two: "eval_two f l r k = eval_two g l r k" for k by (simp add: eval_two_def l r)
  have rows: "evalRowItems f a = evalRowItems g a \<and> evalRowItems f b = evalRowItems g b"
    if "row_operands op l r = Some (a, b)" for a b
  proof -
    have "l = Some (RowExpr a)" "r = Some (RowExpr b)"
      using that by (auto simp: row_operands_def split: option.splits Node.splits if_splits)
    then show ?thesis using assms row_item_below by (intro conjI row_items_cong) blast+
  qed
  have quant: "f arr = g arr" if eq: "quantified op r = Some (q, arr)" for q arr
  proof -
    obtain fc where "r = Some (N_FuncCall fc)" "fc_Args fc = [arr]"
      using eq by (auto simp: quantified_def split: option.splits Node.splits if_splits list.splits)
    then show ?thesis using assms below_child [of arr "N_FuncCall fc"] by (simp add: walkChildren_def walk_FuncCall_def)
  qed
  have i: "evalIn L ev f l r = evalIn L ev g l r" using assms by (rule evalIn_cong)
  show ?thesis
    unfolding evalAExpr_def evalQuantifiedComparison_def l r two i
    using rows quant by (auto intro!: bind_ex_cong split: option.split)
qed

lemma evalCase_cong:
  assumes "\<And>x. x \<in> set (walkChildren (N_CaseExpr c)) \<or> (\<exists>w \<in> set (ce_Whens c). x \<in> set (walkChildren (N_CaseWhen w))) \<Longrightarrow> f x = g x"
  shows "evalCase L f c = evalCase L g c"
proof -
  have "case_loop L f arg (ce_Whens c) (ce_Else c) = case_loop L g arg (ce_Whens c) (ce_Else c)" for arg
    using assms by (intro case_loop_cong) (auto simp: walkChildren_def walk_CaseExpr_def walk_CaseWhen_def)
  moreover have "f a = g a" if "ce_Arg c = Some a" for a
    using assms that by (simp add: walkChildren_def walk_CaseExpr_def)
  ultimately show ?thesis unfolding evalCase_def by (auto split: option.split)
qed

lemma current_setting_cong:
  "(\<And>x. x \<in> set args \<Longrightarrow> f x = g x) \<Longrightarrow> current_setting f args = current_setting g args"
  unfolding current_setting_def by (auto intro!: bind_ex_cong split: list.split)

lemma nullif_cong: "(\<And>x. x \<in> set args \<Longrightarrow> f x = g x) \<Longrightarrow> nullif L f args = nullif L g args"
  unfolding nullif_def by (auto intro!: bind_ex_cong split: list.split)

lemma special_func_cong:
  assumes "\<And>x. x \<in> set args \<Longrightarrow> f x = g x"
  shows "set_config f args = set_config g args" and "format_type f args = format_type g args"
    and "timezone L f args = timezone L g args" and "array_constructor f args = array_constructor g args"
proof -
  have "map_ex f args = map_ex g args" by (rule map_ex_cong [OF refl]) (rule assms)
  then show "array_constructor f args = array_constructor g args" by (simp add: array_constructor_def)
qed (use assms in \<open>auto simp: set_config_def format_type_def timezone_def split: list.split\<close>)

lemma evalScalarFunc_cong:
  assumes "\<And>x. x \<in> set args \<Longrightarrow> f x = g x"
  shows "evalScalarFunc L f name args = evalScalarFunc L g name args"
proof -
  have "map_ex f args = map_ex g args" by (rule map_ex_cong [OF refl]) (rule assms)
  moreover have "current_setting f args = current_setting g args" by (rule current_setting_cong) (rule assms)
  moreover have "nullif L f args = nullif L g args" by (rule nullif_cong) (rule assms)
  moreover have "coalesce f args = coalesce g args" by (rule loops_cong(3)) (rule assms)
  moreover have "set_config f args = set_config g args" by (rule special_func_cong(1)) (rule assms)
  moreover have "format_type f args = format_type g args" by (rule special_func_cong(2)) (rule assms)
  ultimately show ?thesis by (simp only: evalScalarFunc_def)
qed

lemma evalFunc_cong:
  assumes "\<And>x. x \<in> set (fc_Args fc) \<Longrightarrow> f x = g x"
  shows "evalFunc L ev f fc = evalFunc L ev g fc"
proof -
  have "evalScalarFunc L f name (fc_Args fc) = evalScalarFunc L g name (fc_Args fc)" for name
    by (rule evalScalarFunc_cong) (rule assms)
  moreover have "timezone L f (fc_Args fc) = timezone L g (fc_Args fc)" by (rule special_func_cong(3)) (rule assms)
  moreover have "array_constructor f (fc_Args fc) = array_constructor g (fc_Args fc)" by (rule special_func_cong(4)) (rule assms)
  ultimately show ?thesis by (simp only: evalFunc_def)
qed

lemma eval_step_cong [fundef_cong]:
  assumes "n = m" and "\<And>x. rank x < rank m \<Longrightarrow> f x = g x"
  shows "eval_step L ev f n = eval_step L ev g m"
proof -
  have child: "f x = g x" if "x \<in> set (walkChildren m)" for x
    using assms(2) walkChildren_rank [OF that] by blast
  have deep: "f x = g x" if "below (Some y) x" and "y \<in> set (walkChildren m)" for x y
    using assms(2) [of x] that walkChildren_rank [OF that(2)] by (auto simp: below_def)
  have "eval_step L ev f m = eval_step L ev g m"
  proof (cases m)
    case (A_Expr kind op l r)
    have "f x = g x" if b: "below l x \<or> below r x" for x
    proof -
      obtain y where "below (Some y) x" and "l = Some y \<or> r = Some y" using b below_Some by metis
      then show ?thesis using A_Expr by (intro deep [of y]) (auto simp: walkChildren_def walk_A_Expr_def)
    qed
    then have "evalAExpr L ev f kind op l r = evalAExpr L ev g kind op l r" by (rule evalAExpr_cong)
    then show ?thesis using A_Expr by (simp add: eval_step_def)
  next
    case (RowExpr its)
    have "evalRowItems f its = evalRowItems g its"
      using child RowExpr by (intro row_items_cong) (force simp: walkChildren_def walk_RowExpr_def)
    then show ?thesis using RowExpr by (simp add: eval_step_def evalRowExpr_def)
  next
    case (FieldSelect arg field)
    have "eval_opt f arg = eval_opt g arg" using child FieldSelect by (intro eval_opt_cong) (simp add: walkChildren_def)
    then show ?thesis using FieldSelect by (simp add: eval_step_def evalFieldSelect_def cong: option.case_cong)
  next
    case (N_FuncCall fc)
    have "f x = g x" if "x \<in> set (fc_Args fc)" for x
      using child [of x] that N_FuncCall by (simp add: walkChildren_def walk_FuncCall_def)
    then have "evalFunc L ev f fc = evalFunc L ev g fc" by (rule evalFunc_cong)
    then show ?thesis using N_FuncCall by (simp add: eval_step_def)
  next
    case (N_CaseExpr c)
    have "f x = g x" if "x \<in> set (walkChildren (N_CaseExpr c)) \<or> (\<exists>w \<in> set (ce_Whens c). x \<in> set (walkChildren (N_CaseWhen w)))" for x
    proof -
      have "N_CaseWhen w \<in> set (walkChildren m)" if "w \<in> set (ce_Whens c)" for w
        using that N_CaseExpr by (simp add: walkChildren_def walk_CaseExpr_def)
      then show ?thesis using that child [of x] deep [OF below_child, of x] N_CaseExpr by blast
    qed
    then have "evalCase L f c = evalCase L g c" by (rule evalCase_cong)
    then show ?thesis using N_CaseExpr by (simp add: eval_step_def)
  next
    case (TypeCast arg tn)
    have "eval_opt f arg = eval_opt g arg" using child TypeCast by (intro eval_opt_cong) (simp add: walkChildren_def)
    then show ?thesis using TypeCast by (simp add: eval_step_def)
  next
    case (BoolExpr op args)
    have a: "f x = g x" if "x \<in> set args" for x using child [of x] that BoolExpr by (simp add: walkChildren_def)
    have "evalBool f op args = evalBool g op args"
      using a loops_cong [of args f g] by (auto simp: evalBool_def split: BoolOp.split list.split)
    then show ?thesis using BoolExpr by (simp add: eval_step_def)
  next
    case (NullTest arg t)
    have "eval_opt f arg = eval_opt g arg" using child NullTest by (intro eval_opt_cong) (simp add: walkChildren_def)
    then show ?thesis using NullTest by (simp add: eval_step_def)
  qed (simp_all add: eval_step_def)
  then show ?thesis using assms(1) by simp
qed

function eval :: "elib \<Rightarrow> evaluator \<Rightarrow> Node \<Rightarrow> sql_value ex" where
  "eval L ev n = eval_step L ev (eval L ev) n"
  by pat_completeness auto
termination
  by (relation "measure (\<lambda>(L, ev, n). rank n)") simp_all

declare eval.simps [simp del]

subsection \<open>The type of a predicate\<close>

definition boolean_op :: "string \<Rightarrow> bool" where
  "boolean_op op \<longleftrightarrow> is_comparison op \<or>
     op \<in> {''&&'', ''@>'', ''<@'', ''?'', ''?|'', ''?&'', ''~~'', ''~~*'', ''!~~'', ''!~~*'', ''~'', ''~*'', ''!~'', ''!~*''}"

definition is_predicate :: "Node \<Rightarrow> bool" where
  "is_predicate n = (case n of
     BoolExpr _ _ \<Rightarrow> True
   | NullTest _ _ \<Rightarrow> True
   | A_Const ty _ \<Rightarrow> ty = ConstBool
   | SubLink _ _ ex \<Rightarrow> ex
   | A_Expr kind op l _ \<Rightarrow>
       kind \<in> {AEXPR_IN, AEXPR_LIKE, AEXPR_ILIKE, AEXPR_SIMILAR_TO, AEXPR_NOT_SIMILAR_TO} \<or> (l \<noteq> None \<and> boolean_op op)
   | _ \<Rightarrow> False)"

definition is_bool :: "sql_value \<Rightarrow> bool" where
  "is_bool v \<longleftrightarrow> v_oid v = OIDBool \<and> (if v_null v then v_text v = [] else v_text v = ''t'' \<or> v_text v = ''f'')"

named_theorems bool_res

definition gives_bool :: "sql_value ex \<Rightarrow> bool" where
  "gives_bool m \<longleftrightarrow> (\<forall>s s' v. m s = (s', Inr v) \<longrightarrow> is_bool v)"

lemma gives_bool_simps [simp]: "gives_bool (fail e)" "gives_bool (ret v) \<longleftrightarrow> is_bool v" "gives_bool (lift (Inr v)) \<longleftrightarrow> is_bool v"
  by (simp_all add: gives_bool_def ret_def lift_def)

lemma gives_bool_bind [bool_res]: "(\<And>x. gives_bool (k x)) \<Longrightarrow> gives_bool (bind_ex m k)"
  by (auto simp: gives_bool_def bind_ex_def split: prod.splits sum.splits)

lemma is_bool_values [simp]:
  "is_bool (boolValue b)" "is_bool (null_val OIDBool)" "is_bool (val ''t'' OIDBool)" "is_bool (val ''f'' OIDBool)"
  by (simp_all add: is_bool_def boolValue_def)

lemma is_bool_compare [simp]: "gives_bool (lift (compare L op a b))"
  by (simp add: compare_def Let_def is_bool_def)

lemma is_bool_rowCmp [simp]: "is_bool (rowCmpResult op c)"
  by (simp add: rowCmpResult_def)

lemma gives_bool_rows [simp]: "gives_bool (lift (compareRows L op a b))"
  by (auto simp: compareRows_def split: sum.split option.split prod.split)

lemma gives_bool_loops [simp]:
  "gives_bool (and_loop f args)" "gives_bool (or_loop f args)" "gives_bool (in_loop L lv cs sn)"
  by (induction args) (simp_all add: bool_res, induction cs arbitrary: sn, simp_all add: bool_res)

lemma gives_bool_rowin [simp]: "gives_bool (rowin_loop L f la rows sn)"
proof (induction rows arbitrary: sn)
  case (Cons r rows)
  then show ?case by (cases r) (simp_all add: bool_res)
qed simp

lemma is_bool_quant [simp]: "is_bool (quant_loop L op q lv es)"
  by (induction es) (auto split: sum.split)

lemma gives_bool_in [simp]: "gives_bool (evalIn L ev f l r)"
  by (auto simp: evalIn_def evalRowIn_def intro!: bool_res split: option.split Node.split)

lemma gives_bool_two [bool_res]: "(\<And>a b. gives_bool (k a b)) \<Longrightarrow> gives_bool (eval_two f l r k)"
  unfolding eval_two_def by (intro gives_bool_bind) simp

lemma gives_bool_binary: "boolean_op op \<Longrightarrow> gives_bool (lift (binary_op L op a b))"
  unfolding boolean_op_def is_comparison_def
  by (elim disjE insertE; simp add: binary_op_def is_comparison_def arrayOverlap_def arrayContains_def)

lemma gives_bool_A_Expr:
  assumes "is_predicate (A_Expr kind op l r)"
  shows "gives_bool (evalAExpr L ev f kind op l r)"
proof (cases "kind \<in> {AEXPR_IN, AEXPR_LIKE, AEXPR_ILIKE, AEXPR_SIMILAR_TO, AEXPR_NOT_SIMILAR_TO}")
  case True
  then show ?thesis by (auto simp: evalAExpr_def intro!: gives_bool_two)
next
  case False
  with assms have "l \<noteq> None" and "boolean_op op" by (auto simp: is_predicate_def)
  then show ?thesis using False
    by (auto simp: evalAExpr_def evalQuantifiedComparison_def intro!: gives_bool_bind gives_bool_two gives_bool_binary
        split: option.split)
qed

text \<open>
  C33. A predicate that evaluates gives a boolean: whatever the connectives, null tests, comparisons, IN lists,
  patterns, array and key operators, quantified comparisons or EXISTS subqueries in it, its value has the
  boolean type and is true, false or NULL. Only an error keeps it from having a value.
\<close>

theorem predicates_are_boolean:
  assumes "is_predicate n" and "eval L ev n s = (s', Inr v)"
  shows "is_bool v"
proof -
  have "gives_bool (eval_step L ev (eval L ev) n)"
    using assms(1)
  proof (cases n)
    case (BoolExpr op args)
    then show ?thesis by (auto simp: eval_step_def evalBool_def intro!: bool_res split: BoolOp.split list.split)
  next
    case (A_Expr kind op l r)
    then show ?thesis using assms(1) gives_bool_A_Expr by (simp add: eval_step_def)
  next
    case (SubLink s t ex)
    then show ?thesis using assms(1)
      by (auto simp: eval_step_def evalScalarSub_def is_predicate_def intro!: bool_res split: option.split Node.split)
  qed (auto simp: eval_step_def is_predicate_def evalConst_def is_bool_def boolValue_def intro!: bool_res)
  then show ?thesis using assms(2) by (simp add: eval.simps [of L ev n] gives_bool_def)
qed

definition bare_evaluator :: evaluator where
  "bare_evaluator = \<lparr>ev_params = [], ev_resolveCol = None, ev_group = None, ev_runSub = None, ev_windowVals = None,
     ev_rowIdx = 0, ev_lookupComposite = None, ev_fieldColType = None\<rparr>"

definition idle :: xstate where
  "idle = \<lparr>x_sess = None, x_seqs = Map.empty, x_draws = 0\<rparr>"

theorem predicates_are_boolean_witness:
  "eval plain_lib bare_evaluator (BoolExpr OR_EXPR [NullTest (Some (A_Const ConstInt ''1'')) True,
       A_Expr AEXPR_OP ''='' (Some (A_Const ConstNull [])) (Some (A_Const ConstInt ''1''))]) idle = (idle, Inr (val ''f'' OIDBool))
   \<and> is_bool (val ''f'' OIDBool)"
proof -
  let ?n = "BoolExpr OR_EXPR [NullTest (Some (A_Const ConstInt ''1'')) True,
       A_Expr AEXPR_OP ''='' (Some (A_Const ConstNull [])) (Some (A_Const ConstInt ''1''))]"
  have e: "eval plain_lib bare_evaluator ?n idle = (idle, Inr (val ''f'' OIDBool))"
    by (simp add: eval.simps eval_step_def evalBool_def eval_opt_def ex_defs evalConst_def evalAExpr_def eval_two_def
        quantified_def row_operands_def boolValue_def asBool_def)
  have "is_predicate ?n" by (simp add: is_predicate_def)
  from predicates_are_boolean [OF this e] e show ?thesis by blast
qed

subsection \<open>Three-valued logic\<close>

text \<open>SQL's logic of true, false and unknown, over the truth values of the operands that are not connectives.\<close>

definition tri_op :: "BoolOp \<Rightarrow> bool option list \<Rightarrow> bool option" where
  "tri_op op ps = (case op of
     NOT_EXPR \<Rightarrow> (case ps of p # _ \<Rightarrow> map_option Not p | [] \<Rightarrow> None)
   | AND_EXPR \<Rightarrow> if Some False \<in> set ps then Some False else if None \<in> set ps then None else Some True
   | OR_EXPR \<Rightarrow> if Some True \<in> set ps then Some True else if None \<in> set ps then None else Some False)"

fun tri :: "(Node \<Rightarrow> bool option) \<Rightarrow> Node \<Rightarrow> bool option" where
  "tri at n = (case n of BoolExpr op args \<Rightarrow> tri_op op (map (tri at) args) | _ \<Rightarrow> at n)"

fun operands :: "Node \<Rightarrow> Node list" where
  "operands n = (case n of BoolExpr op args \<Rightarrow> concat (map operands args) | _ \<Rightarrow> [n])"

text \<open>No NOT is applied to an unknown operand.\<close>

fun not_decided :: "(Node \<Rightarrow> bool option) \<Rightarrow> Node \<Rightarrow> bool" where
  "not_decided at n = (case n of
     BoolExpr op args \<Rightarrow> (op = NOT_EXPR \<longrightarrow> length args = 1 \<and> list_all (\<lambda>a. tri at a \<noteq> None) args) \<and> list_all (not_decided at) args
   | _ \<Rightarrow> True)"

declare tri.simps [simp del] operands.simps [simp del] not_decided.simps [simp del]

definition truth :: "elib \<Rightarrow> evaluator \<Rightarrow> xstate \<Rightarrow> Node \<Rightarrow> bool option" where
  "truth L ev s n = (case snd (eval L ev n s) of Inr v \<Rightarrow> if v_null v then None else Some (asBool v) | Inl _ \<Rightarrow> None)"

lemma asBool_boolValue [simp]: "asBool (boolValue b) = b"
  by (simp add: asBool_def boolValue_def)

lemma connective_loops:
  assumes "\<And>a. a \<in> set args \<Longrightarrow> f a s = (s, Inr (g a))"
  shows "and_loop f args s = (s, Inr (boolValue (\<forall>a \<in> set args. asBool (g a))))"
    and "or_loop f args s = (s, Inr (boolValue (\<exists>a \<in> set args. asBool (g a))))"
  using assms by (induction args) (auto simp: ex_defs)

lemma tri_op_true:
  "tri_op AND_EXPR ps = Some True \<longleftrightarrow> (\<forall>p \<in> set ps. p = Some True)"
  "tri_op OR_EXPR ps = Some True \<longleftrightarrow> Some True \<in> set ps"
proof -
  have "p = Some True" if "Some False \<notin> set ps" "None \<notin> set ps" "p \<in> set ps" for p
    using that by (cases p) (auto simp: image_iff split: bool.splits, metis (full_types))
  then show "tri_op AND_EXPR ps = Some True \<longleftrightarrow> (\<forall>p \<in> set ps. p = Some True)" by (auto simp: tri_op_def)
qed (simp add: tri_op_def)

lemma connectives_decide:
  assumes "\<forall>a \<in> set (operands n). \<exists>v. eval L ev a s = (s, Inr v)" and "not_decided (truth L ev s) n"
  shows "\<exists>v. eval L ev n s = (s, Inr v) \<and> (asBool v \<longleftrightarrow> tri (truth L ev s) n = Some True)"
  using assms
proof (induction n rule: operands.induct)
  case (1 n)
  let ?t = "tri (truth L ev s)"
  show ?case
  proof (cases "\<exists>op args. n = BoolExpr op args")
    case True
    then obtain op args where n: "n = BoolExpr op args" by blast
    have nd: "op = NOT_EXPR \<longrightarrow> length args = 1 \<and> list_all (\<lambda>a. ?t a \<noteq> None) args" "list_all (not_decided (truth L ev s)) args"
      using 1(3) by (auto simp: n not_decided.simps [of _ "BoolExpr op args"])
    have "\<exists>v. eval L ev a s = (s, Inr v) \<and> (asBool v \<longleftrightarrow> ?t a = Some True)" if "a \<in> set args" for a
      using 1(1) [OF n that] 1(2) nd(2) that by (auto simp: n operands.simps [of "BoolExpr op args"] list_all_iff)
    then obtain g where g: "a \<in> set args \<Longrightarrow> eval L ev a s = (s, Inr (g a)) \<and> (asBool (g a) \<longleftrightarrow> ?t a = Some True)" for a
      by metis
    have t: "?t n = tri_op op (map ?t args)" by (simp add: n tri.simps [of _ "BoolExpr op args"])
    have e: "eval L ev n s = evalBool (eval L ev) op args s" by (simp add: n eval.simps [of _ _ "BoolExpr op args"] eval_step_def)
    show ?thesis
    proof (cases op)
      case NOT_EXPR
      with nd(1) obtain a where a: "args = [a]" "?t a \<noteq> None" by (cases args) auto
      then show ?thesis using g [of a] e t NOT_EXPR by (auto simp: evalBool_def ex_defs tri_op_def)
    next
      case AND_EXPR
      have "eval L ev n s = (s, Inr (boolValue (\<forall>a \<in> set args. asBool (g a))))"
        using g by (simp add: e AND_EXPR evalBool_def connective_loops(1))
      moreover have "(\<forall>a \<in> set args. asBool (g a)) \<longleftrightarrow> ?t n = Some True"
        using g by (simp add: t AND_EXPR tri_op_true)
      ultimately show ?thesis by simp
    next
      case OR_EXPR
      have "eval L ev n s = (s, Inr (boolValue (\<exists>a \<in> set args. asBool (g a))))"
        using g by (simp add: e OR_EXPR evalBool_def connective_loops(2))
      moreover have "(\<exists>a \<in> set args. asBool (g a)) \<longleftrightarrow> ?t n = Some True"
        unfolding t OR_EXPR tri_op_true set_map image_iff using g by metis
      ultimately show ?thesis by simp
    qed
  next
    case False
    have "operands n = [n]" using False by (subst operands.simps) (simp split: Node.split)
    then obtain v where v: "eval L ev n s = (s, Inr v)" using 1(2) by auto
    have "?t n = truth L ev s n" using False by (subst tri.simps) (simp split: Node.split)
    moreover have "truth L ev s n = (if v_null v then None else Some (asBool v))" by (simp add: truth_def v)
    moreover have "v_null v \<Longrightarrow> \<not> asBool v" by (simp add: asBool_def)
    ultimately show ?thesis using v by auto
  qed
qed

lemma not_of_unknown:
  assumes "eval L ev a s = (s', Inr v)" and "v_null v"
  shows "eval L ev (BoolExpr NOT_EXPR [a]) s = (s', Inr (boolValue True))"
  using assms by (simp add: eval.simps [of _ _ "BoolExpr NOT_EXPR [a]"] eval_step_def evalBool_def ex_defs asBool_def)

text \<open>
  C32. AND, OR and NOT agree with SQL's three-valued logic on what a filter keeps: if every operand evaluates,
  without changing the session, and no NOT is applied to an unknown, the condition evaluates and is true exactly
  when the logic says so. The restriction is needed: the connectives return only true or false, so NOT of an
  unknown operand is true.
\<close>

theorem connectives_three_valued:
  assumes "\<forall>a \<in> set (operands n). \<exists>v. eval L ev a s = (s, Inr v)" and "not_decided (truth L ev s) n"
  shows "\<exists>v. eval L ev n s = (s, Inr v) \<and> (asBool v \<longleftrightarrow> tri (truth L ev s) n = Some True)"
  using assms by (rule connectives_decide)

theorem connectives_three_valued_witness:
  "\<exists>v. eval plain_lib bare_evaluator (BoolExpr AND_EXPR
     [NullTest (Some (A_Const ConstNull [])) True, BoolExpr NOT_EXPR [A_Const ConstBool ''false'']]) idle = (idle, Inr v) \<and> asBool v"
proof -
  let ?n = "BoolExpr AND_EXPR [NullTest (Some (A_Const ConstNull [])) True, BoolExpr NOT_EXPR [A_Const ConstBool ''false'']]"
  let ?t = "truth plain_lib bare_evaluator idle"
  have "?t (NullTest (Some (A_Const ConstNull [])) True) = Some True" "?t (A_Const ConstBool ''false'') = Some False"
    by (simp_all add: truth_def eval.simps eval_step_def eval_opt_def ex_defs evalConst_def asBool_def boolValue_def)
  then have "tri ?t ?n = Some True" "not_decided ?t ?n"
    by (simp_all add: tri.simps not_decided.simps tri_op_def exI [of Not False])
  moreover have "\<forall>a \<in> set (operands ?n). \<exists>v. eval plain_lib bare_evaluator a idle = (idle, Inr v)"
    by (simp add: operands.simps eval.simps eval_step_def eval_opt_def ex_defs)
  ultimately show ?thesis using connectives_three_valued [of ?n plain_lib bare_evaluator idle] by blast
qed

subsection \<open>Calls\<close>

definition call :: "string \<Rightarrow> Node list \<Rightarrow> Node" where
  "call name args = N_FuncCall (FuncCall [name] args False False None None None None)"

definition str :: "string \<Rightarrow> Node" where
  "str s = A_Const ConstString s"

lemma eval_str [simp]: "eval L ev (str s) st = (st, Inr (val s OIDText))"
  by (simp add: str_def eval.simps [of _ _ "A_Const _ _"] eval_step_def evalConst_def ex_defs)

lemma eval_call:
  "eval L ev (call name args) =
     evalFunc L ev (eval L ev) (FuncCall [name] args False False None None None None)"
  by (simp add: call_def eval.simps [of _ _ "N_FuncCall _"] eval_step_def)

lemma func_name_call: "func_name (FuncCall [name] args a b c d e f) = toLower name"
  by (simp add: func_name_def join_byte_def)

lemma call_names:
  "toLower ''set_config'' = ''set_config''" "toLower ''current_setting'' = ''current_setting''"
  "toLower ''nextval'' = ''nextval''" "toLower ''currval'' = ''currval''"
  by code_simp+

lemmas eval_call_defs = eval_call evalFunc_def func_name_call call_names isAggregateName_def evalScalarFunc_def is_user_keyword_def

text \<open>
  C34. A setting keeps its value for the rest of the session: after \<open>set_config(name, v, ...)\<close>, \<open>current_setting(name)\<close>
  in any later expression is \<open>v\<close>, however the name is spelled, and no other setting has changed.
\<close>

theorem setting_roundtrip:
  assumes "x_sess st = Some se" and "guc_key m = guc_key n"
  shows "\<exists>st' se'. eval L ev (call ''set_config'' [str n, str v, flag]) st = (st', Inr (val v OIDText))
           \<and> eval L ev2 (call ''current_setting'' [str m]) st' = (st', Inr (val v OIDText))
           \<and> x_sess st' = Some se' \<and> (\<forall>k. guc_key k \<noteq> guc_key n \<longrightarrow> GetSetting se' k = GetSetting se k)"
  using assms
  by (simp add: eval_call_defs set_config_def current_setting_def ex_defs get_sess_def put_setting_def GetSetting_def SetSetting_def)

text \<open>
  Sequences belong to the process and not to a namespace or session: the value one session draws is what any
  other session then sees as the current value of the same name, and its own next draw continues from there.
\<close>

theorem sequences_shared_by_sessions:
  "\<exists>st' v. eval L ev (call ''nextval'' [str q]) st = (st', Inr (val (itoa v) OIDInt8))
     \<and> eval L ev2 (call ''currval'' [str q]) (st'\<lparr>x_sess := other\<rparr>) = (st'\<lparr>x_sess := other\<rparr>, Inr (val (itoa v) OIDInt8))
     \<and> snd (eval L ev2 (call ''nextval'' [str q]) (st'\<lparr>x_sess := other\<rparr>)) = Inr (val (itoa (wrap64 (v + 1))) OIDInt8)"
proof -
  let ?v = "wrap64 ((case x_seqs st (seq_name q) of None \<Rightarrow> 0 | Some v \<Rightarrow> v) + 1)"
  have "eval L ev (call ''nextval'' [str q]) st
      = (st\<lparr>x_seqs := (x_seqs st)(seq_name q \<mapsto> ?v)\<rparr>, Inr (val (itoa ?v) OIDInt8))"
    by (simp add: eval_call_defs ex_defs strict_func_def fn_nextval_def SeqNextVal_def Let_def)
  moreover have "eval L ev2 (call ''currval'' [str q]) (st\<lparr>x_seqs := (x_seqs st)(seq_name q \<mapsto> ?v), x_sess := other\<rparr>)
      = (st\<lparr>x_seqs := (x_seqs st)(seq_name q \<mapsto> ?v), x_sess := other\<rparr>, Inr (val (itoa ?v) OIDInt8))"
    by (simp add: eval_call_defs ex_defs strict_func_def fn_currval_def SeqCurrVal_def)
  moreover have "snd (eval L ev2 (call ''nextval'' [str q]) (st\<lparr>x_seqs := (x_seqs st)(seq_name q \<mapsto> ?v), x_sess := other\<rparr>))
      = Inr (val (itoa (wrap64 (?v + 1))) OIDInt8)"
    by (simp add: eval_call_defs ex_defs strict_func_def fn_nextval_def SeqNextVal_def Let_def)
  ultimately show ?thesis by metis
qed

definition demo_session :: "string \<Rightarrow> session" where
  "demo_session ns = session_New \<lparr>as_Namespace = NamespaceID ns, as_Branch = [], as_Sub = [], as_JTI = [], as_AZP = [], as_Role = ''app''\<rparr> 1 Map.empty"

theorem setting_roundtrip_witness:
  "\<exists>st' se'. eval plain_lib bare_evaluator (call ''set_config'' [str ''app.tenant'', str ''7'', str ''t'']) (idle\<lparr>x_sess := Some (demo_session ''acme'')\<rparr>)
       = (st', Inr (val ''7'' OIDText)) \<and> x_sess st' = Some se'"
proof -
  have "x_sess (idle\<lparr>x_sess := Some (demo_session ''acme'')\<rparr>) = Some (demo_session ''acme'')" by simp
  from setting_roundtrip [OF this refl] show ?thesis by blast
qed

end
