(* ===== verification/Catalog.thy ===== *)
theory Catalog
  imports Eval Branch
begin

text \<open>
  The executor's ground: table schemas and their storage (executor/catalog.go), the transaction a statement runs
  in (executor/txnctx.go), reading a row by column name (executor/dml.go, rowResolver) and re-parsing stored
  expressions (executor/constraints.go, parseStoredExpr).

  A statement works on the storage engine, its transaction and the evaluator's state, the record \<open>dstate\<close>. What
  it takes from outside is the record \<open>xenv\<close>: BadgerDB and the replicated committer as in \<open>Txn\<close>, the evaluator's
  library, the generated SQL parser, and the JSON codec of the two catalog documents.
\<close>

subsection \<open>Schemas (catalog.go, index.go)\<close>

record fkColPair =
  fp_Local :: string
  fp_Ref :: string

record defaultSpec =
  df_Kind :: string
  df_Text :: string
  df_OID :: nat
  df_Seq :: string

record colMeta =
  cm_Name :: string
  cm_TypeOID :: nat
  cm_NotNull :: bool
  cm_PK :: bool
  cm_Unique :: bool
  cm_Default :: "defaultSpec option"
  cm_Check :: string
  cm_FKTable :: string
  cm_FKColumn :: string
  cm_FKOnDelete :: string
  cm_FKOnUpdate :: string
  cm_FKCols :: "fkColPair list"
  cm_FKName :: string
  cm_FKDeferrable :: bool
  cm_FKInitiallyDeferred :: bool
  cm_Generated :: bool
  cm_GeneratedExpr :: string
  cm_CompositeType :: string

record rlsPolicy =
  p_Name :: string
  p_Command :: string
  p_Permissive :: bool
  p_Roles :: "string list"
  p_UsingExpr :: string
  p_CheckExpr :: string

record tableSchema =
  ts_Name :: string
  ts_Cols :: "colMeta list"
  ts_PKIndex :: "nat option"
  ts_RLSEnabled :: bool
  ts_RLSForced :: bool
  ts_Policies :: "rlsPolicy list"

record indexDef =
  ix_Name :: string
  ix_Table :: string
  ix_Columns :: "string list"
  ix_Unique :: bool
  ix_Exprs :: "string list"
  ix_Where :: string

definition appliesToRole :: "rlsPolicy \<Rightarrow> string \<Rightarrow> bool" where
  "appliesToRole p user \<longleftrightarrow> p_Roles p = [] \<or> (\<exists>r \<in> set (p_Roles p). equalFold r ''public'' \<or> equalFold r user)"

definition appliesToCommand :: "rlsPolicy \<Rightarrow> string \<Rightarrow> bool" where
  "appliesToCommand p cmd \<longleftrightarrow> p_Command p = ''ALL'' \<or> equalFold (p_Command p) cmd"

text \<open>The position of the first element that satisfies a predicate.\<close>

definition find_index :: "('a \<Rightarrow> bool) \<Rightarrow> 'a list \<Rightarrow> nat option" where
  "find_index P xs = (let i = length (takeWhile (\<lambda>x. \<not> P x) xs) in if i < length xs then Some i else None)"

definition findPolicy :: "tableSchema \<Rightarrow> string \<Rightarrow> nat option" where
  "findPolicy s name = find_index (\<lambda>p. equalFold (p_Name p) name) (ts_Policies s)"

definition colIndex :: "tableSchema \<Rightarrow> string \<Rightarrow> nat option" where
  "colIndex s name = find_index (\<lambda>c. equalFold (cm_Name c) name) (ts_Cols s)"

lemma find_index_Some:
  assumes "find_index P xs = Some i"
  shows "i < length xs" and "P (xs ! i)"
proof -
  have i: "i = length (takeWhile (\<lambda>x. \<not> P x) xs)" and lt: "i < length xs"
    using assms by (auto simp: find_index_def Let_def split: if_splits)
  then show "i < length xs" and "P (xs ! i)" using nth_length_takeWhile [of "\<lambda>x. \<not> P x" xs] by auto
qed

lemma length_takeWhile_less_iff: "length (takeWhile P xs) < length xs \<longleftrightarrow> (\<exists>x \<in> set xs. \<not> P x)"
  by (induction xs) auto

lemma find_index_None: "find_index P xs = None \<longleftrightarrow> (\<forall>x \<in> set xs. \<not> P x)"
  by (simp add: find_index_def Let_def length_takeWhile_less_iff)

subsection \<open>Environment and state\<close>

record ('db, 'wb, 'r) xenv =
  xe_bd :: "('db, 'wb) badger"
  xe_rc :: "('db, 'r) ReplicatedCommitter option"
  xe_L :: elib
  xe_wall :: u64
  xe_Parse :: "string \<Rightarrow> Stmt res"
  xe_encSchema :: "tableSchema \<Rightarrow> bytes res"
  xe_decSchema :: "bytes \<Rightarrow> tableSchema res"
  xe_encIndexes :: "indexDef list \<Rightarrow> bytes res"
  xe_decIndexes :: "bytes \<Rightarrow> indexDef list res"

text \<open>
  The deferred state of an explicit transaction (executor/deferred.go): the modes set by SET CONSTRAINTS and the
  foreign key checks postponed to COMMIT. A statement that runs in a transaction of its own never defers.
\<close>

datatype pendingFKKind = pendingFKChild | pendingFKParentRestrict

record pendingFKCheck =
  pd_kind :: pendingFKKind
  pd_constraint :: string
  pd_childTable :: string
  pd_parentTab :: string
  pd_refCols :: "string list"
  pd_vals :: "string list"
  pd_childTabFilter :: string
  pd_fkAnchor :: nat

record deferredState =
  ds_overrides :: "string \<rightharpoonup> bool"
  ds_allOverride :: bool
  ds_allDeferred :: bool
  ds_pending :: "pendingFKCheck list"

record ('db, 'r) dstate =
  d_eng :: "('db, 'r) engine"
  d_txn :: Txn
  d_x :: xstate
  d_explicit :: bool
  d_deferred :: "deferredState option"

type_synonym ('db, 'r, 'a) dm = "(('db, 'r) dstate, 'a) sm"

definition txn_get :: "('db, 'wb, 'r) xenv \<Rightarrow> Key \<Rightarrow> ('db, 'r, bytes) dm" where
  "txn_get env k d = (d, engine_Get (xe_bd env) (d_eng d) (d_txn d) k)"

definition txn_buffer :: "Mutation \<Rightarrow> ('db, 'r, unit) dm" where
  "txn_buffer m d = (d\<lparr>d_txn := Buffer (d_txn d) m\<rparr>, Inr ())"

definition txn_scan :: "('db, 'wb, 'r) xenv \<Rightarrow> Key \<Rightarrow> ('db, 'r, (Key \<times> bytes res) list) dm" where
  "txn_scan env p d = (d, Inr (it_visit (it_Rewind (engine_NewIterator (xe_bd env) (d_eng d) (d_txn d) p))))"

text \<open>An evaluator with the session, and one without it.\<close>

definition with_sess :: "'a ex \<Rightarrow> ('db, 'r, 'a) dm" where
  "with_sess m d = (case m (d_x d) of (x, r) \<Rightarrow> (d\<lparr>d_x := x\<rparr>, r))"

definition without_sess :: "'a ex \<Rightarrow> ('db, 'r, 'a) dm" where
  "without_sess m d =
     (case m (d_x d\<lparr>x_sess := None\<rparr>) of (x, r) \<Rightarrow> (d\<lparr>d_x := x\<lparr>x_sess := x_sess (d_x d)\<rparr>\<rparr>, r))"

text \<open>
  beginTx, commitTx and the deferred rollbackTx around the body of a statement: it joins the explicit transaction of
  the connection, or runs in one of its own that commits if the body succeeds and rolls back if it fails. The
  session is the one the evaluator's state refers to; statements use its namespace, branch and user, which no
  expression changes.
\<close>

definition in_tx ::
  "('db, 'wb, 'r) xenv \<Rightarrow> (Txn \<times> deferredState option) option \<Rightarrow> session \<Rightarrow> ('db, 'r, 'a) dm \<Rightarrow> ('db, 'r) engine \<times> xstate
     \<Rightarrow> (('db, 'r) engine \<times> xstate \<times> (Txn \<times> deferredState option) option) \<times> 'a res" where
  "in_tx env ambient sess body = (\<lambda>(e, x).
     case ambient of
       Some (t, df) \<Rightarrow>
         (case body \<lparr>d_eng = e, d_txn = t, d_x = x, d_explicit = True, d_deferred = df\<rparr> of
            (d, r) \<Rightarrow> ((d_eng d, d_x d, Some (d_txn d, d_deferred d)), r))
     | None \<Rightarrow>
         (case Begin (xe_rc env) (xe_wall env) e (s_Auth sess) of
            (e, t) \<Rightarrow>
              (case body \<lparr>d_eng = e, d_txn = t, d_x = x, d_explicit = False, d_deferred = None\<rparr> of
                 (d, Inl err) \<Rightarrow> ((d_eng d, d_x d, None), Inl err)
               | (d, Inr v) \<Rightarrow>
                   (case Commit (xe_bd env) (xe_rc env) (d_eng d) (d_txn d) of
                      (e, _, None) \<Rightarrow> ((e, d_x d, None), Inr v)
                    | (e, _, Some err) \<Rightarrow> ((e, d_x d, None), Inl err)))))"

subsection \<open>Loading and storing\<close>

definition ns_of :: "session \<Rightarrow> NamespaceID" where
  "ns_of sess = as_Namespace (s_Auth sess)"

definition loadSchema :: "('db, 'wb, 'r) xenv \<Rightarrow> session \<Rightarrow> string \<Rightarrow> ('db, 'r, tableSchema) dm" where
  "loadSchema env sess table d =
     (case engine_Get (xe_bd env) (d_eng d) (d_txn d) (SchemaKey (ns_of sess) table) of
        Inl err \<Rightarrow> (d, Inl (if err = ErrKeyNotFound then ExecError ''42P01'' else err))
      | Inr bs \<Rightarrow> (d, case xe_decSchema env bs of Inl _ \<Rightarrow> Inl (ExecError ''XX000'') | Inr s \<Rightarrow> Inr s))"

definition persistSchema :: "('db, 'wb, 'r) xenv \<Rightarrow> session \<Rightarrow> tableSchema \<Rightarrow> ('db, 'r, unit) dm" where
  "persistSchema env sess sch =
     (case xe_encSchema env sch of
        Inl _ \<Rightarrow> fail (ExecError ''XX000'')
      | Inr bs \<Rightarrow> txn_buffer \<lparr>m_Key = SchemaKey (ns_of sess) (ts_Name sch), m_Value = bs, m_Delete = False\<rparr>)"

text \<open>
  The value of a column by position; a row with fewer cells than the schema has columns makes the index expression
  panic.
\<close>

definition index_panic :: go_error where
  "index_panic = ErrMsg ''panic: index out of range''"

definition cell_at :: "tableSchema \<Rightarrow> Datum list \<Rightarrow> nat \<Rightarrow> sql_value res" where
  "cell_at sch cells i =
     (if i < length cells
      then Inr \<lparr>v_null = d_Null (cells ! i), v_text = d_Text (cells ! i), v_oid = cm_TypeOID (ts_Cols sch ! i)\<rparr>
      else Inl index_panic)"

definition rowResolver :: "tableSchema \<Rightarrow> string \<Rightarrow> Datum list \<Rightarrow> string list \<Rightarrow> sql_value res" where
  "rowResolver sch al cells cols =
     (if cols = [] then Inl index_panic
      else if 1 < length cols \<and> \<not> equalFold (hd cols) al \<and> \<not> equalFold (hd cols) (ts_Name sch) then Inl (ExecError ''42P01'')
      else case colIndex sch (last cols) of
        None \<Rightarrow> Inl (ExecError ''42703'')
      | Some i \<Rightarrow> cell_at sch cells i)"

definition parseStoredExpr :: "('db, 'wb, 'r) xenv \<Rightarrow> string \<Rightarrow> Node option res" where
  "parseStoredExpr env txt =
     (case xe_Parse env (''SELECT '' @ txt) of
        Inr (S_Node (N_SelectStmt sel)) \<Rightarrow> (case ss_TargetList sel of [] \<Rightarrow> Inl (ExecError ''XX000'') | t # _ \<Rightarrow> Inr (rt_Val t))
      | _ \<Rightarrow> Inl (ExecError ''XX000''))"

text \<open>An evaluator over the columns of one row; \<open>eval_row\<close> evaluates an expression with it.\<close>

definition row_evaluator :: "Datum list \<Rightarrow> (string list \<Rightarrow> sql_value res) \<Rightarrow> evaluator" where
  "row_evaluator params resolve = \<lparr>ev_params = params, ev_resolveCol = Some resolve, ev_group = None, ev_runSub = None,
     ev_windowVals = None, ev_rowIdx = 0, ev_lookupComposite = None, ev_fieldColType = None\<rparr>"

definition eval_row :: "('db, 'wb, 'r) xenv \<Rightarrow> Datum list \<Rightarrow> (string list \<Rightarrow> sql_value res) \<Rightarrow> Node option \<Rightarrow> sql_value ex" where
  "eval_row env params resolve n = eval_opt (eval (xe_L env) (row_evaluator params resolve)) n"

text \<open>A name that is a column and not a keyword of the evaluator.\<close>

definition ordinary :: "elib \<Rightarrow> string \<Rightarrow> bool" where
  "ordinary L col \<longleftrightarrow> niladicKeyword L col = None \<and> \<not> is_user_keyword (toLower col)"

lemma eval_column:
  assumes "ordinary L col" and "ev_resolveCol ev = Some resolve" and "resolve [col] = Inr v"
  shows "eval L ev (ColumnRef [col]) st = (st, Inr v)"
  using assms by (cases "x_sess st") (simp_all add: eval.simps eval_step_def evalColumnRef_def ordinary_def get_sess_def
      Let_def bind_ex_def lift_def)

lemma engine_Get_Buffer:
  "engine_Get bd e (Buffer t m) k =
     (if \<not> t_done t \<and> m_Key m = k then if m_Delete m then Inl ErrKeyNotFound else Inr (m_Value m) else engine_Get bd e t k)"
  by (simp add: engine_Get_def Buffer_def split: option.split)

text \<open>
  What the statements rely on of encoding/json: a document decodes to what was encoded. This holds for strings that
  are valid UTF-8; the package replaces other bytes by U+FFFD.
\<close>

definition schema_codec :: "('db, 'wb, 'r) xenv \<Rightarrow> bool" where
  "schema_codec env \<longleftrightarrow> (\<forall>s bs. xe_encSchema env s = Inr bs \<longrightarrow> xe_decSchema env bs = Inr s)"

lemma loadSchema_open: "loadSchema env sess table d = (d, Inr sch) \<Longrightarrow> \<not> t_done (d_txn d)"
  by (auto simp: loadSchema_def engine_Get_def split: if_splits)

lemma loadSchema_persisted:
  assumes "schema_codec env" and "persistSchema env sess sch d = (d', Inr ())" and "\<not> t_done (d_txn d)"
  shows "loadSchema env sess (ts_Name sch) d' = (d', Inr sch)" and "\<not> t_done (d_txn d')"
  using assms
  by (auto simp: persistSchema_def txn_buffer_def loadSchema_def engine_Get_Buffer schema_codec_def lift_def split: sum.splits)
    (simp_all add: Buffer_def)

subsection \<open>A concrete environment\<close>

text \<open>
  An environment in memory, for examples: a parser that knows the expressions of a table, and catalog documents that
  are positions in a list of schemas.
\<close>

definition plain_col :: "string \<Rightarrow> nat \<Rightarrow> colMeta" where
  "plain_col name oid = \<lparr>cm_Name = name, cm_TypeOID = oid, cm_NotNull = False, cm_PK = False, cm_Unique = False,
     cm_Default = None, cm_Check = [], cm_FKTable = [], cm_FKColumn = [], cm_FKOnDelete = [], cm_FKOnUpdate = [],
     cm_FKCols = [], cm_FKName = [], cm_FKDeferrable = False, cm_FKInitiallyDeferred = False, cm_Generated = False,
     cm_GeneratedExpr = [], cm_CompositeType = []\<rparr>"

definition plain_table :: "string \<Rightarrow> (string \<times> nat) list \<Rightarrow> tableSchema" where
  "plain_table name cols = \<lparr>ts_Name = name, ts_Cols = map (\<lambda>(c, oid). plain_col c oid) cols, ts_PKIndex = None,
     ts_RLSEnabled = False, ts_RLSForced = False, ts_Policies = []\<rparr>"

definition select_of :: "Node \<Rightarrow> Node SelectStmt" where
  "select_of n = SelectStmt None False [] [ResTarget [] (Some n)] [] None [] None [] None None SetOpNone False None None"

definition demo_env :: "(string \<times> Node) list \<Rightarrow> tableSchema list \<Rightarrow> (mem_db, mem_wb, unit) xenv" where
  "demo_env exprs schemas = \<lparr>xe_bd = mem_badger, xe_rc = None, xe_L = plain_lib, xe_wall = 7,
     xe_Parse = (\<lambda>s. case map_of exprs (drop 7 s) of Some n \<Rightarrow> Inr (S_Node (N_SelectStmt (select_of n))) | None \<Rightarrow> Inl (ErrMsg ''syntax error'')),
     xe_encSchema = (\<lambda>s. case find_index (\<lambda>t. t = s) schemas of Some i \<Rightarrow> Inr (utoa i) | None \<Rightarrow> Inl (ErrMsg ''json'')),
     xe_decSchema = (\<lambda>bs. case find_index (\<lambda>i. utoa i = bs) [0..<length schemas] of Some i \<Rightarrow> Inr (schemas ! i) | None \<Rightarrow> Inl (ErrMsg ''json'')),
     xe_encIndexes = (\<lambda>_. Inr []), xe_decIndexes = (\<lambda>_. Inr [])\<rparr>"

definition demo_state :: "session option \<Rightarrow> mem_db \<Rightarrow> (mem_db, unit) dstate" where
  "demo_state sess db = \<lparr>d_eng = engine_New mem_badger db () 1,
     d_txn = snd (Begin None 7 (engine_New mem_badger db () 1) (s_Auth (demo_session ''acme''))), d_x = idle\<lparr>x_sess := sess\<rparr>,
     d_explicit = False, d_deferred = None\<rparr>"

lemma utoa_inj: "utoa i = utoa j \<Longrightarrow> i = j"
  by (metis option.inject parse_digits_utoa)

lemma demo_codec: "schema_codec (demo_env exprs schemas)"
proof -
  have "xe_decSchema (demo_env exprs schemas) (utoa i) = Inr s" if i: "find_index (\<lambda>t. t = s) schemas = Some i" for i s
  proof -
    have lt: "i < length schemas" and s: "schemas ! i = s" using find_index_Some [OF i] by simp_all
    obtain k where k: "find_index (\<lambda>j. utoa j = utoa i) [0..<length schemas] = Some k"
      using lt find_index_None [of "\<lambda>j. utoa j = utoa i" "[0..<length schemas]"]
      by (cases "find_index (\<lambda>j. utoa j = utoa i) [0..<length schemas]") auto
    then have "k = i" using find_index_Some [OF k] utoa_inj by simp
    with k s show ?thesis by (simp add: demo_env_def)
  qed
  then show ?thesis by (auto simp: schema_codec_def demo_env_def split: option.splits)
qed

end
