(* ===== verification/Joins.thy ===== *)
theory Joins
  imports Catalog
begin

text \<open>
  Joining rows (executor/join.go): bound rows, resolving a column in them, the ON and USING predicates, the nested
  loop for every join type, and the folding of a comma separated FROM list into a join tree. Reading the rows of a
  FROM item is not modelled here.
\<close>

subsection \<open>Bound rows\<close>

record binding =
  b_alias :: string
  b_schema :: tableSchema
  b_cells :: "Datum list"

type_synonym boundRow = "binding list"

definition cellValue :: "binding \<Rightarrow> nat \<Rightarrow> sql_value res" where
  "cellValue b i = cell_at (b_schema b) (b_cells b) i"

definition qualifies :: "string \<Rightarrow> binding \<Rightarrow> bool" where
  "qualifies q b \<longleftrightarrow> equalFold (b_alias b) q \<or> equalFold (ts_Name (b_schema b)) q"

text \<open>The bindings that have a column, each with its position.\<close>

definition holders :: "boundRow \<Rightarrow> string \<Rightarrow> (binding \<times> nat) list" where
  "holders row col = List.map_filter (\<lambda>b. map_option (Pair b) (colIndex (b_schema b) col)) row"

definition combinedResolver :: "boundRow \<Rightarrow> string list \<Rightarrow> sql_value res" where
  "combinedResolver row cols =
     (if cols = [] then Inl index_panic
      else if 1 < length cols then
        (case find (qualifies (hd cols)) row of
           None \<Rightarrow> Inl (ExecError ''42P01'')
         | Some b \<Rightarrow> (case colIndex (b_schema b) (last cols) of
                        None \<Rightarrow> Inl (ExecError ''42703'')
                      | Some i \<Rightarrow> cellValue b i))
      else case holders row (last cols) of
        [] \<Rightarrow> Inl (ExecError ''42703'')
      | [(b, i)] \<Rightarrow> cellValue b i
      | _ \<Rightarrow> Inl (ExecError ''42702''))"

definition composite_col :: "string \<Rightarrow> binding \<Rightarrow> string option" where
  "composite_col col b =
     (case colIndex (b_schema b) col of
        None \<Rightarrow> None
      | Some i \<Rightarrow> (let t = cm_CompositeType (ts_Cols (b_schema b) ! i) in if t = [] then None else Some t))"

definition rowCompositeColType :: "boundRow \<Rightarrow> string list \<Rightarrow> string option" where
  "rowCompositeColType row cols =
     (case List.map_filter (composite_col (last cols)) (if 1 < length cols then filter (qualifies (hd cols)) row else row) of
        [] \<Rightarrow> None
      | t # _ \<Rightarrow> Some t)"

definition nullFill :: "boundRow \<Rightarrow> boundRow" where
  "nullFill tmpl = map (\<lambda>b. b\<lparr>b_cells := map (\<lambda>_. \<lparr>d_Null = True, d_Text = []\<rparr>) (ts_Cols (b_schema b))\<rparr>) tmpl"

subsection \<open>Predicates\<close>

primrec cell_values :: "(binding \<times> nat) list \<Rightarrow> sql_value list res" where
  "cell_values [] = Inr []"
| "cell_values (h # hs) =
     (case cellValue (fst h) (snd h) of
        Inl e \<Rightarrow> Inl e
      | Inr v \<Rightarrow> (case cell_values hs of Inl e \<Rightarrow> Inl e | Inr vs \<Rightarrow> Inr (v # vs)))"

primrec usingEqual :: "boundRow \<Rightarrow> string list \<Rightarrow> bool res" where
  "usingEqual row [] = Inr True"
| "usingEqual row (col # cols) =
     (case cell_values (holders row col) of
        Inl e \<Rightarrow> Inl e
      | Inr (x # y # _) \<Rightarrow> if v_null x \<or> v_null y \<or> v_text x \<noteq> v_text y then Inr False else usingEqual row cols
      | Inr _ \<Rightarrow> Inl (ExecError ''42703''))"

primrec using_lookup :: "boundRow \<Rightarrow> string list \<Rightarrow> unit res" where
  "using_lookup row [] = Inr ()"
| "using_lookup row (col # cols) =
     (case combinedResolver row [col] of Inl e \<Rightarrow> Inl e | Inr _ \<Rightarrow> using_lookup row cols)"

definition joinMatch :: "('db, 'wb, 'r) xenv \<Rightarrow> Datum list \<Rightarrow> Node JoinExpr \<Rightarrow> boundRow \<Rightarrow> ('db, 'r, bool) dm" where
  "joinMatch env params j row =
     (if je_JoinType j = JOIN_CROSS then ret True
      else if je_UsingCols j \<noteq> [] then
        lift (case using_lookup row (je_UsingCols j) of Inl e \<Rightarrow> Inl e | Inr _ \<Rightarrow> usingEqual row (je_UsingCols j))
      else if je_Quals j = None then ret True
      else bind_ex (without_sess (eval_row env params (combinedResolver row) (je_Quals j))) (\<lambda>v. ret (asBool v)))"

subsection \<open>The nested loop\<close>

text \<open>
  \<open>probe\<close> is the inner loop: the combined rows that match, and which of the inner rows did. \<open>drive\<close> is the outer
  loop of the joins driven from the left; \<open>matchedRight\<close> collects the right rows that have found a partner.
\<close>

primrec probe :: "(boundRow \<Rightarrow> ('s, bool) sm) \<Rightarrow> ('a \<Rightarrow> boundRow) \<Rightarrow> 'a list \<Rightarrow> ('s, boundRow list \<times> bool list) sm" where
  "probe M comb [] = ret ([], [])"
| "probe M comb (r # rs) =
     bind_ex (M (comb r)) (\<lambda>ok.
       bind_ex (probe M comb rs) (\<lambda>(out, matched).
         ret (if ok then comb r # out else out, ok # matched)))"

primrec drive ::
  "(boundRow \<Rightarrow> ('s, bool) sm) \<Rightarrow> JoinType \<Rightarrow> boundRow \<Rightarrow> boundRow list \<Rightarrow> boundRow list \<Rightarrow> bool list
     \<Rightarrow> ('s, boundRow list \<times> bool list) sm" where
  "drive M jt rightTmpl right [] matchedRight = ret ([], matchedRight)"
| "drive M jt rightTmpl right (l # ls) matchedRight =
     bind_ex (probe M (\<lambda>r. l @ r) right) (\<lambda>(hits, matched).
       let unmatched = (if True \<notin> set matched \<and> (jt = JOIN_LEFT \<or> jt = JOIN_FULL) then [l @ nullFill rightTmpl] else [])
       in bind_ex (drive M jt rightTmpl right ls (map2 (\<or>) matchedRight matched)) (\<lambda>(out, final).
            ret (hits @ unmatched @ out, final)))"

primrec drive_right ::
  "(boundRow \<Rightarrow> ('s, bool) sm) \<Rightarrow> boundRow \<Rightarrow> boundRow list \<Rightarrow> boundRow list \<Rightarrow> ('s, boundRow list) sm" where
  "drive_right M leftTmpl left [] = ret []"
| "drive_right M leftTmpl left (r # rs) =
     bind_ex (probe M (\<lambda>l. l @ r) left) (\<lambda>(hits, matched).
       bind_ex (drive_right M leftTmpl left rs) (\<lambda>out.
         ret (hits @ (if True \<in> set matched then [] else [nullFill leftTmpl @ r]) @ out)))"

definition nestedLoopJoin ::
  "('db, 'wb, 'r) xenv \<Rightarrow> Datum list \<Rightarrow> Node JoinExpr \<Rightarrow> boundRow list \<Rightarrow> boundRow list \<Rightarrow> boundRow \<Rightarrow> boundRow
     \<Rightarrow> ('db, 'r, boundRow list) dm" where
  "nestedLoopJoin env params j left right leftTmpl rightTmpl =
     (let M = joinMatch env params j
      in if je_JoinType j = JOIN_RIGHT then drive_right M leftTmpl left right
         else bind_ex (drive M (je_JoinType j) rightTmpl right left (map (\<lambda>_. False) right)) (\<lambda>(out, matchedRight).
           ret (out @ (if je_JoinType j = JOIN_FULL
                       then map (\<lambda>(r, _). nullFill leftTmpl @ r) (filter (\<lambda>(_, m). \<not> m) (zip right matchedRight))
                       else []))))"

definition isLateralFrom :: "Node \<Rightarrow> bool" where
  "isLateralFrom n = (case n of RangeSubselect _ _ lateral \<Rightarrow> lateral | _ \<Rightarrow> False)"

definition foldFromList :: "Node list \<Rightarrow> Node option" where
  "foldFromList its =
     (case its of
        [] \<Rightarrow> None
      | n # ns \<Rightarrow> Some (foldl (\<lambda>node nxt.
          N_JoinExpr (JoinExpr (if isLateralFrom nxt then JOIN_INNER else JOIN_CROSS) (Some node) (Some nxt) None [] None)) n ns))"

subsection \<open>Joins as relations\<close>

text \<open>What SQL asks of a join of two row lists under a condition on combined rows.\<close>

definition pairs_of :: "(boundRow \<Rightarrow> bool) \<Rightarrow> boundRow \<Rightarrow> boundRow list \<Rightarrow> boundRow list" where
  "pairs_of P l right = filter P (map (\<lambda>r. l @ r) right)"

definition left_outer :: "(boundRow \<Rightarrow> bool) \<Rightarrow> boundRow list \<Rightarrow> boundRow list \<Rightarrow> boundRow \<Rightarrow> boundRow list" where
  "left_outer P left right rightTmpl =
     concat (map (\<lambda>l. if \<exists>r \<in> set right. P (l @ r) then pairs_of P l right else [l @ nullFill rightTmpl]) left)"

definition join_spec ::
  "JoinType \<Rightarrow> (boundRow \<Rightarrow> bool) \<Rightarrow> boundRow list \<Rightarrow> boundRow list \<Rightarrow> boundRow \<Rightarrow> boundRow \<Rightarrow> boundRow list" where
  "join_spec jt P left right leftTmpl rightTmpl = (case jt of
     JOIN_INNER \<Rightarrow> concat (map (\<lambda>l. pairs_of P l right) left)
   | JOIN_CROSS \<Rightarrow> concat (map (\<lambda>l. map (\<lambda>r. l @ r) right) left)
   | JOIN_LEFT \<Rightarrow> left_outer P left right rightTmpl
   | JOIN_FULL \<Rightarrow> left_outer P left right rightTmpl
       @ map (\<lambda>r. nullFill leftTmpl @ r) (filter (\<lambda>r. \<forall>l \<in> set left. \<not> P (l @ r)) right)
   | JOIN_RIGHT \<Rightarrow> concat (map (\<lambda>r. if \<exists>l \<in> set left. P (l @ r) then filter P (map (\<lambda>l. l @ r) left)
                                     else [nullFill leftTmpl @ r]) right))"

lemma probe_pure:
  assumes "\<And>r. r \<in> set rs \<Longrightarrow> M (comb r) s = (s, Inr (P (comb r)))"
  shows "probe M comb rs s = (s, Inr (filter P (map comb rs), map (\<lambda>r. P (comb r)) rs))"
  using assms by (induction rs) (simp_all add: ex_defs)

lemma drive_pure:
  assumes "\<And>l r. l \<in> set left \<Longrightarrow> r \<in> set right \<Longrightarrow> M (l @ r) s = (s, Inr (P (l @ r)))"
  shows "drive M jt rt right left (map g right) s =
    (s, Inr (concat (map (\<lambda>l. pairs_of P l right
                 @ (if (\<exists>r \<in> set right. P (l @ r)) \<or> jt \<noteq> JOIN_LEFT \<and> jt \<noteq> JOIN_FULL then [] else [l @ nullFill rt])) left),
             map (\<lambda>r. g r \<or> (\<exists>l \<in> set left. P (l @ r))) right))"
  using assms
proof (induction left arbitrary: g)
  case Nil
  then show ?case by (simp add: ex_defs)
next
  case (Cons l ls)
  have p: "probe M (\<lambda>r. l @ r) right s = (s, Inr (pairs_of P l right, map (\<lambda>r. P (l @ r)) right))"
    unfolding pairs_of_def by (rule probe_pure) (use Cons.prems in simp)
  have m: "map2 (\<or>) (map g right) (map (\<lambda>r. P (l @ r)) right) = map (\<lambda>r. g r \<or> P (l @ r)) right"
    by (induction right) auto
  have "drive M jt rt right ls (map (\<lambda>r. g r \<or> P (l @ r)) right) s =
    (s, Inr (concat (map (\<lambda>l. pairs_of P l right
                 @ (if (\<exists>r \<in> set right. P (l @ r)) \<or> jt \<noteq> JOIN_LEFT \<and> jt \<noteq> JOIN_FULL then [] else [l @ nullFill rt])) ls),
             map (\<lambda>r. (g r \<or> P (l @ r)) \<or> (\<exists>l \<in> set ls. P (l @ r))) right))"
    by (rule Cons.IH) (use Cons.prems in simp)
  moreover have "True \<notin> set (map (\<lambda>r. P (l @ r)) right) \<longleftrightarrow> \<not> (\<exists>r \<in> set right. P (l @ r))" by auto
  ultimately show ?case by (auto simp: bind_ex_def ret_def p m Let_def)
qed

lemma drive_right_pure:
  assumes "\<And>l r. l \<in> set left \<Longrightarrow> r \<in> set right \<Longrightarrow> M (l @ r) s = (s, Inr (P (l @ r)))"
  shows "drive_right M lt left right s =
    (s, Inr (concat (map (\<lambda>r. if \<exists>l \<in> set left. P (l @ r) then filter P (map (\<lambda>l. l @ r) left) else [nullFill lt @ r]) right)))"
  using assms
proof (induction right)
  case Nil
  then show ?case by (simp add: ex_defs)
next
  case (Cons r rs)
  have p: "probe M (\<lambda>l. l @ r) left s = (s, Inr (filter P (map (\<lambda>l. l @ r) left), map (\<lambda>l. P (l @ r)) left))"
    by (rule probe_pure) (use Cons.prems in simp)
  have "drive_right M lt left rs s =
    (s, Inr (concat (map (\<lambda>r. if \<exists>l \<in> set left. P (l @ r) then filter P (map (\<lambda>l. l @ r) left) else [nullFill lt @ r]) rs)))"
    by (rule Cons.IH) (use Cons.prems in simp)
  moreover have "True \<in> set (map (\<lambda>l. P (l @ r)) left) \<longleftrightarrow> (\<exists>l \<in> set left. P (l @ r))" by auto
  moreover have "filter P (map (\<lambda>l. l @ r) left) = []" if "\<not> (\<exists>l \<in> set left. P (l @ r))" using that by auto
  ultimately show ?case by (auto simp: bind_ex_def ret_def p)
qed

lemma unmatched_right:
  "map (\<lambda>(r, _). f r) (filter (\<lambda>(_, m). \<not> m) (zip rs (map g rs))) = map f (filter (\<lambda>r. \<not> g r) rs)"
  by (induction rs) auto

lemma nestedLoopJoin_spec:
  assumes "\<forall>l \<in> set left. \<forall>r \<in> set right. joinMatch env params j (l @ r) d = (d, Inr (P (l @ r)))"
  shows "nestedLoopJoin env params j left right lt rt d = (d, Inr (join_spec (je_JoinType j) P left right lt rt))"
proof -
  have m: "joinMatch env params j (l @ r) d = (d, Inr (P (l @ r)))" if "l \<in> set left" "r \<in> set right" for l r
    using assms that by blast
  note dr = drive_right_pure [of left right "joinMatch env params j" d P lt, OF m]
  note dl = drive_pure [of left right "joinMatch env params j" d P _ rt "\<lambda>_. False", OF m]
  have none: "pairs_of P l right = []" if "\<not> (\<exists>r \<in> set right. P (l @ r))" for l
    using that by (auto simp: pairs_of_def)
  have lo: "concat (map (\<lambda>l. pairs_of P l right @ (if \<exists>r \<in> set right. P (l @ r) then [] else [l @ nullFill rt])) left)
      = left_outer P left right rt"
    unfolding left_outer_def by (rule arg_cong [of _ _ concat], rule map_cong) (auto simp: none)
  have cross: "pairs_of P l right = map (\<lambda>r. l @ r) right" if "je_JoinType j = JOIN_CROSS" "l \<in> set left" for l
    using m that by (auto simp: pairs_of_def joinMatch_def ex_defs filter_id_conv)
  show ?thesis
  proof (cases "je_JoinType j")
    case JOIN_CROSS
    then have "concat (map (\<lambda>l. pairs_of P l right) left) = concat (map (\<lambda>l. map (\<lambda>r. l @ r) right) left)"
      using cross by (metis (no_types, lifting) map_cong)
    then show ?thesis using JOIN_CROSS by (simp add: nestedLoopJoin_def Let_def join_spec_def bind_ex_def ret_def dl)
  qed (simp_all add: nestedLoopJoin_def Let_def join_spec_def bind_ex_def ret_def dl dr lo unmatched_right)
qed

text \<open>
  C9. The nested loop computes the join SQL describes, row for row and in order, for inner, cross, left, right and
  full joins, whenever the join condition evaluates on every pair of rows: matching pairs, and for the outer joins
  each row without a partner once, completed with NULLs.
\<close>

theorem nested_loop_is_join:
  assumes "\<forall>l \<in> set left. \<forall>r \<in> set right. joinMatch env params j (l @ r) d = (d, Inr (P (l @ r)))"
  shows "nestedLoopJoin env params j left right lt rt d = (d, Inr (join_spec (je_JoinType j) P left right lt rt))"
  using assms by (rule nestedLoopJoin_spec)

lemma holders_append: "holders (l @ r) col = holders l col @ holders r col"
  by (simp add: holders_def map_filter_def)

lemma using_never_matches:
  assumes "je_JoinType j \<noteq> JOIN_CROSS" and "je_UsingCols j = col # cols"
  shows "\<exists>e. joinMatch env params j row d = (d, Inl e) \<and> (1 < length (holders row col) \<longrightarrow> e = ExecError ''42702'')"
proof -
  have j: "joinMatch env params j row d
      = (d, case using_lookup row (col # cols) of Inl e \<Rightarrow> Inl e | Inr _ \<Rightarrow> usingEqual row (col # cols))"
    unfolding joinMatch_def assms(2) using assms(1) by (simp add: ex_defs del: using_lookup.simps usingEqual.simps)
  consider (none) "holders row col = []" | (one) h where "holders row col = [h]" | (two) h i hs where "holders row col = h # i # hs"
    by (metis remdups_adj.cases)
  then show ?thesis
  proof cases
    case (one h)
    then show ?thesis unfolding j by (cases h; cases "cellValue (fst h) (snd h)") (auto simp: combinedResolver_def split: sum.splits)
  qed (auto simp: j combinedResolver_def)
qed

definition demo_row :: "string \<Rightarrow> (string \<times> nat \<times> string) list \<Rightarrow> boundRow" where
  "demo_row t cs = [\<lparr>b_alias = t, b_schema = plain_table t (map (\<lambda>(c, oid, _). (c, oid)) cs),
     b_cells = map (\<lambda>(_, _, v). \<lparr>d_Null = False, d_Text = v\<rparr>) cs\<rparr>]"

definition demo_join :: "JoinType \<Rightarrow> Node option \<Rightarrow> string list \<Rightarrow> Node JoinExpr" where
  "demo_join jt quals cols = JoinExpr jt (Some (N_RangeVar (RangeVar [] ''a'' None))) (Some (N_RangeVar (RangeVar [] ''b'' None))) quals cols None"

theorem nested_loop_is_join_witness:
  "nestedLoopJoin (demo_env [] []) [] (demo_join JOIN_LEFT (Some (ColumnRef [''a'', ''x''])) [])
     [demo_row ''a'' [(''x'', OIDBool, ''t'')], demo_row ''a'' [(''x'', OIDBool, ''f'')]]
     [demo_row ''b'' [(''y'', OIDText, ''p'')], demo_row ''b'' [(''y'', OIDText, ''q'')]] [] (demo_row ''b'' [(''y'', OIDText, [])])
     (demo_state None [])
   = (demo_state None [], Inr
       [demo_row ''a'' [(''x'', OIDBool, ''t'')] @ demo_row ''b'' [(''y'', OIDText, ''p'')],
        demo_row ''a'' [(''x'', OIDBool, ''t'')] @ demo_row ''b'' [(''y'', OIDText, ''q'')],
        demo_row ''a'' [(''x'', OIDBool, ''f'')] @ nullFill (demo_row ''b'' [(''y'', OIDText, [])])])"
proof -
  let ?left = "[demo_row ''a'' [(''x'', OIDBool, ''t'')], demo_row ''a'' [(''x'', OIDBool, ''f'')]]"
  let ?right = "[demo_row ''b'' [(''y'', OIDText, ''p'')], demo_row ''b'' [(''y'', OIDText, ''q'')]]"
  let ?j = "demo_join JOIN_LEFT (Some (ColumnRef [''a'', ''x''])) []"
  let ?P = "\<lambda>row. d_Text (hd (b_cells (hd row))) = ''t''"
  have "\<forall>l \<in> set ?left. \<forall>r \<in> set ?right. joinMatch (demo_env [] []) [] ?j (l @ r) (demo_state None []) = (demo_state None [], Inr (?P (l @ r)))"
    by (simp add: demo_row_def demo_join_def joinMatch_def eval_row_def eval_opt_def eval.simps eval_step_def evalColumnRef_def
        row_evaluator_def combinedResolver_def qualifies_def equalFold_def toLower_def ascii_lower_def colIndex_def find_index_def
        plain_table_def plain_col_def cellValue_def cell_at_def without_sess_def ex_defs asBool_def demo_state_def idle_def)
  from nested_loop_is_join [OF this, of "[]" "demo_row ''b'' [(''y'', OIDText, [])]"] show ?thesis
    by (simp add: demo_join_def join_spec_def left_outer_def pairs_of_def demo_row_def)
qed

text \<open>
  A join with a USING clause never succeeds once both sides have a row: the clause first looks each column up
  unqualified, which fails as ambiguous if both sides have it, and otherwise the comparison that follows does not
  find it on both sides.
\<close>

theorem using_join_fails:
  assumes "je_JoinType j \<noteq> JOIN_CROSS" and "je_UsingCols j = col # cols"
  shows "\<exists>e. nestedLoopJoin env params j (l # ls) (r # rs) lt rt d = (d, Inl e)
      \<and> (holders l col \<noteq> [] \<and> holders r col \<noteq> [] \<longrightarrow> e = ExecError ''42702'')"
proof -
  obtain e where e: "joinMatch env params j (l @ r) d = (d, Inl e)"
    and two: "1 < length (holders (l @ r) col) \<longrightarrow> e = ExecError ''42702''"
    using using_never_matches [OF assms] by blast
  have "1 < length (holders (l @ r) col)" if "holders l col \<noteq> []" "holders r col \<noteq> []"
    using that by (cases "holders l col"; cases "holders r col") (simp_all add: holders_append)
  with two have "holders l col \<noteq> [] \<and> holders r col \<noteq> [] \<longrightarrow> e = ExecError ''42702''" by blast
  then show ?thesis by (auto simp: nestedLoopJoin_def Let_def bind_ex_def e)
qed

theorem using_join_fails_witness:
  "nestedLoopJoin (demo_env [] []) [] (demo_join JOIN_INNER None [''id''])
     [demo_row ''a'' [(''id'', OIDInt4, ''1'')]] [demo_row ''b'' [(''id'', OIDInt4, ''1'')]] [] [] (demo_state None [])
   = (demo_state None [], Inl (ExecError ''42702''))"
  using using_join_fails [of "demo_join JOIN_INNER None [''id'']" "''id''" "[]" "demo_env [] []" "[]" "demo_row ''a'' [(''id'', OIDInt4, ''1'')]" "[]"
      "demo_row ''b'' [(''id'', OIDInt4, ''1'')]" "[]" "[]" "[]" "demo_state None []"]
  by (simp add: demo_join_def demo_row_def holders_def map_filter_def colIndex_def find_index_def plain_table_def plain_col_def
      equalFold_def)

end
