(* ===== verification/Deparse.thy ===== *)
theory Deparse
  imports Ast Strings
begin

text \<open>
  Rendering parsed expressions and queries back to SQL text (executor/deparse.go and the first part of
  executor/constraints.go), the form in which check constraints, generated columns, index expressions, row security
  policies and views are stored. A nil query, which the parser does not produce, is a nil dereference.
\<close>

subsection \<open>Results in sequence\<close>

definition bind_res :: "'a res \<Rightarrow> ('a \<Rightarrow> 'b res) \<Rightarrow> 'b res" where
  "bind_res r k = (case r of Inl e \<Rightarrow> Inl e | Inr x \<Rightarrow> k x)"

primrec map_res :: "('a \<Rightarrow> 'b res) \<Rightarrow> 'a list \<Rightarrow> 'b list res" where
  "map_res f [] = Inr []"
| "map_res f (x # xs) = bind_res (f x) (\<lambda>y. bind_res (map_res f xs) (\<lambda>ys. Inr (y # ys)))"

lemma bind_res_cong [fundef_cong]: "r = s \<Longrightarrow> (\<And>x. s = Inr x \<Longrightarrow> k x = l x) \<Longrightarrow> bind_res r k = bind_res s l"
  by (auto simp: bind_res_def split: sum.split)

lemma map_res_cong [fundef_cong]: "xs = ys \<Longrightarrow> (\<And>x. x \<in> set ys \<Longrightarrow> f x = g x) \<Longrightarrow> map_res f xs = map_res g ys"
  by (induction xs arbitrary: ys) (auto simp: bind_res_def split: sum.split)

lemma bind_res_simps [simp]: "bind_res (Inr x) k = k x" "bind_res (Inl e) k = Inl e"
  by (simp_all add: bind_res_def)

definition nil_panic :: go_error where
  "nil_panic = ErrMsg ''panic: nil pointer dereference''"

subsection \<open>Pieces\<close>

definition setOpName :: "SetOpType \<Rightarrow> string" where
  "setOpName op = (case op of SetOpUnion \<Rightarrow> ''UNION'' | SetOpIntersect \<Rightarrow> ''INTERSECT'' | SetOpExcept \<Rightarrow> ''EXCEPT'' | SetOpNone \<Rightarrow> ''set'')"

definition deparse_const :: "ConstType \<Rightarrow> string \<Rightarrow> string" where
  "deparse_const ty v = (case ty of
     ConstNull \<Rightarrow> ''NULL''
   | ConstString \<Rightarrow> CHR 0x27 # replaceAll v [CHR 0x27] [CHR 0x27, CHR 0x27] @ [CHR 0x27]
   | ConstBool \<Rightarrow> if v = ''true'' then ''TRUE'' else ''FALSE''
   | _ \<Rightarrow> v)"

definition deparse_relation :: "RangeVar \<Rightarrow> string" where
  "deparse_relation r =
     (if rv_SchemaName r \<noteq> [] then rv_SchemaName r @ ''.'' else []) @ rv_RelName r
     @ (case rv_Alias r of Some a \<Rightarrow> if al_AliasName a \<noteq> [] then '' AS '' @ al_AliasName a else [] | None \<Rightarrow> [])"

definition join_keyword :: "JoinType \<Rightarrow> string" where
  "join_keyword jt = (case jt of JOIN_INNER \<Rightarrow> ''JOIN'' | JOIN_LEFT \<Rightarrow> ''LEFT JOIN'' | JOIN_RIGHT \<Rightarrow> ''RIGHT JOIN''
     | JOIN_FULL \<Rightarrow> ''FULL JOIN'' | JOIN_CROSS \<Rightarrow> ''CROSS JOIN'')"

definition sort_keyword :: "int \<Rightarrow> string" where
  "sort_keyword dir = (if dir = 1 then '' ASC'' else if dir = 2 then '' DESC'' else [])"

abbreviation commas :: "string list \<Rightarrow> string" where
  "commas \<equiv> join_str '', ''"

text \<open>An optional clause: its keyword before its text.\<close>

definition clause :: "string \<Rightarrow> string option res \<Rightarrow> string res" where
  "clause kw r = bind_res r (\<lambda>t. Inr (case t of None \<Rightarrow> [] | Some t \<Rightarrow> kw @ t))"

definition opt_res :: "('a \<Rightarrow> 'b res) \<Rightarrow> 'a option \<Rightarrow> 'b option res" where
  "opt_res f x = (case x of None \<Rightarrow> Inr None | Some y \<Rightarrow> bind_res (f y) (\<lambda>z. Inr (Some z)))"

lemma opt_res_cong [fundef_cong]: "x = y \<Longrightarrow> (\<And>z. y = Some z \<Longrightarrow> f z = g z) \<Longrightarrow> opt_res f x = opt_res g y"
  by (auto simp: opt_res_def split: option.split)

definition some_list :: "('a list \<Rightarrow> 'b res) \<Rightarrow> 'a list \<Rightarrow> 'b option res" where
  "some_list f xs = (if xs = [] then Inr None else bind_res (f xs) (\<lambda>z. Inr (Some z)))"

lemma some_list_cong [fundef_cong]: "xs = ys \<Longrightarrow> f ys = g ys \<Longrightarrow> some_list f xs = some_list g ys"
  by (simp add: some_list_def)

definition must :: "('a \<Rightarrow> string res) \<Rightarrow> 'a option \<Rightarrow> string res" where
  "must f x = (case x of None \<Rightarrow> Inl (ExecError ''0A000'') | Some y \<Rightarrow> f y)"

lemma must_cong [fundef_cong]: "x = y \<Longrightarrow> (\<And>z. y = Some z \<Longrightarrow> f z = g z) \<Longrightarrow> must f x = must g y"
  by (auto simp: must_def split: option.split)

subsection \<open>Parts are smaller\<close>

lemma member_size: "x \<in> set xs \<Longrightarrow> size x < size_list size xs"
  by (rule size_list_member)

lemma func_parts:
  "x \<in> set (fc_Args fc) \<Longrightarrow> size x < Suc (size_FuncCall size fc)"
  "fc_Over fc = Some w \<Longrightarrow> x \<in> set (wd_PartitionBy w) \<Longrightarrow> size x < Suc (size_FuncCall size fc)"
  "fc_Over fc = Some w \<Longrightarrow> b \<in> set (wd_OrderBy w) \<Longrightarrow> sb_Node b = Some x \<Longrightarrow> size x < Suc (size_FuncCall size fc)"
proof -
  show "size x < Suc (size_FuncCall size fc)" if "x \<in> set (fc_Args fc)"
    by (cases fc) (use that in \<open>force dest: size_list_member [where f = size]\<close>)
  show "size x < Suc (size_FuncCall size fc)" if "fc_Over fc = Some w" "x \<in> set (wd_PartitionBy w)"
    by (cases fc; cases w) (use that in \<open>force dest: size_list_member [where f = size]\<close>)
  show "size x < Suc (size_FuncCall size fc)" if "fc_Over fc = Some w" "b \<in> set (wd_OrderBy w)" "sb_Node b = Some x"
    by (cases fc; cases w; cases b) (use that in \<open>force dest: size_list_member [where f = "size_SortBy size"]\<close>)
qed

lemma case_parts:
  "ce_Arg c = Some x \<Longrightarrow> size x < Suc (size_CaseExpr size c)"
  "ce_Else c = Some x \<Longrightarrow> size x < Suc (size_CaseExpr size c)"
  "w \<in> set (ce_Whens c) \<Longrightarrow> size (cw_Cond w) < Suc (size_CaseExpr size c)"
  "w \<in> set (ce_Whens c) \<Longrightarrow> size (cw_Result w) < Suc (size_CaseExpr size c)"
  by (cases c; force)+ (cases c; cases w; force dest: size_list_member [where f = "size_CaseWhen size"])+

lemma join_parts:
  "je_Larg j = Some x \<Longrightarrow> size x < Suc (size_JoinExpr size j)"
  "je_Rarg j = Some x \<Longrightarrow> size x < Suc (size_JoinExpr size j)"
  "je_Quals j = Some x \<Longrightarrow> size x < Suc (size_JoinExpr size j)"
  by (cases j; force)+

lemma select_parts:
  "t \<in> set (ss_TargetList s) \<Longrightarrow> rt_Val t = Some x \<Longrightarrow> size x < size_SelectStmt size s"
  "ss_FromClause s = x # xs \<Longrightarrow> size x < size_SelectStmt size s"
  "ss_WhereClause s = Some x \<Longrightarrow> size x < size_SelectStmt size s"
  "x \<in> set (ss_GroupClause s) \<Longrightarrow> size x < size_SelectStmt size s"
  "ss_HavingClause s = Some x \<Longrightarrow> size x < size_SelectStmt size s"
  "b \<in> set (ss_SortClause s) \<Longrightarrow> sb_Node b = Some x \<Longrightarrow> size x < size_SelectStmt size s"
  "ss_LimitCount s = Some x \<Longrightarrow> size x < size_SelectStmt size s"
  "ss_LimitOffset s = Some x \<Longrightarrow> size x < size_SelectStmt size s"
  "ss_Larg s = Some l \<Longrightarrow> size_SelectStmt size l < size_SelectStmt size s"
  "ss_Rarg s = Some l \<Longrightarrow> size_SelectStmt size l < size_SelectStmt size s"
  "ss_WithClause s = Some w \<Longrightarrow> c \<in> set (wc_CTEs w) \<Longrightarrow> cte_Query c = Some (N_SelectStmt l) \<Longrightarrow>
    size_SelectStmt size l < size_SelectStmt size s"
proof -
  show "size x < size_SelectStmt size s" if "t \<in> set (ss_TargetList s)" "rt_Val t = Some x"
    by (cases s; cases t) (use that in \<open>force dest: size_list_member [where f = "size_ResTarget size"]\<close>)
  show "size x < size_SelectStmt size s" if "b \<in> set (ss_SortClause s)" "sb_Node b = Some x"
    by (cases s; cases b) (use that in \<open>force dest: size_list_member [where f = "size_SortBy size"]\<close>)
  show "size_SelectStmt size l < size_SelectStmt size s"
    if "ss_WithClause s = Some w" "c \<in> set (wc_CTEs w)" "cte_Query c = Some (N_SelectStmt l)"
    by (cases s; cases w; cases c) (use that in \<open>force dest: size_list_member [where f = "size_CommonTableExpr size"]\<close>)
qed (cases s; force dest: size_list_member [where f = size])+

lemmas part_sizes = member_size func_parts case_parts join_parts select_parts

subsection \<open>Expressions and queries\<close>

function deparseExpr :: "Node \<Rightarrow> string res"
  and deparseSelect :: "Node SelectStmt \<Rightarrow> string res"
  and deparseFromItem :: "Node \<Rightarrow> string res" where
  "deparseExpr n = (case n of
     A_Const ty v \<Rightarrow> Inr (deparse_const ty v)
   | ColumnRef cols \<Rightarrow> Inr (join_str ''.'' cols)
   | A_Expr kind name lexpr rexpr \<Rightarrow>
       bind_res (must deparseExpr rexpr) (\<lambda>r.
         bind_res (opt_res deparseExpr lexpr) (\<lambda>l. Inr (case l of
             None \<Rightarrow> ''('' @ name @ r @ '')''
           | Some l \<Rightarrow> if kind = AEXPR_IN then ''('' @ l @ '' IN '' @ r @ '')'' else ''('' @ l @ '' '' @ name @ '' '' @ r @ '')'')))
   | BoolExpr op args \<Rightarrow>
       bind_res (map_res deparseExpr args) (\<lambda>parts. case op of
           NOT_EXPR \<Rightarrow> (case parts of [] \<Rightarrow> Inl (ErrMsg ''panic: index out of range'') | p # _ \<Rightarrow> Inr (''(NOT '' @ p @ '')''))
         | AND_EXPR \<Rightarrow> Inr (''('' @ join_str '' AND '' parts @ '')'')
         | OR_EXPR \<Rightarrow> Inr (''('' @ join_str '' OR '' parts @ '')''))
   | NullTest arg testNull \<Rightarrow>
       bind_res (must deparseExpr arg) (\<lambda>a. Inr (''('' @ a @ (if testNull then '' IS NULL)'' else '' IS NOT NULL)'')))
   | NList its \<Rightarrow> bind_res (map_res deparseExpr its) (\<lambda>parts. Inr (''('' @ commas parts @ '')''))
   | N_FuncCall fc \<Rightarrow>
       bind_res (if fc_AggStar fc then Inr ''*'' else bind_res (map_res deparseExpr (fc_Args fc)) (\<lambda>args. Inr (commas args))) (\<lambda>inner.
         bind_res (opt_res (\<lambda>w.
             bind_res (some_list (\<lambda>ps. bind_res (map_res deparseExpr ps) (\<lambda>cols. Inr (''PARTITION BY '' @ commas cols))) (wd_PartitionBy w)) (\<lambda>pb.
               bind_res (some_list (\<lambda>bs. bind_res (map_res (\<lambda>b. bind_res (must deparseExpr (sb_Node b)) (\<lambda>e. Inr (e @ sort_keyword (sb_SortDir b)))) bs)
                 (\<lambda>ob. Inr (''ORDER BY '' @ commas ob))) (wd_OrderBy w)) (\<lambda>ob.
                 Inr (join_str '' '' (opt_list pb @ opt_list ob))))) (fc_Over fc)) (\<lambda>over.
           Inr (join_str ''.'' (fc_FuncName fc) @ ''('' @ inner @ '')''
                @ (case over of None \<Rightarrow> [] | Some w \<Rightarrow> '' OVER ('' @ w @ '')''))))
   | TypeCast arg tn \<Rightarrow> bind_res (must deparseExpr arg) (\<lambda>a. Inr (''('' @ a @ ''::'' @ tn @ '')''))
   | A_Star \<Rightarrow> Inr ''*''
   | N_CaseExpr c \<Rightarrow>
       bind_res (clause '' '' (opt_res deparseExpr (ce_Arg c))) (\<lambda>a.
         bind_res (map_res (\<lambda>w. bind_res (deparseExpr (cw_Cond w)) (\<lambda>cd. bind_res (deparseExpr (cw_Result w)) (\<lambda>r.
             Inr ('' WHEN '' @ cd @ '' THEN '' @ r)))) (ce_Whens c)) (\<lambda>ws.
           bind_res (clause '' ELSE '' (opt_res deparseExpr (ce_Else c))) (\<lambda>els.
             Inr (''CASE'' @ a @ concat ws @ els @ '' END''))))
   | SubLink sub _ _ \<Rightarrow>
       (case sub of
          Some (N_SelectStmt sel) \<Rightarrow> bind_res (deparseSelect sel) (\<lambda>q. Inr (''('' @ q @ '')''))
        | _ \<Rightarrow> Inl (ExecError ''0A000''))
   | _ \<Rightarrow> Inl (ExecError ''0A000''))"
| "deparseSelect s =
     bind_res (clause ''WITH '' (opt_res (\<lambda>w. bind_res (map_res (\<lambda>c.
         case cte_Query c of
           Some (N_SelectStmt q) \<Rightarrow> bind_res (deparseSelect q) (\<lambda>sub. Inr (cte_Name c @ '' AS ('' @ sub @ '')''))
         | _ \<Rightarrow> Inl (ExecError ''0A000'')) (wc_CTEs w)) (\<lambda>ctes. Inr (commas ctes @ '' ''))) (ss_WithClause s))) (\<lambda>wth.
     bind_res (if ss_SetOp s \<noteq> SetOpNone then
         (case (ss_Larg s, ss_Rarg s) of
            (Some l, Some r) \<Rightarrow>
              bind_res (deparseSelect l) (\<lambda>l. bind_res (deparseSelect r) (\<lambda>r.
                Inr (l @ '' '' @ setOpName (ss_SetOp s) @ (if ss_All s then '' ALL'' else []) @ '' '' @ r)))
          | _ \<Rightarrow> Inl nil_panic)
       else
         bind_res (map_res (\<lambda>t. bind_res (must deparseExpr (rt_Val t)) (\<lambda>e.
             Inr (e @ (if rt_Name t \<noteq> [] then '' AS '' @ rt_Name t else [])))) (ss_TargetList s)) (\<lambda>tl.
         bind_res (clause '' FROM '' (case ss_FromClause s of [] \<Rightarrow> Inr None | fi # _ \<Rightarrow> bind_res (deparseFromItem fi) (\<lambda>t. Inr (Some t)))) (\<lambda>fr.
         bind_res (clause '' WHERE '' (opt_res deparseExpr (ss_WhereClause s))) (\<lambda>wh.
         bind_res (clause '' GROUP BY '' (some_list (\<lambda>gs. bind_res (map_res deparseExpr gs) (\<lambda>es. Inr (commas es))) (ss_GroupClause s))) (\<lambda>gr.
         bind_res (clause '' HAVING '' (opt_res deparseExpr (ss_HavingClause s))) (\<lambda>hv.
           Inr (''SELECT '' @ (if ss_Distinct s then ''DISTINCT '' else []) @ commas tl @ fr @ wh @ gr @ hv))))))) (\<lambda>body.
     bind_res (clause '' ORDER BY '' (some_list (\<lambda>bs. bind_res (map_res (\<lambda>b.
         bind_res (must deparseExpr (sb_Node b)) (\<lambda>e. Inr (e @ sort_keyword (sb_SortDir b)))) bs) (\<lambda>es. Inr (commas es))) (ss_SortClause s))) (\<lambda>ob.
     bind_res (clause '' LIMIT '' (opt_res deparseExpr (ss_LimitCount s))) (\<lambda>lim.
     bind_res (clause '' OFFSET '' (opt_res deparseExpr (ss_LimitOffset s))) (\<lambda>off.
       Inr (wth @ body @ ob @ lim @ off))))))"
| "deparseFromItem n = (case n of
     N_RangeVar r \<Rightarrow> Inr (deparse_relation r)
   | N_JoinExpr j \<Rightarrow>
       bind_res (must deparseFromItem (je_Larg j)) (\<lambda>l. bind_res (must deparseFromItem (je_Rarg j)) (\<lambda>r.
         bind_res (if je_UsingCols j \<noteq> [] then Inr ('' USING ('' @ commas (je_UsingCols j) @ '')'')
                   else clause '' ON '' (opt_res deparseExpr (je_Quals j))) (\<lambda>c.
           Inr (l @ '' '' @ join_keyword (je_JoinType j) @ '' '' @ r @ c))))
   | SubLink sub _ _ \<Rightarrow>
       (case sub of
          Some (N_SelectStmt sel) \<Rightarrow> bind_res (deparseSelect sel) (\<lambda>q. Inr (''('' @ q @ '')''))
        | _ \<Rightarrow> Inl (ExecError ''0A000''))
   | _ \<Rightarrow> Inl (ExecError ''0A000''))"
  by pat_completeness auto
termination
  by (relation "measure (\<lambda>x. case x of Inl n \<Rightarrow> size n | Inr (Inl s) \<Rightarrow> size_SelectStmt size s | Inr (Inr n) \<Rightarrow> size n)")
    (auto intro: part_sizes less_SucI)

declare deparseExpr.simps [simp del] deparseSelect.simps [simp del] deparseFromItem.simps [simp del]

end
