(* ===== verification/Rls.thy ===== *)
theory Rls
  imports Joins Deparse
begin

text \<open>
  Row level security (executor/rls.go): policy statements on the catalog, and the decision on a row from the
  applicable policies, for reading rows and for checking new ones. Policies are stored as text and parsed again
  each time they are evaluated, with the session of the statement.
\<close>

subsection \<open>Policies\<close>

definition deparseOptExpr :: "Node option \<Rightarrow> string res" where
  "deparseOptExpr n = (case n of None \<Rightarrow> Inr [] | Some n \<Rightarrow> deparseExpr n)"

primrec role_loop :: "string list \<Rightarrow> string list \<Rightarrow> string list" where
  "role_loop [] out = out"
| "role_loop (r # rs) out =
     (let r = trimSpace r in if r = [] \<or> equalFold r ''public'' then [] else role_loop rs (out @ [r]))"

definition normalizeRoles :: "string list \<Rightarrow> string list" where
  "normalizeRoles roles = role_loop roles []"

definition policyCheckExpr :: "rlsPolicy \<Rightarrow> string" where
  "policyCheckExpr p = (if p_CheckExpr p \<noteq> [] then p_CheckExpr p else p_UsingExpr p)"

definition permissiveText :: "bool \<Rightarrow> string" where
  "permissiveText permissive = (if permissive then ''PERMISSIVE'' else ''RESTRICTIVE'')"

definition rolesArrayLiteral :: "string list \<Rightarrow> string" where
  "rolesArrayLiteral roles = (if roles = [] then ''{public}'' else ''{'' @ join_str '','' roles @ ''}'')"

definition optTextDatum :: "string \<Rightarrow> Datum" where
  "optTextDatum s = \<lparr>d_Null = (s = []), d_Text = s\<rparr>"

definition command_result :: "string \<Rightarrow> nat \<Rightarrow> Result" where
  "command_result cmd n = \<lparr>r_Columns = [], r_Rows = [], r_Command = cmd, r_RowsAffected = n\<rparr>"

subsection \<open>Policy statements\<close>

text \<open>
  An absent role list is the empty list. \<open>DROP POLICY IF EXISTS\<close> of a policy that is not there returns success with
  nothing buffered: the code rolls its transaction back, \<open>in_tx\<close> commits an empty one, and neither writes.
\<close>

definition new_policy :: "CreatePolicyStmt \<Rightarrow> string \<Rightarrow> string \<Rightarrow> rlsPolicy" where
  "new_policy s usingTxt checkTxt =
     (let cmd = toUpper (trimSpace (pls_Command s))
      in \<lparr>p_Name = pls_PolicyName s, p_Command = (if cmd = [] then ''ALL'' else cmd), p_Permissive = pls_Permissive s,
          p_Roles = normalizeRoles (pls_Roles s), p_UsingExpr = usingTxt, p_CheckExpr = checkTxt\<rparr>)"

definition create_policy :: "('db, 'wb, 'r) xenv \<Rightarrow> session \<Rightarrow> CreatePolicyStmt \<Rightarrow> ('db, 'r, Result) dm" where
  "create_policy env sess s =
     bind_ex (loadSchema env sess (pls_Table s)) (\<lambda>sch.
       if findPolicy sch (pls_PolicyName s) \<noteq> None then fail (ExecError ''42710'')
       else bind_ex (lift (deparseOptExpr (pls_Using s))) (\<lambda>usingTxt.
         bind_ex (lift (deparseOptExpr (pls_WithCheck s))) (\<lambda>checkTxt.
           bind_ex (persistSchema env sess (sch\<lparr>ts_Policies := ts_Policies sch @ [new_policy s usingTxt checkTxt]\<rparr>)) (\<lambda>_.
             ret (command_result ''CREATE POLICY'' 0)))))"

definition execCreatePolicy where
  "execCreatePolicy env ambient sess s = in_tx env ambient sess (create_policy env sess s)"

definition altered :: "string option \<Rightarrow> string \<Rightarrow> string" where
  "altered txt old = (case txt of None \<Rightarrow> old | Some t \<Rightarrow> t)"

definition alter_policy :: "('db, 'wb, 'r) xenv \<Rightarrow> session \<Rightarrow> AlterPolicyStmt \<Rightarrow> ('db, 'r, Result) dm" where
  "alter_policy env sess s =
     bind_ex (loadSchema env sess (aps_Table s)) (\<lambda>sch.
       case findPolicy sch (aps_PolicyName s) of
         None \<Rightarrow> fail (ExecError ''42704'')
       | Some i \<Rightarrow>
           bind_ex (lift (opt_res deparseExpr (aps_Using s))) (\<lambda>usingTxt.
             bind_ex (lift (opt_res deparseExpr (aps_WithCheck s))) (\<lambda>checkTxt.
               let p = ts_Policies sch ! i;
                   p = p\<lparr>p_Roles := (if aps_Roles s \<noteq> [] then normalizeRoles (aps_Roles s) else p_Roles p),
                         p_UsingExpr := altered usingTxt (p_UsingExpr p), p_CheckExpr := altered checkTxt (p_CheckExpr p)\<rparr>
               in bind_ex (persistSchema env sess (sch\<lparr>ts_Policies := (ts_Policies sch)[i := p]\<rparr>)) (\<lambda>_.
                    ret (command_result ''ALTER POLICY'' 0)))))"

definition execAlterPolicy where
  "execAlterPolicy env ambient sess s = in_tx env ambient sess (alter_policy env sess s)"

definition drop_policy :: "('db, 'wb, 'r) xenv \<Rightarrow> session \<Rightarrow> DropPolicyStmt \<Rightarrow> ('db, 'r, Result) dm" where
  "drop_policy env sess s d =
     (case loadSchema env sess (dps_Table s) d of
        (d, Inl err) \<Rightarrow>
          if dps_IfExists s \<and> err = ExecError ''42P01'' then ret (command_result ''DROP POLICY'' 0) d else fail err d
      | (d, Inr sch) \<Rightarrow>
          (case findPolicy sch (dps_PolicyName s) of
             None \<Rightarrow> if dps_IfExists s then ret (command_result ''DROP POLICY'' 0) d else fail (ExecError ''42704'') d
           | Some i \<Rightarrow>
               bind_ex (persistSchema env sess (sch\<lparr>ts_Policies := take i (ts_Policies sch) @ drop (Suc i) (ts_Policies sch)\<rparr>)) (\<lambda>_.
                 ret (command_result ''DROP POLICY'' 0)) d))"

definition execDropPolicy where
  "execDropPolicy env ambient sess s = in_tx env ambient sess (drop_policy env sess s)"

subsection \<open>Enforcement\<close>

definition rlsApplies :: "tableSchema \<Rightarrow> session option \<Rightarrow> bool" where
  "rlsApplies sch sess \<longleftrightarrow>
     ts_RLSEnabled sch \<and> \<not> (case sess of None \<Rightarrow> False | Some s \<Rightarrow> IsBypassRLS s \<and> \<not> ts_RLSForced sch)"

definition user_of :: "session option \<Rightarrow> string" where
  "user_of sess = (case sess of None \<Rightarrow> [] | Some s \<Rightarrow> User s)"

definition evalPolicyPredicate ::
  "('db, 'wb, 'r) xenv \<Rightarrow> Datum list \<Rightarrow> (string list \<Rightarrow> sql_value res) \<Rightarrow> bool \<Rightarrow> string \<Rightarrow> ('db, 'r, bool) dm" where
  "evalPolicyPredicate env params resolve emptyDefault expr =
     (if trimSpace expr = [] then ret emptyDefault
      else bind_ex (lift (parseStoredExpr env expr)) (\<lambda>node.
        bind_ex (with_sess (eval_row env params resolve node)) (\<lambda>v. ret (if v_null v then False else asBool v))))"

primrec permissive_loop :: "(rlsPolicy \<Rightarrow> bool) \<Rightarrow> (rlsPolicy \<Rightarrow> ('s, bool) sm) \<Rightarrow> rlsPolicy list \<Rightarrow> bool \<Rightarrow> bool \<Rightarrow> ('s, bool \<times> bool) sm" where
  "permissive_loop applies E [] anyPermissive permissivePass = ret (anyPermissive, permissivePass)"
| "permissive_loop applies E (p # ps) anyPermissive permissivePass =
     (if \<not> applies p \<or> \<not> p_Permissive p then permissive_loop applies E ps anyPermissive permissivePass
      else bind_ex (E p) (\<lambda>ok. permissive_loop applies E ps True (ok \<or> permissivePass)))"

primrec restrictive_loop :: "(rlsPolicy \<Rightarrow> bool) \<Rightarrow> (rlsPolicy \<Rightarrow> ('s, bool) sm) \<Rightarrow> rlsPolicy list \<Rightarrow> ('s, bool) sm" where
  "restrictive_loop applies E [] = ret True"
| "restrictive_loop applies E (p # ps) =
     (if p_Permissive p \<or> \<not> applies p then restrictive_loop applies E ps
      else bind_ex (E p) (\<lambda>ok. if ok then restrictive_loop applies E ps else ret False))"

definition policies_allow :: "(rlsPolicy \<Rightarrow> bool) \<Rightarrow> (rlsPolicy \<Rightarrow> ('s, bool) sm) \<Rightarrow> rlsPolicy list \<Rightarrow> ('s, bool) sm" where
  "policies_allow applies E ps =
     bind_ex (permissive_loop applies E ps False False) (\<lambda>(anyPermissive, permissivePass).
       if \<not> anyPermissive \<or> \<not> permissivePass then ret False else restrictive_loop applies E ps)"

definition applicable :: "session option \<Rightarrow> string \<Rightarrow> rlsPolicy \<Rightarrow> bool" where
  "applicable sess cmd p \<longleftrightarrow> appliesToCommand p cmd \<and> appliesToRole p (user_of sess)"

definition rlsRowAllowed ::
  "('db, 'wb, 'r) xenv \<Rightarrow> tableSchema \<Rightarrow> session option \<Rightarrow> string \<Rightarrow> Datum list \<Rightarrow> (string list \<Rightarrow> sql_value res) \<Rightarrow> ('db, 'r, bool) dm" where
  "rlsRowAllowed env sch sess cmd params resolve =
     policies_allow (applicable sess cmd) (\<lambda>p. evalPolicyPredicate env params resolve True (p_UsingExpr p)) (ts_Policies sch)"

definition rlsCheckNewRow ::
  "('db, 'wb, 'r) xenv \<Rightarrow> tableSchema \<Rightarrow> session option \<Rightarrow> string \<Rightarrow> Datum list \<Rightarrow> (string list \<Rightarrow> sql_value res) \<Rightarrow> ('db, 'r, unit) dm" where
  "rlsCheckNewRow env sch sess cmd params resolve =
     bind_ex (policies_allow (applicable sess cmd) (\<lambda>p. evalPolicyPredicate env params resolve True (policyCheckExpr p)) (ts_Policies sch))
       (\<lambda>ok. if ok then ret () else fail (ExecError ''42501''))"

primrec rls_bindings :: "('db, 'wb, 'r) xenv \<Rightarrow> session option \<Rightarrow> Datum list \<Rightarrow> binding list \<Rightarrow> ('db, 'r, bool) dm" where
  "rls_bindings env sess params [] = ret True"
| "rls_bindings env sess params (b # bs) =
     (if \<not> rlsApplies (b_schema b) sess then rls_bindings env sess params bs
      else bind_ex (rlsRowAllowed env (b_schema b) sess ''SELECT'' params (rowResolver (b_schema b) (b_alias b) (b_cells b)))
             (\<lambda>ok. if ok then rls_bindings env sess params bs else ret False))"

primrec applyRLSSelect :: "('db, 'wb, 'r) xenv \<Rightarrow> session option \<Rightarrow> Datum list \<Rightarrow> boundRow list \<Rightarrow> ('db, 'r, boundRow list) dm" where
  "applyRLSSelect env sess params [] = ret []"
| "applyRLSSelect env sess params (row # rows) =
     bind_ex (rls_bindings env sess params row) (\<lambda>keep.
       bind_ex (applyRLSSelect env sess params rows) (\<lambda>out. ret (if keep then row # out else out)))"

subsection \<open>The decision\<close>

lemma permissive_loop_pure:
  assumes "\<And>p. p \<in> set ps \<Longrightarrow> applies p \<Longrightarrow> p_Permissive p \<Longrightarrow> E p s = (s, Inr (b p))"
  shows "permissive_loop applies E ps x y s =
    (s, Inr (x \<or> (\<exists>p \<in> set ps. applies p \<and> p_Permissive p), y \<or> (\<exists>p \<in> set ps. applies p \<and> p_Permissive p \<and> b p)))"
  using assms by (induction ps arbitrary: x y) (auto simp: bind_ex_def ret_def)

lemma restrictive_loop_pure:
  assumes "\<And>p. p \<in> set ps \<Longrightarrow> applies p \<Longrightarrow> \<not> p_Permissive p \<Longrightarrow> E p s = (s, Inr (b p))"
  shows "restrictive_loop applies E ps s = (s, Inr (\<forall>p \<in> set ps. applies p \<and> \<not> p_Permissive p \<longrightarrow> b p))"
  using assms by (induction ps) (auto simp: bind_ex_def ret_def)

definition decision :: "(rlsPolicy \<Rightarrow> bool) \<Rightarrow> (rlsPolicy \<Rightarrow> bool) \<Rightarrow> rlsPolicy list \<Rightarrow> bool" where
  "decision applies b ps \<longleftrightarrow>
     (\<exists>p \<in> set ps. applies p \<and> p_Permissive p \<and> b p) \<and> (\<forall>p \<in> set ps. applies p \<and> \<not> p_Permissive p \<longrightarrow> b p)"

lemma policies_allow_pure:
  assumes "\<And>p. p \<in> set ps \<Longrightarrow> applies p \<Longrightarrow> E p s = (s, Inr (b p))"
  shows "policies_allow applies E ps s = (s, Inr (decision applies b ps))"
  using permissive_loop_pure [of ps applies E s b False False] restrictive_loop_pure [of ps applies E s b] assms
  by (auto simp: policies_allow_def bind_ex_def ret_def decision_def)

text \<open>
  C8. The decision on a row is the one PostgreSQL documents: some applicable permissive policy accepts it and every
  applicable restrictive policy does. A row is refused if no permissive policy applies, whatever the restrictive
  ones say. New rows are decided the same way on the WITH CHECK expressions, with USING in place of a missing one,
  and refused with 42501.
\<close>

theorem rls_decision:
  assumes "\<forall>p \<in> set (ts_Policies sch). applicable sess cmd p \<longrightarrow> evalPolicyPredicate env params resolve True (p_UsingExpr p) d = (d, Inr (b p))"
    and "\<forall>p \<in> set (ts_Policies sch). applicable sess cmd p \<longrightarrow> evalPolicyPredicate env params resolve True (policyCheckExpr p) d = (d, Inr (c p))"
  shows "rlsRowAllowed env sch sess cmd params resolve d = (d, Inr (decision (applicable sess cmd) b (ts_Policies sch)))
     \<and> rlsCheckNewRow env sch sess cmd params resolve d
         = (d, if decision (applicable sess cmd) c (ts_Policies sch) then Inr () else Inl (ExecError ''42501''))
     \<and> ((\<forall>p \<in> set (ts_Policies sch). applicable sess cmd p \<longrightarrow> \<not> p_Permissive p) \<longrightarrow>
          rlsRowAllowed env sch sess cmd params resolve d = (d, Inr False))"
proof -
  have "rlsRowAllowed env sch sess cmd params resolve d = (d, Inr (decision (applicable sess cmd) b (ts_Policies sch)))"
    unfolding rlsRowAllowed_def by (rule policies_allow_pure) (use assms(1) in blast)
  moreover have "policies_allow (applicable sess cmd) (\<lambda>p. evalPolicyPredicate env params resolve True (policyCheckExpr p)) (ts_Policies sch) d
      = (d, Inr (decision (applicable sess cmd) c (ts_Policies sch)))"
    by (rule policies_allow_pure) (use assms(2) in blast)
  ultimately show ?thesis by (auto simp: rlsCheckNewRow_def bind_ex_def ex_defs decision_def)
qed

subsection \<open>Tenant isolation\<close>

text \<open>The usual policy of a shared table: a column equals a setting of the session.\<close>

definition tenant_pred :: "string \<Rightarrow> string \<Rightarrow> Node" where
  "tenant_pred col guc = A_Expr AEXPR_OP ''='' (Some (ColumnRef [col])) (Some (call ''current_setting'' [str guc]))"

lemma eval_setting:
  assumes "x_sess st = Some se" and "GetSetting se guc = Some t"
  shows "eval L ev (call ''current_setting'' [str guc]) st = (st, Inr (val t OIDText))"
  using assms by (simp add: eval_call_defs current_setting_def ex_defs get_sess_def)

lemma eval_tenant:
  assumes "ordinary L col" and "ev_resolveCol ev = Some resolve" and "resolve [col] = Inr v"
    and "x_sess st = Some se" and "GetSetting se guc = Some t"
  shows "eval L ev (tenant_pred col guc) st = (st, Inr (if v_null v then null_val OIDBool else boolValue (v_text v = t)))"
proof -
  have q: "quantified ''='' (Some (call ''current_setting'' [str guc])) = None"
    by (simp add: quantified_def call_def func_name_call call_names)
  have "\<not> isNumericOID OIDText" by code_simp
  then have "compare L ''='' v (val t OIDText) = Inr (boolValue (v_text v = t))"
    by (auto simp: compare_def cmp_values_def string_cmp_def boolValue_def Let_def)
  then show ?thesis
    by (subst eval.simps)
      (simp add: tenant_pred_def eval_step_def evalAExpr_def q row_operands_def eval_two_def eval_opt_def ex_defs
        eval_column [where resolve = resolve, OF assms(1-3)] eval_setting [OF assms(4,5)] binary_op_def is_comparison_def)
qed

lemma with_sess_pure: "m (d_x d) = (d_x d, r) \<Longrightarrow> with_sess m d = (d, r)"
  by (simp add: with_sess_def)

lemma policy_tenant:
  assumes "parseStoredExpr env txt = Inr (Some (tenant_pred col guc))" and "trimSpace txt \<noteq> []"
    and "ordinary (xe_L env) col" and "resolve [col] = Inr v"
    and "x_sess (d_x d) = Some se" and "GetSetting se guc = Some t"
  shows "evalPolicyPredicate env params resolve e txt d = (d, Inr (\<not> v_null v \<and> v_text v = t))"
proof -
  have "eval_row env params resolve (Some (tenant_pred col guc)) (d_x d)
      = (d_x d, Inr (if v_null v then null_val OIDBool else boolValue (v_text v = t)))"
    unfolding eval_row_def eval_opt_def option.case
    by (rule eval_tenant [where resolve = resolve]) (use assms in \<open>simp_all add: row_evaluator_def\<close>)
  then have "with_sess (eval_row env params resolve (Some (tenant_pred col guc))) d
      = (d, Inr (if v_null v then null_val OIDBool else boolValue (v_text v = t)))"
    by (rule with_sess_pure)
  then show ?thesis
    using assms(1,2) by (simp add: evalPolicyPredicate_def bind_ex_def lift_def ret_def boolValue_def asBool_def)
qed

text \<open>A table with one policy, permissive and for every command and role.\<close>

definition single_policy :: "tableSchema \<Rightarrow> string \<Rightarrow> bool" where
  "single_policy sch txt \<longleftrightarrow> (\<exists>p. ts_Policies sch = [p] \<and> p_Permissive p \<and> p_Command p = ''ALL'' \<and> p_Roles p = []
     \<and> p_UsingExpr p = txt \<and> p_CheckExpr p = [])"

lemma single_decision:
  assumes "single_policy sch txt" and "evalPolicyPredicate env params resolve True txt d = (d, Inr b)"
  shows "rlsRowAllowed env sch sess cmd params resolve d = (d, Inr b)"
    and "rlsCheckNewRow env sch sess cmd params resolve d = (d, if b then Inr () else Inl (ExecError ''42501''))"
proof -
  obtain p where p: "ts_Policies sch = [p]" "p_Permissive p" "p_UsingExpr p = txt" "policyCheckExpr p = txt" "applicable sess cmd p"
    using assms(1) by (auto simp: single_policy_def policyCheckExpr_def applicable_def appliesToCommand_def appliesToRole_def)
  have a: "policies_allow (applicable sess cmd) (\<lambda>q. evalPolicyPredicate env params resolve True (f q)) [p] d = (d, Inr b)"
    if "f p = txt" for f
    using policies_allow_pure [of "[p]" "applicable sess cmd" "\<lambda>q. evalPolicyPredicate env params resolve True (f q)" d "\<lambda>_. b"]
      p(2,5) that assms(2) by (simp add: decision_def)
  show "rlsRowAllowed env sch sess cmd params resolve d = (d, Inr b)" by (simp add: rlsRowAllowed_def p a)
  show "rlsCheckNewRow env sch sess cmd params resolve d = (d, if b then Inr () else Inl (ExecError ''42501''))"
    by (simp add: rlsCheckNewRow_def p a bind_ex_def ex_defs)
qed

lemma applyRLSSelect_pure:
  assumes "\<And>row. row \<in> set rows \<Longrightarrow> rls_bindings env sess params row d = (d, Inr (P row))"
  shows "applyRLSSelect env sess params rows d = (d, Inr (filter P rows))"
  using assms by (induction rows) (auto simp: bind_ex_def ret_def)

text \<open>
  C5. A table whose policy compares a column with a setting isolates tenants: a session that has the setting reads
  exactly the rows with its value, rows with NULL excluded, and every command may add exactly such rows; any other
  new row is refused. It rests on the parser giving back the comparison from the stored text.
\<close>

theorem tenant_isolation:
  assumes "single_policy sch txt" and "parseStoredExpr env txt = Inr (Some (tenant_pred col guc))" and "trimSpace txt \<noteq> []"
    and "ordinary (xe_L env) col" and "colIndex sch col = Some i" and "rlsApplies sch (Some se)"
    and "x_sess (d_x d) = Some se" and "GetSetting se guc = Some t"
    and "\<forall>cells \<in> set rows. i < length cells" and "i < length new"
  shows "applyRLSSelect env (Some se) params (map (\<lambda>cells. [\<lparr>b_alias = al, b_schema = sch, b_cells = cells\<rparr>]) rows) d
      = (d, Inr (map (\<lambda>cells. [\<lparr>b_alias = al, b_schema = sch, b_cells = cells\<rparr>])
                   (filter (\<lambda>cells. \<not> d_Null (cells ! i) \<and> d_Text (cells ! i) = t) rows)))
     \<and> rlsCheckNewRow env sch (Some se) cmd params (rowResolver sch al new) d
      = (d, if \<not> d_Null (new ! i) \<and> d_Text (new ! i) = t then Inr () else Inl (ExecError ''42501''))"
proof -
  have pred: "evalPolicyPredicate env params (rowResolver sch al cells) True txt d
      = (d, Inr (\<not> d_Null (cells ! i) \<and> d_Text (cells ! i) = t))" if i: "i < length cells" for cells
  proof -
    have "rowResolver sch al cells [col]
        = Inr \<lparr>v_null = d_Null (cells ! i), v_text = d_Text (cells ! i), v_oid = cm_TypeOID (ts_Cols sch ! i)\<rparr>"
      using assms(5) i by (simp add: rowResolver_def cell_at_def)
    from policy_tenant [where resolve = "rowResolver sch al cells", OF assms(2-4) this assms(7,8)] show ?thesis by simp
  qed
  let ?row = "\<lambda>cells. [\<lparr>b_alias = al, b_schema = sch, b_cells = cells\<rparr>]"
  let ?P = "\<lambda>row. \<not> d_Null (b_cells (hd row) ! i) \<and> d_Text (b_cells (hd row) ! i) = t"
  have "rls_bindings env (Some se) params row d = (d, Inr (?P row))" if "row \<in> set (map ?row rows)" for row
    using that assms(6,9) single_decision(1) [OF assms(1) pred] by (auto simp: bind_ex_def ret_def)
  then have "applyRLSSelect env (Some se) params (map ?row rows) d = (d, Inr (filter ?P (map ?row rows)))"
    by (rule applyRLSSelect_pure)
  moreover have "filter ?P (map ?row rows) = map ?row (filter (\<lambda>cells. \<not> d_Null (cells ! i) \<and> d_Text (cells ! i) = t) rows)"
    by (induction rows) auto
  ultimately show ?thesis using single_decision(2) [OF assms(1) pred [OF assms(10)]] by simp
qed

text \<open>
  C38. A negated policy shows rows the comment on evalPolicyPredicate says it hides: NOT of a NULL column is true for
  the evaluator, so a row whose column is NULL passes a policy \<open>NOT col\<close>, for every command.
\<close>

theorem negated_policy_shows_nulls:
  assumes "single_policy sch txt" and "parseStoredExpr env txt = Inr (Some (BoolExpr NOT_EXPR [ColumnRef [col]]))" and "trimSpace txt \<noteq> []"
    and "ordinary (xe_L env) col" and "colIndex sch col = Some i" and "i < length cells" and "d_Null (cells ! i)"
  shows "rlsRowAllowed env sch sess cmd params (rowResolver sch al cells) d = (d, Inr True)"
proof -
  let ?r = "rowResolver sch al cells"
  obtain v where v: "?r [col] = Inr v" "v_null v" using assms(5-7) by (simp add: rowResolver_def cell_at_def)
  have "eval (xe_L env) (row_evaluator params ?r) (BoolExpr NOT_EXPR [ColumnRef [col]]) st = (st, Inr (boolValue True))" for st
    using eval_column [where resolve = ?r, OF assms(4) _ v(1), of "row_evaluator params ?r" st] v(2)
    by (subst eval.simps) (simp add: eval_step_def evalBool_def bind_ex_def ret_def asBool_def row_evaluator_def)
  then have "with_sess (eval_row env params ?r (Some (BoolExpr NOT_EXPR [ColumnRef [col]]))) d = (d, Inr (boolValue True))"
    by (intro with_sess_pure) (simp add: eval_row_def eval_opt_def)
  then have "evalPolicyPredicate env params ?r True txt d = (d, Inr True)"
    using assms(2,3) by (simp add: evalPolicyPredicate_def bind_ex_def lift_def ret_def boolValue_def asBool_def)
  from single_decision(1) [OF assms(1) this] show ?thesis .
qed

subsection \<open>Policy statements take effect\<close>

lemma find_index_append_new: "find_index P xs = None \<Longrightarrow> P y \<Longrightarrow> find_index P (xs @ [y]) = Some (length xs)"
  by (simp add: find_index_None) (simp add: find_index_def Let_def)

text \<open>
  C36. CREATE POLICY adds exactly the policy it describes, a second one of the same name is refused whatever the
  case of its letters, and DROP POLICY restores the table: the schema that later statements of the transaction load
  shows each effect. It rests on the JSON codec giving back the schema that was encoded.
\<close>

theorem policy_create_drop:
  assumes "schema_codec env" and "xe_encSchema env sch = Inr b1"
    and "xe_encSchema env (sch\<lparr>ts_Policies := ts_Policies sch @ [new_policy s u c]\<rparr>) = Inr b2"
    and "loadSchema env sess (pls_Table s) d = (d, Inr sch)" and "ts_Name sch = pls_Table s"
    and "findPolicy sch (pls_PolicyName s) = None"
    and "deparseOptExpr (pls_Using s) = Inr u" and "deparseOptExpr (pls_WithCheck s) = Inr c"
    and "equalFold again (pls_PolicyName s)"
  shows "\<exists>d1 d2. create_policy env sess s d = (d1, Inr (command_result ''CREATE POLICY'' 0))
     \<and> loadSchema env sess (pls_Table s) d1 = (d1, Inr (sch\<lparr>ts_Policies := ts_Policies sch @ [new_policy s u c]\<rparr>))
     \<and> create_policy env sess (s\<lparr>pls_PolicyName := again\<rparr>) d1 = (d1, Inl (ExecError ''42710''))
     \<and> drop_policy env sess \<lparr>dps_PolicyName = again, dps_Table = pls_Table s, dps_IfExists = b\<rparr> d1 = (d2, Inr (command_result ''DROP POLICY'' 0))
     \<and> loadSchema env sess (pls_Table s) d2 = (d2, Inr sch)"
proof -
  define sch1 where "sch1 = sch\<lparr>ts_Policies := ts_Policies sch @ [new_policy s u c]\<rparr>"
  have opened: "\<not> t_done (d_txn d)" by (rule loadSchema_open [OF assms(4)])
  obtain d1 where d1: "persistSchema env sess sch1 d = (d1, Inr ())"
    using assms(3) by (simp add: persistSchema_def txn_buffer_def sch1_def)
  have l1: "loadSchema env sess (pls_Table s) d1 = (d1, Inr sch1)" and opened1: "\<not> t_done (d_txn d1)"
    using loadSchema_persisted [OF assms(1) d1 opened] assms(5) by (simp_all add: sch1_def)
  obtain d2 where d2: "persistSchema env sess sch d1 = (d2, Inr ())"
    using assms(2) by (simp add: persistSchema_def txn_buffer_def)
  have l2: "loadSchema env sess (pls_Table s) d2 = (d2, Inr sch)"
    using loadSchema_persisted(1) [OF assms(1) d2 opened1] assms(5) by simp
  have f1: "findPolicy sch1 again = Some (length (ts_Policies sch))"
  proof -
    have "find_index (\<lambda>p. equalFold (p_Name p) again) (ts_Policies sch) = None"
      using assms(6,9) by (auto simp: findPolicy_def find_index_None) (metis equalFold_trans)
    then show ?thesis using assms(9)
      by (simp add: findPolicy_def sch1_def find_index_append_new new_policy_def Let_def equalFold_sym)
  qed
  have "create_policy env sess s d = (d1, Inr (command_result ''CREATE POLICY'' 0))"
    using d1 assms(4,6-8) by (simp add: create_policy_def bind_ex_def lift_def ret_def sch1_def)
  moreover have "create_policy env sess (s\<lparr>pls_PolicyName := again\<rparr>) d1 = (d1, Inl (ExecError ''42710''))"
    using l1 f1 by (simp add: create_policy_def bind_ex_def lift_def)
  moreover have "drop_policy env sess \<lparr>dps_PolicyName = again, dps_Table = pls_Table s, dps_IfExists = b\<rparr> d1
      = (d2, Inr (command_result ''DROP POLICY'' 0))"
    using l1 f1 d2 by (simp add: drop_policy_def bind_ex_def ret_def sch1_def)
  ultimately show ?thesis
    using l1 l2 unfolding sch1_def by (intro exI [of _ d1] exI [of _ d2] conjI)
qed

subsection \<open>An example table\<close>

definition demo_docs :: tableSchema where
  "demo_docs = (plain_table ''docs'' [(''tenant'', OIDText), (''hidden'', OIDBool)])\<lparr>ts_RLSEnabled := True,
     ts_Policies := [\<lparr>p_Name = ''own'', p_Command = ''ALL'', p_Permissive = True, p_Roles = [], p_UsingExpr = ''own_tenant'', p_CheckExpr = []\<rparr>]\<rparr>"

definition demo_exprs :: "(string \<times> Node) list" where
  "demo_exprs = [(''own_tenant'', tenant_pred ''tenant'' ''app.tenant''), (''not_hidden'', BoolExpr NOT_EXPR [ColumnRef [''hidden'']])]"

definition acme :: session where
  "acme = SetSetting ''app.tenant'' ''acme'' (demo_session ''shared'')"

definition cell :: "string \<Rightarrow> Datum" where
  "cell s = \<lparr>d_Null = False, d_Text = s\<rparr>"

definition null_cell :: Datum where
  "null_cell = \<lparr>d_Null = True, d_Text = []\<rparr>"

lemma demo_parse:
  "parseStoredExpr (demo_env demo_exprs ss) ''own_tenant'' = Inr (Some (tenant_pred ''tenant'' ''app.tenant''))"
  "parseStoredExpr (demo_env demo_exprs ss) ''not_hidden'' = Inr (Some (BoolExpr NOT_EXPR [ColumnRef [''hidden'']]))"
  by (simp_all add: parseStoredExpr_def demo_env_def demo_exprs_def select_of_def)

lemma demo_facts:
  "single_policy demo_docs ''own_tenant''" "trimSpace ''own_tenant'' \<noteq> []" "trimSpace ''not_hidden'' \<noteq> []"
  "ordinary (xe_L (demo_env es ss)) ''tenant''" "ordinary (xe_L (demo_env es ss)) ''hidden''"
  "colIndex demo_docs ''tenant'' = Some 0" "colIndex demo_docs ''hidden'' = Some 1" "rlsApplies demo_docs (Some acme)"
  "GetSetting acme ''app.tenant'' = Some ''acme''" "x_sess (d_x (demo_state (Some se) db)) = Some se"
  by (simp add: single_policy_def demo_docs_def, code_simp, code_simp, simp add: demo_env_def, code_simp, simp add: demo_env_def, code_simp,
      code_simp, code_simp, code_simp, code_simp, simp add: demo_state_def)

theorem tenant_isolation_witness:
  "applyRLSSelect (demo_env demo_exprs []) (Some acme) []
      (map (\<lambda>cells. [\<lparr>b_alias = ''d'', b_schema = demo_docs, b_cells = cells\<rparr>])
         [[cell ''acme'', cell ''f''], [cell ''other'', cell ''f''], [null_cell, cell ''f'']]) (demo_state (Some acme) [])
    = (demo_state (Some acme) [], Inr [[\<lparr>b_alias = ''d'', b_schema = demo_docs, b_cells = [cell ''acme'', cell ''f'']\<rparr>]])
   \<and> rlsCheckNewRow (demo_env demo_exprs []) demo_docs (Some acme) ''INSERT'' [] (rowResolver demo_docs ''d'' [cell ''other'', cell ''f''])
      (demo_state (Some acme) []) = (demo_state (Some acme) [], Inl (ExecError ''42501''))"
  using tenant_isolation [where rows = "[[cell ''acme'', cell ''f''], [cell ''other'', cell ''f''], [null_cell, cell ''f'']]"
      and new = "[cell ''other'', cell ''f'']" and params = "[]" and al = "''d''" and cmd = "''INSERT''" and d = "demo_state (Some acme) []",
      OF demo_facts(1) demo_parse(1) [where ss = "[]"] demo_facts(2,4,6,8,10,9)]
  by (simp add: cell_def null_cell_def)

theorem negated_policy_shows_nulls_witness:
  "rlsRowAllowed (demo_env demo_exprs [])
     (demo_docs\<lparr>ts_Policies := [\<lparr>p_Name = ''p'', p_Command = ''ALL'', p_Permissive = True, p_Roles = [], p_UsingExpr = ''not_hidden'', p_CheckExpr = []\<rparr>]\<rparr>)
     (Some acme) ''SELECT'' [] (rowResolver (demo_docs\<lparr>ts_Policies := [\<lparr>p_Name = ''p'', p_Command = ''ALL'', p_Permissive = True, p_Roles = [],
         p_UsingExpr = ''not_hidden'', p_CheckExpr = []\<rparr>]\<rparr>) ''d'' [cell ''acme'', null_cell]) (demo_state (Some acme) [])
   = (demo_state (Some acme) [], Inr True)"
proof -
  let ?s = "demo_docs\<lparr>ts_Policies := [\<lparr>p_Name = ''p'', p_Command = ''ALL'', p_Permissive = True, p_Roles = [], p_UsingExpr = ''not_hidden'', p_CheckExpr = []\<rparr>]\<rparr>"
  have "single_policy ?s ''not_hidden''" "colIndex ?s ''hidden'' = Some 1"
    using demo_facts(7) by (simp_all add: single_policy_def colIndex_def)
  from negated_policy_shows_nulls [OF this(1) demo_parse(2) demo_facts(3,5) this(2)] show ?thesis
    by (simp add: null_cell_def)
qed

theorem rls_decision_witness:
  "rlsRowAllowed (demo_env demo_exprs []) (demo_docs\<lparr>ts_Policies := []\<rparr>) (Some acme) ''SELECT'' [] (rowResolver demo_docs ''d'' [cell ''acme'', cell ''f''])
      (demo_state (Some acme) []) = (demo_state (Some acme) [], Inr False)
   \<and> rlsRowAllowed (demo_env demo_exprs []) demo_docs (Some acme) ''SELECT'' [] (rowResolver demo_docs ''d'' [cell ''acme'', cell ''f''])
      (demo_state (Some acme) []) = (demo_state (Some acme) [], Inr True)"
proof -
  let ?r = "rowResolver demo_docs ''d'' [cell ''acme'', cell ''f'']" and ?d = "demo_state (Some acme) []"
  have r: "?r [''tenant''] = Inr \<lparr>v_null = False, v_text = ''acme'', v_oid = cm_TypeOID (ts_Cols demo_docs ! 0)\<rparr>"
    using demo_facts(6) by (simp add: rowResolver_def cell_at_def cell_def)
  have e: "evalPolicyPredicate (demo_env demo_exprs []) [] ?r True ''own_tenant'' ?d = (?d, Inr True)"
    using policy_tenant [where resolve = ?r, OF demo_parse(1) demo_facts(2,4) r demo_facts(10,9)] by simp
  obtain p where p: "ts_Policies demo_docs = [p]" "p_UsingExpr p = ''own_tenant''" "policyCheckExpr p = ''own_tenant''" "p_Permissive p"
      "applicable (Some acme) ''SELECT'' p"
    by (simp add: demo_docs_def policyCheckExpr_def applicable_def appliesToCommand_def appliesToRole_def)
  have "rlsRowAllowed (demo_env demo_exprs []) demo_docs (Some acme) ''SELECT'' [] ?r ?d
      = (?d, Inr (decision (applicable (Some acme) ''SELECT'') (\<lambda>_. True) (ts_Policies demo_docs)))"
    using rls_decision [of demo_docs "Some acme" "''SELECT''" "demo_env demo_exprs []" "[]" ?r ?d "\<lambda>_. True" "\<lambda>_. True"] p e by simp
  moreover have "rlsRowAllowed (demo_env demo_exprs []) (demo_docs\<lparr>ts_Policies := []\<rparr>) (Some acme) ''SELECT'' [] ?r ?d = (?d, Inr False)"
    using rls_decision [of "demo_docs\<lparr>ts_Policies := []\<rparr>" "Some acme" "''SELECT''" "demo_env demo_exprs []" "[]" ?r ?d] by simp
  ultimately show ?thesis using p by (simp add: decision_def)
qed

definition demo_policy :: CreatePolicyStmt where
  "demo_policy = \<lparr>pls_PolicyName = ''live'', pls_Table = ''docs'', pls_Permissive = False, pls_Command = ''select'',
     pls_Roles = [''public''], pls_Using = Some (BoolExpr NOT_EXPR [ColumnRef [''hidden'']]), pls_WithCheck = None\<rparr>"

definition demo_catalog :: "tableSchema list" where
  "demo_catalog = [demo_docs, demo_docs\<lparr>ts_Policies := ts_Policies demo_docs @ [new_policy demo_policy ''(NOT hidden)'' []]\<rparr>]"

theorem policy_create_drop_witness:
  "\<exists>d1 d2. create_policy (demo_env [] demo_catalog) acme demo_policy
        (fst (persistSchema (demo_env [] demo_catalog) acme demo_docs (demo_state (Some acme) []))) = (d1, Inr (command_result ''CREATE POLICY'' 0))
     \<and> drop_policy (demo_env [] demo_catalog) acme \<lparr>dps_PolicyName = ''LIVE'', dps_Table = ''docs'', dps_IfExists = False\<rparr> d1
        = (d2, Inr (command_result ''DROP POLICY'' 0))
     \<and> loadSchema (demo_env [] demo_catalog) acme ''docs'' d2 = (d2, Inr demo_docs)"
proof -
  let ?env = "demo_env [] demo_catalog" and ?s = demo_policy
  have ne: "demo_docs \<noteq> demo_docs\<lparr>ts_Policies := ts_Policies demo_docs @ [x]\<rparr>" for x
    by (auto dest: arg_cong [of _ _ ts_Policies])
  have i: "find_index (\<lambda>t. t = demo_docs) demo_catalog = Some 0"
    "find_index (\<lambda>t. t = demo_docs\<lparr>ts_Policies := ts_Policies demo_docs @ [new_policy ?s ''(NOT hidden)'' []]\<rparr>) demo_catalog = Some 1"
    using ne by (simp_all add: find_index_def demo_catalog_def)
  have enc: "xe_encSchema ?env demo_docs = Inr (utoa 0)"
    "xe_encSchema ?env (demo_docs\<lparr>ts_Policies := ts_Policies demo_docs @ [new_policy ?s ''(NOT hidden)'' []]\<rparr>) = Inr (utoa 1)"
    unfolding demo_env_def by (simp_all only: xenv.simps i option.case)
  obtain d where d: "persistSchema ?env acme demo_docs (demo_state (Some acme) []) = (d, Inr ())"
    by (simp add: persistSchema_def txn_buffer_def enc)
  have "\<not> t_done (d_txn (demo_state (Some acme) []))" by (simp add: demo_state_def Begin_def Let_def split: prod.split)
  from loadSchema_persisted(1) [OF demo_codec d this]
  have l: "loadSchema ?env acme (pls_Table ?s) d = (d, Inr demo_docs)"
    by (simp add: demo_docs_def plain_table_def demo_policy_def)
  have t: "ts_Name demo_docs = pls_Table ?s" "findPolicy demo_docs (pls_PolicyName ?s) = None" "equalFold ''LIVE'' (pls_PolicyName ?s)"
    by code_simp+
  have u: "deparseOptExpr (pls_Using ?s) = Inr ''(NOT hidden)''" "deparseOptExpr (pls_WithCheck ?s) = Inr []"
    by (simp_all add: deparseOptExpr_def demo_policy_def deparseExpr.simps join_str_def)
  from policy_create_drop [OF demo_codec enc l t(1,2) u t(3), of False] d show ?thesis
    by (auto simp: demo_policy_def)
qed

end
