(* ===== verification/Scan.thy ===== *)
theory Scan
  imports Catalog Deparse TxnProps
begin

text \<open>
  Reading tables and maintaining their indexes (executor/scan.go and executor/index.go): the copy-on-write scan of a
  table on a branch, the encoding of index entries for plain, expression and partial indexes, the choice of an index
  for a query and the test that a query implies the predicate of a partial index.
\<close>

subsection \<open>Tables\<close>

record scanRow =
  sr_key :: Key
  sr_cells :: "Datum list"

record scanned =
  sc_schema :: tableSchema
  sc_alias :: string
  sc_rows :: "scanRow list"

definition OTelSpansTable :: string where
  "OTelSpansTable = ''otel_spans''"

definition otelSpansSchema :: tableSchema where
  "otelSpansSchema = plain_table OTelSpansTable
     [(''trace_id'', OIDText), (''span_id'', OIDText), (''parent_span_id'', OIDText), (''service_name'', OIDText),
      (''span_name'', OIDText), (''duration_ms'', OIDInt8), (''status'', OIDText), (''started_at'', OIDText), (''attributes'', OIDText)]"

definition OTelSpanColumns :: "string list" where
  "OTelSpanColumns = map cm_Name (ts_Cols otelSpansSchema)"

definition resolveSchema :: "('db, 'wb, 'r) xenv \<Rightarrow> session \<Rightarrow> string \<Rightarrow> ('db, 'r, tableSchema) dm" where
  "resolveSchema env sess table = (if table = OTelSpansTable then ret otelSpansSchema else loadSchema env sess table)"

definition branchLocal :: "string \<Rightarrow> bool" where
  "branchLocal table \<longleftrightarrow> table = OTelSpansTable"

definition keyTail :: "bytes \<Rightarrow> bytes \<Rightarrow> bytes" where
  "keyTail key p = (if length key < length p then key else drop (length p) key)"

text \<open>
  The two loops of scanTable: over the branch, collecting the tails it has, and over the parent, leaving out the
  tails the branch has.
\<close>

primrec branch_loop :: "nat \<Rightarrow> Key \<Rightarrow> (Key \<times> bytes res) list \<Rightarrow> bytes set \<Rightarrow> (scanRow list \<times> bytes set) res" where
  "branch_loop n p [] seen = Inr ([], seen)"
| "branch_loop n p (kv # kvs) seen =
     bind_res (snd kv) (\<lambda>raw.
       let seen = insert (keyTail (fst kv) p) seen
       in if IsTombstone raw then branch_loop n p kvs seen
          else bind_res (decodeRow raw n) (\<lambda>cells.
            bind_res (branch_loop n p kvs seen) (\<lambda>(rows, seen).
              Inr (\<lparr>sr_key = fst kv, sr_cells = cells\<rparr> # rows, seen))))"

primrec parent_loop :: "nat \<Rightarrow> Key \<Rightarrow> bytes set \<Rightarrow> (Key \<times> bytes res) list \<Rightarrow> scanRow list res" where
  "parent_loop n p seen [] = Inr []"
| "parent_loop n p seen (kv # kvs) =
     (if keyTail (fst kv) p \<in> seen then parent_loop n p seen kvs
      else bind_res (snd kv) (\<lambda>raw.
        if IsTombstone raw then parent_loop n p seen kvs
        else bind_res (decodeRow raw n) (\<lambda>cells.
          bind_res (parent_loop n p seen kvs) (\<lambda>rows. Inr (\<lparr>sr_key = fst kv, sr_cells = cells\<rparr> # rows)))))"

text \<open>The parent of a branch, read by the branch manager in a transaction of its own.\<close>

definition parent_of :: "('db, 'wb, 'r) xenv \<Rightarrow> session \<Rightarrow> string \<Rightarrow> ('db, 'r, string) dm" where
  "parent_of env sess branch d =
     (case mgr_metaOf (xe_bd env) (xe_rc env) (xe_wall env) (d_eng d) (s_Auth sess) branch of
        (e, Inl _) \<Rightarrow> (d\<lparr>d_eng := e\<rparr>, Inr ''main'')
      | (e, Inr meta) \<Rightarrow> (d\<lparr>d_eng := e\<rparr>, Inr (if mt_Parent meta \<noteq> [] then mt_Parent meta else ''main'')))"

definition scanTable :: "('db, 'wb, 'r) xenv \<Rightarrow> session \<Rightarrow> string \<Rightarrow> string \<Rightarrow> ('db, 'r, scanned) dm" where
  "scanTable env sess table al =
     bind_ex (resolveSchema env sess table) (\<lambda>sch.
       let al = (if al = [] then table else al);
           branchPrefix = RowPrefix (ns_of sess) (Branch sess) table
       in bind_ex (txn_scan env branchPrefix) (\<lambda>kvs.
            bind_ex (lift (branch_loop (length (ts_Cols sch)) branchPrefix kvs {})) (\<lambda>(rows, seen).
              if Branch sess \<noteq> ''main'' \<and> \<not> branchLocal table then
                bind_ex (parent_of env sess (Branch sess)) (\<lambda>parent.
                  let parentPrefix = RowPrefix (ns_of sess) parent table
                  in bind_ex (txn_scan env parentPrefix) (\<lambda>pkvs.
                       bind_ex (lift (parent_loop (length (ts_Cols sch)) parentPrefix seen pkvs)) (\<lambda>prows.
                         ret \<lparr>sc_schema = sch, sc_alias = al, sc_rows = rows @ prows\<rparr>)))
              else ret \<lparr>sc_schema = sch, sc_alias = al, sc_rows = rows\<rparr>)))"

subsection \<open>Index entries\<close>

definition datum_at :: "Datum list \<Rightarrow> nat \<Rightarrow> Datum res" where
  "datum_at cells i = (if i < length cells then Inr (cells ! i) else Inl index_panic)"

definition isExpr :: "indexDef \<Rightarrow> bool" where
  "isExpr d \<longleftrightarrow> (\<exists>e \<in> set (ix_Exprs d). e \<noteq> [])"

definition hasColumn :: "indexDef \<Rightarrow> string \<Rightarrow> bool" where
  "hasColumn d col \<longleftrightarrow> (\<exists>c \<in> set (ix_Columns d). equalFold c col)"

text \<open>The encoding of one column: nothing if it does not exist or is NULL.\<close>

definition encode_column :: "tableSchema \<Rightarrow> Datum list \<Rightarrow> string \<Rightarrow> bytes option res" where
  "encode_column sch cells col =
     (case colIndex sch col of
        None \<Rightarrow> Inr None
      | Some ci \<Rightarrow> bind_res (datum_at cells ci) (\<lambda>c.
          if d_Null c then Inr None
          else bind_res (orderEncode (cm_TypeOID (ts_Cols sch ! ci)) (d_Text c)) (\<lambda>part. Inr (Some part))))"

primrec encodeIndexTuple :: "tableSchema \<Rightarrow> string list \<Rightarrow> Datum list \<Rightarrow> bytes option res" where
  "encodeIndexTuple sch [] cells = Inr (Some [])"
| "encodeIndexTuple sch (col # cols) cells =
     bind_res (encode_column sch cells col) (\<lambda>part. case part of
         None \<Rightarrow> Inr None
       | Some part \<Rightarrow> bind_res (encodeIndexTuple sch cols cells) (\<lambda>enc. Inr (map_option (\<lambda>e. part @ e) enc)))"

definition indexListKey :: "session \<Rightarrow> string \<Rightarrow> Key" where
  "indexListKey sess table = SchemaKey (ns_of sess) (table @ ''#idx'')"

definition loadIndexes :: "('db, 'wb, 'r) xenv \<Rightarrow> session \<Rightarrow> string \<Rightarrow> ('db, 'r, indexDef list) dm" where
  "loadIndexes env sess table d =
     (d, case engine_Get (xe_bd env) (d_eng d) (d_txn d) (indexListKey sess table) of
           Inl err \<Rightarrow> if err = ErrKeyNotFound then Inr [] else Inl err
         | Inr bs \<Rightarrow> (case xe_decIndexes env bs of Inl _ \<Rightarrow> Inl (ExecError ''XX000'') | Inr defs \<Rightarrow> Inr defs))"

definition primaryKeyBytes :: "tableSchema \<Rightarrow> Datum list \<Rightarrow> Key \<Rightarrow> bytes res" where
  "primaryKeyBytes sch cells rowKey =
     (case ts_PKIndex sch of
        None \<Rightarrow> Inr rowKey
      | Some i \<Rightarrow> bind_res (datum_at cells i) (\<lambda>c. Inr (if d_Null c then rowKey else d_Text c)))"

definition rowMatchesPartial :: "('db, 'wb, 'r) xenv \<Rightarrow> tableSchema \<Rightarrow> indexDef \<Rightarrow> Datum list \<Rightarrow> ('db, 'r, bool) dm" where
  "rowMatchesPartial env sch d cells =
     bind_ex (lift (parseStoredExpr env (ix_Where d))) (\<lambda>node.
       bind_ex (without_sess (eval_row env [] (rowResolver sch (ix_Table d) cells) node)) (\<lambda>v. ret (asBool v)))"

text \<open>One element of an index: a stored expression, or else a column.\<close>

definition encode_element :: "('db, 'wb, 'r) xenv \<Rightarrow> tableSchema \<Rightarrow> indexDef \<Rightarrow> Datum list \<Rightarrow> string \<times> string \<Rightarrow> ('db, 'r, bytes option) dm" where
  "encode_element env sch d cells = (\<lambda>(col, expr).
     if expr \<noteq> [] then
       bind_ex (lift (parseStoredExpr env expr)) (\<lambda>node.
         bind_ex (without_sess (eval_row env [] (rowResolver sch (ix_Table d) cells) node)) (\<lambda>v.
           if v_null v then ret None
           else bind_ex (lift (orderEncode (if v_oid v = 0 then OIDText else v_oid v) (v_text v))) (\<lambda>p. ret (Some p))))
     else lift (encode_column sch cells col))"

primrec element_loop :: "('db, 'wb, 'r) xenv \<Rightarrow> tableSchema \<Rightarrow> indexDef \<Rightarrow> Datum list \<Rightarrow> (string \<times> string) list \<Rightarrow> ('db, 'r, bytes option) dm" where
  "element_loop env sch d cells [] = ret (Some [])"
| "element_loop env sch d cells (el # els) =
     bind_ex (encode_element env sch d cells el) (\<lambda>part. case part of
         None \<Rightarrow> ret None
       | Some part \<Rightarrow> bind_ex (element_loop env sch d cells els) (\<lambda>enc. ret (map_option (\<lambda>e. part @ e) enc)))"

definition index_elements :: "indexDef \<Rightarrow> (string \<times> string) list" where
  "index_elements d =
     map (\<lambda>i. (ix_Columns d ! i, if i < length (ix_Exprs d) then ix_Exprs d ! i else [])) [0..<length (ix_Columns d)]"

definition encodeIndexKey :: "('db, 'wb, 'r) xenv \<Rightarrow> tableSchema \<Rightarrow> indexDef \<Rightarrow> Datum list \<Rightarrow> ('db, 'r, bytes option) dm" where
  "encodeIndexKey env sch d cells =
     (if \<not> isExpr d then lift (encodeIndexTuple sch (ix_Columns d) cells)
      else element_loop env sch d cells (index_elements d))"

text \<open>The entry of a row in one index: nothing if the row is outside a partial index or an element is NULL.\<close>

definition index_tuple :: "('db, 'wb, 'r) xenv \<Rightarrow> tableSchema \<Rightarrow> indexDef \<Rightarrow> Datum list \<Rightarrow> ('db, 'r, bytes option) dm" where
  "index_tuple env sch d cells =
     (if ix_Where d \<noteq> [] then
        bind_ex (rowMatchesPartial env sch d cells) (\<lambda>inside. if inside then encodeIndexKey env sch d cells else ret None)
      else encodeIndexKey env sch d cells)"

primrec entries_loop ::
  "('db, 'wb, 'r) xenv \<Rightarrow> session \<Rightarrow> tableSchema \<Rightarrow> Datum list \<Rightarrow> bytes \<Rightarrow> bool \<Rightarrow> indexDef list \<Rightarrow> ('db, 'r, unit) dm" where
  "entries_loop env sess sch cells pk add [] = ret ()"
| "entries_loop env sess sch cells pk add (d # ds) =
     bind_ex (index_tuple env sch d cells) (\<lambda>enc.
       bind_ex (case enc of
           None \<Rightarrow> ret ()
         | Some encTuple \<Rightarrow>
             (let ik = IndexKey (ns_of sess) (Branch sess) (ix_Table d) (ix_Name d) encTuple pk
              in txn_buffer (if add then \<lparr>m_Key = ik, m_Value = pk, m_Delete = False\<rparr> else \<lparr>m_Key = ik, m_Value = [], m_Delete = True\<rparr>))) (\<lambda>_.
         entries_loop env sess sch cells pk add ds))"

definition indexEntries ::
  "('db, 'wb, 'r) xenv \<Rightarrow> session \<Rightarrow> tableSchema \<Rightarrow> indexDef list \<Rightarrow> Datum list \<Rightarrow> Key \<Rightarrow> bool \<Rightarrow> ('db, 'r, unit) dm" where
  "indexEntries env sess sch defs cells rowKey add =
     bind_ex (lift (primaryKeyBytes sch cells rowKey)) (\<lambda>pk. entries_loop env sess sch cells pk add defs)"

definition bytesEqual :: "bytes \<Rightarrow> bytes \<Rightarrow> bool" where
  "bytesEqual a b \<longleftrightarrow> length a = length b \<and> (\<forall>i < length a. a ! i = b ! i)"

lemma bytesEqual_iff [simp]: "bytesEqual a b \<longleftrightarrow> a = b"
  by (auto simp: bytesEqual_def intro: nth_equalityI)

primrec other_pk :: "bytes \<Rightarrow> (Key \<times> bytes res) list \<Rightarrow> bool res" where
  "other_pk pk [] = Inr False"
| "other_pk pk (kv # kvs) = bind_res (snd kv) (\<lambda>entryPK. if \<not> bytesEqual entryPK pk then Inr True else other_pk pk kvs)"

definition indexHasOtherPK :: "('db, 'wb, 'r) xenv \<Rightarrow> session \<Rightarrow> indexDef \<Rightarrow> bytes \<Rightarrow> bytes \<Rightarrow> ('db, 'r, bool) dm" where
  "indexHasOtherPK env sess d encVal pk =
     bind_ex (txn_scan env (IndexValuePrefix (ns_of sess) (Branch sess) (ix_Table d) (ix_Name d) encVal)) (\<lambda>kvs.
       lift (other_pk pk kvs))"

subsection \<open>Choosing an index\<close>

text \<open>A partial index is usable if the caller's test accepts its predicate; without a test it never is.\<close>

definition usable :: "(string \<Rightarrow> bool) option \<Rightarrow> indexDef \<Rightarrow> bool" where
  "usable usePartial d \<longleftrightarrow> \<not> isExpr d \<and> (ix_Where d \<noteq> [] \<longrightarrow> (case usePartial of None \<Rightarrow> False | Some u \<Rightarrow> u (ix_Where d)))"

primrec index_on_loop :: "indexDef list \<Rightarrow> string \<Rightarrow> (string \<Rightarrow> bool) option \<Rightarrow> indexDef option \<Rightarrow> indexDef option" where
  "index_on_loop [] col usePartial leading = leading"
| "index_on_loop (d # ds) col usePartial leading =
     (if \<not> usable usePartial d then index_on_loop ds col usePartial leading
      else case ix_Columns d of
        [] \<Rightarrow> index_on_loop ds col usePartial leading
      | c # cs \<Rightarrow>
          if cs = [] \<and> equalFold c col then Some d
          else index_on_loop ds col usePartial (if leading = None \<and> equalFold c col then Some d else leading))"

definition findIndexOn :: "indexDef list \<Rightarrow> string \<Rightarrow> (string \<Rightarrow> bool) option \<Rightarrow> indexDef option" where
  "findIndexOn defs col usePartial = index_on_loop defs col usePartial None"

definition better_index :: "string set \<Rightarrow> (string \<Rightarrow> bool) option \<Rightarrow> indexDef \<Rightarrow> indexDef option \<Rightarrow> indexDef option" where
  "better_index eqCols usePartial d best =
     (if usable usePartial d \<and> ix_Columns d \<noteq> [] \<and> (\<forall>c \<in> set (ix_Columns d). toLower c \<in> eqCols)
         \<and> (case best of None \<Rightarrow> 0 | Some b \<Rightarrow> length (ix_Columns b)) < length (ix_Columns d)
      then Some d else best)"

definition findIndexForEquality :: "indexDef list \<Rightarrow> string set \<Rightarrow> (string \<Rightarrow> bool) option \<Rightarrow> indexDef option" where
  "findIndexForEquality defs eqCols usePartial = fold (better_index eqCols usePartial) defs None"

definition exprMatchesIndex :: "('db, 'wb, 'r) xenv \<Rightarrow> indexDef \<Rightarrow> Node \<Rightarrow> bool" where
  "exprMatchesIndex env d queryExpr \<longleftrightarrow>
     isExpr d \<and>
     (case filter (\<lambda>e. e \<noteq> []) (ix_Exprs d) of
        [idxExpr] \<Rightarrow>
          length (ix_Columns d) = 1 \<and>
          (case deparseExpr queryExpr of
             Inl _ \<Rightarrow> False
           | Inr qTxt \<Rightarrow>
               (case parseStoredExpr env idxExpr of
                  Inl _ \<Rightarrow> False
                | Inr idxNode \<Rightarrow>
                    (case must deparseExpr idxNode of
                       Inl _ \<Rightarrow> False
                     | Inr idxCanon \<Rightarrow> equalFold (trimSpace qTxt) (trimSpace idxCanon))))
      | _ \<Rightarrow> False)"

definition findExprIndexForEquality :: "('db, 'wb, 'r) xenv \<Rightarrow> indexDef list \<Rightarrow> Node \<Rightarrow> indexDef option" where
  "findExprIndexForEquality env defs queryExpr = find (\<lambda>d. ix_Where d = [] \<and> exprMatchesIndex env d queryExpr) defs"

definition isTrueConst :: "Node option \<Rightarrow> bool" where
  "isTrueConst n \<longleftrightarrow> n = Some (A_Const ConstBool ''true'')"

definition booleanEquivForms :: "Node option \<Rightarrow> string \<Rightarrow> string list" where
  "booleanEquivForms n canon = canon # (case n of
     Some (ColumnRef cols) \<Rightarrow> (let col = join_str ''.'' cols in [''('' @ col @ '' = TRUE)'', ''('' @ col @ '' IS TRUE)''])
   | Some (A_Expr kind op lexpr rexpr) \<Rightarrow>
       (if kind = AEXPR_OP \<and> op = ''='' then
          (case (if isTrueConst lexpr then (rexpr, lexpr) else (lexpr, rexpr)) of
             (Some (ColumnRef cols), constNode) \<Rightarrow>
               if isTrueConst constNode
               then let col = join_str ''.'' cols in [col, ''('' @ col @ '' = TRUE)'', ''('' @ col @ '' IS TRUE)''] else []
           | _ \<Rightarrow> [])
        else [])
   | _ \<Rightarrow> [])"

definition conjunct_matches :: "string list \<Rightarrow> Node \<Rightarrow> bool" where
  "conjunct_matches pAlts n =
     (case deparseExpr n of
        Inl _ \<Rightarrow> False
      | Inr ctxt \<Rightarrow> (\<exists>calt \<in> set (booleanEquivForms (Some n) (trimSpace ctxt)). \<exists>alt \<in> set pAlts. equalFold calt alt))"

function and_walk :: "string list \<Rightarrow> Node \<Rightarrow> bool" where
  "and_walk pAlts n = (case n of
     BoolExpr op args \<Rightarrow> if op = AND_EXPR then list_ex (and_walk pAlts) args else conjunct_matches pAlts n
   | _ \<Rightarrow> conjunct_matches pAlts n)"
  by pat_completeness auto
termination
  by (relation "measure (\<lambda>(_, n). size n)") (auto dest: member_size)

definition predicateImplies :: "('db, 'wb, 'r) xenv \<Rightarrow> Node option \<Rightarrow> string \<Rightarrow> bool" where
  "predicateImplies env queryPred partialText =
     (if partialText = [] then True
      else case queryPred of
        None \<Rightarrow> False
      | Some q \<Rightarrow>
          (case parseStoredExpr env partialText of
             Inl _ \<Rightarrow> False
           | Inr pNode \<Rightarrow>
               (case must deparseExpr pNode of
                  Inl _ \<Rightarrow> False
                | Inr pCanon \<Rightarrow> and_walk (booleanEquivForms pNode (trimSpace pCanon)) q)))"

subsection \<open>CREATE INDEX\<close>

definition index_element :: "IndexElem \<Rightarrow> (string \<times> string) res" where
  "index_element el =
     (case ie_Expr el of
        Some e \<Rightarrow> bind_res (deparseExpr e) (\<lambda>txt. Inr ([], txt))
      | None \<Rightarrow> Inr (ie_ColName el, []))"

definition index_columns :: "IndexStmt \<Rightarrow> (string \<times> string) list res" where
  "index_columns s = (if ixs_Elems s \<noteq> [] then map_res index_element (ixs_Elems s) else Inr (map (\<lambda>c. (c, [])) (ixs_Columns s)))"

definition new_index :: "IndexStmt \<Rightarrow> (string \<times> string) list \<Rightarrow> string \<Rightarrow> indexDef" where
  "new_index s els whereTxt = \<lparr>ix_Name = ixs_Name s, ix_Table = ixs_Table s, ix_Columns = map fst els, ix_Unique = ixs_Unique s,
     ix_Exprs = (if \<exists>el \<in> set (ixs_Elems s). ie_Expr el \<noteq> None then map snd els else []), ix_Where = whereTxt\<rparr>"

primrec backfill ::
  "('db, 'wb, 'r) xenv \<Rightarrow> session \<Rightarrow> tableSchema \<Rightarrow> indexDef \<Rightarrow> scanRow list \<Rightarrow> bytes set \<Rightarrow> ('db, 'r, unit) dm" where
  "backfill env sess sch nd [] seen = ret ()"
| "backfill env sess sch nd (r # rs) seen =
     bind_ex (index_tuple env sch nd (sr_cells r)) (\<lambda>enc. case enc of
         None \<Rightarrow> backfill env sess sch nd rs seen
       | Some encTuple \<Rightarrow>
           if ix_Unique nd \<and> encTuple \<in> seen then fail (ExecError ''23505'')
           else bind_ex (lift (primaryKeyBytes sch (sr_cells r) (sr_key r))) (\<lambda>pk.
             bind_ex (txn_buffer \<lparr>m_Key = IndexKey (ns_of sess) (Branch sess) (ix_Table nd) (ix_Name nd) encTuple pk, m_Value = pk, m_Delete = False\<rparr>) (\<lambda>_.
               backfill env sess sch nd rs (insert encTuple seen))))"

definition create_index :: "('db, 'wb, 'r) xenv \<Rightarrow> session \<Rightarrow> IndexStmt \<Rightarrow> (string \<times> string) list \<Rightarrow> ('db, 'r, Result) dm" where
  "create_index env sess s els =
     bind_ex (loadSchema env sess (ixs_Table s)) (\<lambda>sch.
       if \<exists>(col, expr) \<in> set els. expr = [] \<and> col \<noteq> [] \<and> colIndex sch col = None then fail (ExecError ''42703'')
       else bind_ex (lift (case ixs_Where s of None \<Rightarrow> Inr [] | Some w \<Rightarrow> deparseExpr w)) (\<lambda>whereTxt.
         bind_ex (loadIndexes env sess (ixs_Table s)) (\<lambda>defs.
           if \<exists>d \<in> set defs. equalFold (ix_Name d) (ixs_Name s) then fail (ExecError ''42P07'')
           else let nd = new_index s els whereTxt
             in bind_ex (case xe_encIndexes env (defs @ [nd]) of
                    Inl _ \<Rightarrow> fail (ExecError ''XX000'')
                  | Inr bs \<Rightarrow> txn_buffer \<lparr>m_Key = indexListKey sess (ixs_Table s), m_Value = bs, m_Delete = False\<rparr>) (\<lambda>_.
                  bind_ex (scanTable env sess (ixs_Table s) (ixs_Table s)) (\<lambda>sc.
                    bind_ex (backfill env sess sch nd (sc_rows sc) {}) (\<lambda>_.
                      ret \<lparr>r_Columns = [], r_Rows = [], r_Command = ''CREATE INDEX'', r_RowsAffected = 0\<rparr>))))))"

definition execCreateIndex where
  "execCreateIndex env ambient sess s st =
     (case index_columns s of
        Inl e \<Rightarrow> ((fst st, snd st, ambient), Inl e)
      | Inr [] \<Rightarrow> ((fst st, snd st, ambient), Inl (ExecError ''42601''))
      | Inr els \<Rightarrow> in_tx env ambient sess (create_index env sess s els) st)"

subsection \<open>Copy on write\<close>

text \<open>The rows a list of entries holds: what is not a tombstone, decoded.\<close>

definition live_row :: "nat \<Rightarrow> bytes res \<Rightarrow> Datum list option" where
  "live_row n v = (case v of
     Inl _ \<Rightarrow> None
   | Inr bs \<Rightarrow> if IsTombstone bs then None else (case decodeRow bs n of Inl _ \<Rightarrow> None | Inr cells \<Rightarrow> Some cells))"

definition live_rows :: "nat \<Rightarrow> (Key \<times> bytes res) list \<Rightarrow> scanRow list" where
  "live_rows n kvs = List.map_filter (\<lambda>(k, v). map_option (\<lambda>cells. \<lparr>sr_key = k, sr_cells = cells\<rparr>) (live_row n v)) kvs"

text \<open>An entry the scan can read, and what the two loops return on such entries.\<close>

definition readable :: "nat \<Rightarrow> bytes res \<Rightarrow> bool" where
  "readable n v \<longleftrightarrow> (case v of Inl _ \<Rightarrow> False | Inr bs \<Rightarrow> IsTombstone bs \<or> (\<exists>cells. decodeRow bs n = Inr cells))"

lemma live_row_simps [simp]:
  "live_row n (Inl e) = None"
  "live_rows n [] = []"
  "live_rows n (kv # kvs) = (case live_row n (snd kv) of None \<Rightarrow> [] | Some cells \<Rightarrow> [\<lparr>sr_key = fst kv, sr_cells = cells\<rparr>]) @ live_rows n kvs"
  by (simp_all add: live_row_def live_rows_def map_filter_def split: prod.split option.split)

lemma readable_cases:
  assumes "readable n v"
  obtains (tombstone) bs where "v = Inr bs" "IsTombstone bs" "live_row n v = None"
  | (live) bs cells where "v = Inr bs" "\<not> IsTombstone bs" "decodeRow bs n = Inr cells" "live_row n v = Some cells"
  using assms by (auto simp: readable_def live_row_def split: sum.splits)

lemma branch_loop_eq:
  "\<forall>kv \<in> set kvs. readable n (snd kv) \<Longrightarrow>
     branch_loop n p kvs seen = Inr (live_rows n kvs, seen \<union> (\<lambda>kv. keyTail (fst kv) p) ` set kvs)"
proof (induction kvs arbitrary: seen)
  case (Cons kv kvs)
  then have "readable n (snd kv)" by simp
  then show ?case by (cases rule: readable_cases) (use Cons in \<open>simp_all add: bind_res_def Let_def\<close>)
qed simp

lemma parent_loop_eq:
  "(\<forall>kv \<in> set kvs. keyTail (fst kv) p \<notin> seen \<longrightarrow> readable n (snd kv)) \<Longrightarrow>
     parent_loop n p seen kvs = Inr (live_rows n (filter (\<lambda>kv. keyTail (fst kv) p \<notin> seen) kvs))"
proof (induction kvs)
  case (Cons kv kvs)
  show ?case
  proof (cases "keyTail (fst kv) p \<in> seen")
    case False
    with Cons have "readable n (snd kv)" by simp
    then show ?thesis by (cases rule: readable_cases) (use Cons False in \<open>simp_all add: bind_res_def\<close>)
  qed (use Cons in simp)
qed simp

lemma live_rows_keys: "sorted_wrt (<) (map fst kvs) \<Longrightarrow> sorted_wrt (<) (map sr_key (live_rows n kvs))"
proof (induction kvs)
  case (Cons kv kvs)
  have "\<forall>r \<in> set (live_rows n kvs). \<exists>kv \<in> set kvs. sr_key r = fst kv" by (induction kvs) (auto split: option.splits)
  with Cons show ?case by (fastforce split: option.split)
qed simp

lemma live_rows_set: "set (live_rows n kvs) = {\<lparr>sr_key = k, sr_cells = cells\<rparr> | k cells. \<exists>v. (k, v) \<in> set kvs \<and> live_row n v = Some cells}"
  by (induction kvs) (auto split: option.splits)

lemma keyTail_append [simp]: "keyTail (p @ t) p = t"
  by (simp add: keyTail_def)

lemma Begin_db [simp]: "e_db (fst (Begin rc wall e a)) = e_db e"
  by (simp add: Begin_def Let_def split: prod.split)

lemma parent_of_ok: "\<exists>e parent. parent_of env sess branch d = (d\<lparr>d_eng := e\<rparr>, Inr parent) \<and> e_db e = e_db (d_eng d)"
proof -
  obtain e tx where b: "Begin (xe_rc env) (xe_wall env) (d_eng d) (s_Auth sess) = (e, tx)" by fastforce
  then have "e_db e = e_db (d_eng d)" using Begin_db [of "xe_rc env" "xe_wall env" "d_eng d" "s_Auth sess"] by simp
  with b show ?thesis by (auto simp: parent_of_def mgr_metaOf_def split: sum.split)
qed

lemma engine_Get_db: "e_db e = e_db e' \<Longrightarrow> engine_Get bd e t k = engine_Get bd e' t k"
  by (simp add: engine_Get_def split: option.split)

lemma scan_db: "e_db e = e_db e' \<Longrightarrow> engine_NewIterator bd e t p = engine_NewIterator bd e' t p"
  by (simp add: engine_NewIterator_def)

text \<open>A row of a table on a branch, as the transaction sees it: its tail and its cells.\<close>

definition row_on :: "('db, 'wb, 'r) xenv \<Rightarrow> ('db, 'r) dstate \<Rightarrow> session \<Rightarrow> string \<Rightarrow> nat \<Rightarrow> string \<Rightarrow> bytes \<Rightarrow> Datum list option" where
  "row_on env d sess table n branch tail =
     live_row n (engine_Get (xe_bd env) (d_eng d) (d_txn d) (RowPrefix (ns_of sess) branch table @ tail))"

definition absent_on :: "('db, 'wb, 'r) xenv \<Rightarrow> ('db, 'r) dstate \<Rightarrow> session \<Rightarrow> string \<Rightarrow> string \<Rightarrow> bytes \<Rightarrow> bool" where
  "absent_on env d sess table branch tail \<longleftrightarrow>
     engine_Get (xe_bd env) (d_eng d) (d_txn d) (RowPrefix (ns_of sess) branch table @ tail) = Inl ErrKeyNotFound"

lemma live_scan:
  assumes "healthy_badger (xe_bd env) hist wops wts" and "\<not> t_done (d_txn d)"
    and "kvs = it_visit (it_Rewind (engine_NewIterator (xe_bd env) (d_eng d) (d_txn d) (RowPrefix (ns_of sess) branch table)))"
  shows "set (live_rows n (filter (\<lambda>kv. keyTail (fst kv) (RowPrefix (ns_of sess) branch table) \<in> T) kvs))
      = {\<lparr>sr_key = RowPrefix (ns_of sess) branch table @ tail, sr_cells = cells\<rparr> | tail cells.
           tail \<in> T \<and> row_on env d sess table n branch tail = Some cells}"
    and "tail \<in> (\<lambda>kv. keyTail (fst kv) (RowPrefix (ns_of sess) branch table)) ` set kvs \<longleftrightarrow> \<not> absent_on env d sess table branch tail"
proof -
  let ?p = "RowPrefix (ns_of sess) branch table"
  have g: "engine_Get (xe_bd env) (d_eng d) (d_txn d) k =
      (case txn_view (hist (e_db (d_eng d))) (d_txn d) k of Some v \<Rightarrow> Inr v | None \<Rightarrow> Inl ErrKeyNotFound)" for k
    by (rule healthy_badger.engine_Get_view [OF assms(1,2)])
  have m: "(k, x) \<in> set kvs \<longleftrightarrow> prefix ?p k \<and> (\<exists>v. x = Inr v \<and> engine_Get (xe_bd env) (d_eng d) (d_txn d) k = Inr v)" for k x
    unfolding assms(3) healthy_badger.engine_scan_set [OF assms(1)] g by (auto split: option.splits)
  have live: "(k, x) \<in> set kvs \<and> live_row n x = Some cells \<longleftrightarrow>
      (\<exists>t. k = ?p @ t \<and> x = engine_Get (xe_bd env) (d_eng d) (d_txn d) k \<and> row_on env d sess table n branch t = Some cells)" for k x cells
    by (cases x) (auto simp: m row_on_def prefix_def dest: sym)
  show "set (live_rows n (filter (\<lambda>kv. keyTail (fst kv) ?p \<in> T) kvs))
      = {\<lparr>sr_key = ?p @ tail, sr_cells = cells\<rparr> | tail cells. tail \<in> T \<and> row_on env d sess table n branch tail = Some cells}"
    (is "?L = ?R")
  proof
    show "?L \<subseteq> ?R"
    proof
      fix r assume "r \<in> ?L"
      then obtain k x cells where r: "r = \<lparr>sr_key = k, sr_cells = cells\<rparr>" "keyTail k ?p \<in> T" "(k, x) \<in> set kvs \<and> live_row n x = Some cells"
        unfolding live_rows_set by auto
      from r(3)[unfolded live] obtain t where "k = ?p @ t" "row_on env d sess table n branch t = Some cells" by blast
      with r(1,2) show "r \<in> ?R" by auto
    qed
    show "?R \<subseteq> ?L"
    proof
      fix r assume "r \<in> ?R"
      then obtain t cells where r: "r = \<lparr>sr_key = ?p @ t, sr_cells = cells\<rparr>" "t \<in> T" "row_on env d sess table n branch t = Some cells"
        by auto
      from live [of "?p @ t" "engine_Get (xe_bd env) (d_eng d) (d_txn d) (?p @ t)" cells] r(3)
      have "(?p @ t, engine_Get (xe_bd env) (d_eng d) (d_txn d) (?p @ t)) \<in> set kvs"
        "live_row n (engine_Get (xe_bd env) (d_eng d) (d_txn d) (?p @ t)) = Some cells" by auto
      with r(1,2) show "r \<in> ?L" unfolding live_rows_set by fastforce
    qed
  qed
  show "tail \<in> (\<lambda>kv. keyTail (fst kv) ?p) ` set kvs \<longleftrightarrow> \<not> absent_on env d sess table branch tail"
  proof
    assume "tail \<in> (\<lambda>kv. keyTail (fst kv) ?p) ` set kvs"
    then obtain k x where "(k, x) \<in> set kvs" "tail = keyTail k ?p" by auto
    then obtain t where "k = ?p @ t" "tail = t" "engine_Get (xe_bd env) (d_eng d) (d_txn d) k \<noteq> Inl ErrKeyNotFound"
      by (auto simp: m prefix_def)
    then show "\<not> absent_on env d sess table branch tail" by (simp add: absent_on_def)
  next
    assume "\<not> absent_on env d sess table branch tail"
    then obtain v where "engine_Get (xe_bd env) (d_eng d) (d_txn d) (?p @ tail) = Inr v"
      by (auto simp: absent_on_def g split: option.splits)
    then have "(?p @ tail, Inr v) \<in> set kvs" by (simp add: m)
    then show "tail \<in> (\<lambda>kv. keyTail (fst kv) ?p) ` set kvs" by (intro image_eqI [where x = "(?p @ tail, Inr v)"]) simp_all
  qed
qed

definition rows_on :: "('db, 'wb, 'r) xenv \<Rightarrow> ('db, 'r) dstate \<Rightarrow> session \<Rightarrow> string \<Rightarrow> nat \<Rightarrow> string \<Rightarrow> bytes set \<Rightarrow> scanRow set" where
  "rows_on env d sess table n branch T =
     {\<lparr>sr_key = RowPrefix (ns_of sess) branch table @ tail, sr_cells = cells\<rparr> | tail cells.
        tail \<in> T \<and> row_on env d sess table n branch tail = Some cells}"

text \<open>Every stored row of a branch with a tail in T decodes.\<close>

definition rows_decode :: "('db, 'wb, 'r) xenv \<Rightarrow> ('db, 'r) dstate \<Rightarrow> session \<Rightarrow> string \<Rightarrow> nat \<Rightarrow> string \<Rightarrow> bytes set \<Rightarrow> bool" where
  "rows_decode env d sess table n branch T \<longleftrightarrow>
     (\<forall>tail v. tail \<in> T \<and> engine_Get (xe_bd env) (d_eng d) (d_txn d) (RowPrefix (ns_of sess) branch table @ tail) = Inr v
        \<longrightarrow> readable n (Inr v))"

lemma scan_readable:
  assumes "healthy_badger (xe_bd env) hist wops wts" and "\<not> t_done (d_txn d)" and "rows_decode env d sess table n branch T"
    and "kv \<in> set (it_visit (it_Rewind (engine_NewIterator (xe_bd env) (d_eng d) (d_txn d) (RowPrefix (ns_of sess) branch table))))"
    and "keyTail (fst kv) (RowPrefix (ns_of sess) branch table) \<in> T"
  shows "readable n (snd kv)"
proof -
  obtain k x where kv: "kv = (k, x)" by fastforce
  then obtain t v where k: "k = RowPrefix (ns_of sess) branch table @ t" "x = Inr v" "txn_view (hist (e_db (d_eng d))) (d_txn d) k = Some v"
    using assms(4) by (auto simp: healthy_badger.engine_scan_set [OF assms(1)] prefix_def)
  then have "t \<in> T" using assms(5) by (simp add: kv)
  moreover have "engine_Get (xe_bd env) (d_eng d) (d_txn d) (RowPrefix (ns_of sess) branch table @ t) = Inr v"
    using k by (simp add: healthy_badger.engine_Get_view [OF assms(1,2)])
  ultimately have "readable n (Inr v)" using assms(3) unfolding rows_decode_def by blast
  with k show ?thesis by (simp add: kv)
qed

text \<open>
  C7. A scan on a branch is copy-on-write: it returns first the rows the branch holds and then, on a branch other than
  main and a table that is not branch-local, the rows of the parent whose primary key the branch neither holds nor has
  deleted. Each of the two parts is in the order of its keys and without a key twice; the parts are not merged. It
  returns this whenever the schema is there, the stored rows of the branch decode and the rows inherited from the
  parent decode; a row of the parent that the branch replaces need not decode.
\<close>

theorem scan_copy_on_write:
  assumes "healthy_badger (xe_bd env) hist wops wts" and "\<not> t_done (d_txn d)"
    and "resolveSchema env sess table d = (d, Inr sch)"
    and "rows_decode env d sess table (length (ts_Cols sch)) (Branch sess) UNIV"
    and "\<forall>parent. snd (parent_of env sess (Branch sess) d) = Inr parent \<and> Branch sess \<noteq> ''main'' \<and> \<not> branchLocal table
           \<longrightarrow> rows_decode env d sess table (length (ts_Cols sch)) parent {tail. absent_on env d sess table (Branch sess) tail}"
  shows "\<exists>e parent own inherited.
     parent_of env sess (Branch sess) d = (d\<lparr>d_eng := e\<rparr>, Inr parent)
     \<and> snd (scanTable env sess table al d)
         = Inr \<lparr>sc_schema = sch, sc_alias = (if al = [] then table else al), sc_rows = own @ inherited\<rparr>
     \<and> sorted_wrt (<) (map sr_key own) \<and> sorted_wrt (<) (map sr_key inherited)
     \<and> set own = rows_on env d sess table (length (ts_Cols sch)) (Branch sess) UNIV
     \<and> set inherited = (if Branch sess = ''main'' \<or> branchLocal table then {}
          else rows_on env d sess table (length (ts_Cols sch)) parent {tail. absent_on env d sess table (Branch sess) tail})"
proof -
  let ?n = "length (ts_Cols sch)" and ?p = "\<lambda>b. RowPrefix (ns_of sess) b table"
  let ?kvs = "\<lambda>b. it_visit (it_Rewind (engine_NewIterator (xe_bd env) (d_eng d) (d_txn d) (?p b)))"
  have r: "\<forall>kv \<in> set (?kvs (Branch sess)). readable ?n (snd kv)"
    using scan_readable [OF assms(1,2,4)] by simp
  let ?seen = "(\<lambda>kv. keyTail (fst kv) (?p (Branch sess))) ` set (?kvs (Branch sess))"
  have seen: "{t. t \<notin> ?seen} = {tail. absent_on env d sess table (Branch sess) tail}"
    using live_scan(2) [OF assms(1,2) refl, of _ sess "Branch sess" table] by blast
  have bl: "branch_loop ?n (?p (Branch sess)) (?kvs (Branch sess)) {} = Inr (live_rows ?n (?kvs (Branch sess)), ?seen)"
    by (simp add: branch_loop_eq [OF r])
  have own: "set (live_rows ?n (?kvs (Branch sess))) = rows_on env d sess table ?n (Branch sess) UNIV"
    using live_scan(1) [OF assms(1,2) refl, of ?n sess "Branch sess" table UNIV] by (simp add: rows_on_def)
  have srt: "sorted_wrt (<) (map fst (?kvs b))" for b by (rule healthy_badger.engine_scan_sorted [OF assms(1)])
  obtain e parent where po: "parent_of env sess (Branch sess) d = (d\<lparr>d_eng := e\<rparr>, Inr parent)" and db: "e_db e = e_db (d_eng d)"
    using parent_of_ok by blast
  let ?inh = "live_rows ?n (filter (\<lambda>kv. keyTail (fst kv) (?p parent) \<notin> ?seen) (?kvs parent))"
  have inh: "set ?inh = rows_on env d sess table ?n parent {tail. absent_on env d sess table (Branch sess) tail}"
    using live_scan(1) [OF assms(1,2) refl, of ?n sess parent table "{t. t \<notin> ?seen}"] unfolding seen [symmetric] rows_on_def by simp
  have pr: "\<forall>kv \<in> set (?kvs parent). keyTail (fst kv) (?p parent) \<notin> ?seen \<longrightarrow> readable ?n (snd kv)"
    if "\<not> (Branch sess = ''main'' \<or> branchLocal table)"
  proof (intro ballI impI)
    fix kv assume "kv \<in> set (?kvs parent)" "keyTail (fst kv) (?p parent) \<notin> ?seen"
    moreover from that have "rows_decode env d sess table ?n parent {t. t \<notin> ?seen}" using assms(5) po unfolding seen by simp
    ultimately show "readable ?n (snd kv)" by (intro scan_readable [OF assms(1,2)]) (assumption | rule CollectI)+
  qed
  have psrt: "sorted_wrt (<) (map fst (filter P (?kvs parent)))" for P
    using srt [of parent] by (simp add: sorted_wrt_map sorted_wrt_filter)
  show ?thesis
  proof (cases "Branch sess = ''main'' \<or> branchLocal table")
    case True
    then have "snd (scanTable env sess table al d)
        = Inr \<lparr>sc_schema = sch, sc_alias = (if al = [] then table else al), sc_rows = live_rows ?n (?kvs (Branch sess)) @ []\<rparr>"
      by (auto simp: scanTable_def bind_ex_def assms(3) txn_scan_def Let_def lift_def bl ret_def)
    with True po own live_rows_keys [OF srt, of ?n "Branch sess"] show ?thesis
      by (intro exI conjI) (assumption | simp)+
  next
    case False
    then have "snd (scanTable env sess table al d)
        = Inr \<lparr>sc_schema = sch, sc_alias = (if al = [] then table else al), sc_rows = live_rows ?n (?kvs (Branch sess)) @ ?inh\<rparr>"
      by (simp add: scanTable_def bind_ex_def assms(3) txn_scan_def Let_def lift_def bl ret_def po scan_db [OF db] parent_loop_eq [OF pr [OF False]])
    with False po own inh live_rows_keys [OF srt, of ?n "Branch sess"] live_rows_keys [OF psrt, of ?n] show ?thesis
      by (intro exI conjI) (assumption | simp)+
  qed
qed

definition branch_db :: mem_db where
  "branch_db =
     (let p = (\<lambda>b. RowPrefix (NamespaceID ''acme'') b ''t'')
      in [((SchemaKey (NamespaceID ''acme'') ''t'', 1), Some (utoa 0)),
          ((p ''main'' @ ''1'', 1), Some (encodeRow [text_datum ''a''])), ((p ''main'' @ ''2'', 1), Some (encodeRow [text_datum ''b''])),
          ((p ''dev'' @ ''1'', 1), Some [RowTagTombstone])])"

definition branch_session :: session where
  "branch_session = (demo_session ''acme'')\<lparr>s_params := [''branch'' \<mapsto> ''dev'']\<rparr>"

definition branch_env :: "(mem_db, mem_wb, unit) xenv" where
  "branch_env = demo_env [] [plain_table ''t'' [(''name'', OIDText)]]"

lemma branch_get:
  "engine_Get mem_badger (d_eng (demo_state None branch_db)) (d_txn (demo_state None branch_db)) k =
     (case map_of (map (\<lambda>((k, t), v). (k, the v)) branch_db) k of Some v \<Rightarrow> Inr v | None \<Rightarrow> Inl ErrKeyNotFound)"
proof -
  let ?e = "engine_New mem_badger branch_db () 1"
  have "e_clock ?e = 1" "e_db ?e = branch_db" by (simp_all add: engine_New_def branch_db_def Let_def)
  then show ?thesis
    by (simp add: demo_state_def Begin_single mem.engine_Get_view mem_visible mem_newest_def mem_versions_def)
      (auto simp: branch_db_def Let_def)
qed

lemma branch_rows:
  "decodeRow (encodeRow [text_datum ''a'']) 1 = Inr [text_datum ''a'']" "\<not> IsTombstone (encodeRow [text_datum ''a''])"
  "decodeRow (encodeRow [text_datum ''b'']) 1 = Inr [text_datum ''b'']" "\<not> IsTombstone (encodeRow [text_datum ''b''])"
  "IsTombstone [RowTagTombstone]"
  by code_simp+

lemma RowPrefix_not_Schema: "RowPrefix (NamespaceID ns) b t @ tail \<noteq> SchemaKey (NamespaceID ns) t'"
  by (simp add: RowPrefix_alt SchemaKey_def appendStr_def nsRoot_def branchSegment_def)

lemma schema_get:
  "engine_Get mem_badger (d_eng (demo_state None branch_db)) (d_txn (demo_state None branch_db)) (SchemaKey (NamespaceID ''acme'') ''t'')
     = Inr (utoa 0)"
  "xe_decSchema branch_env (utoa 0) = Inr (plain_table ''t'' [(''name'', OIDText)])"
  unfolding branch_get by (simp_all add: branch_db_def Let_def branch_env_def demo_env_def find_index_def)

lemma branch_parent: "snd (parent_of branch_env branch_session ''dev'' (demo_state None branch_db)) = Inr ''main''"
proof -
  let ?d = "demo_state None branch_db" and ?a = "s_Auth branch_session"
  have "visible (mem_hist branch_db) r (BranchMetaKey (as_Namespace ?a) ''dev'') = None" for r
    by (simp add: mem_visible mem_newest_def mem_versions_def branch_db_def Let_def branch_session_def demo_session_def session_New_def
        BranchMetaKey_def SchemaKey_def RowPrefix_alt appendStr_def nsRoot_def branchSegment_def)
  moreover have "e_db (d_eng ?d) = branch_db" by (simp add: demo_state_def engine_New_def Let_def)
  moreover obtain h where "mgr_metaOf mem_badger None 7 (d_eng ?d) ?a ''dev'' = ((d_eng ?d)\<lparr>e_hlc := h\<rparr>,
      case visible (mem_hist (e_db (d_eng ?d))) (e_clock (d_eng ?d)) (BranchMetaKey (as_Namespace ?a) ''dev'') of
        None \<Rightarrow> Inl ErrKeyNotFound | Some mb \<Rightarrow> decodeMeta mb)"
    using mem.metaOf_eq by blast
  ultimately show ?thesis by (simp add: parent_of_def branch_env_def demo_env_def)
qed

theorem scan_copy_on_write_witness:
  "\<exists>sc. snd (scanTable branch_env branch_session ''t'' [] (demo_state None branch_db)) = Inr sc
     \<and> set (sc_rows sc) = {\<lparr>sr_key = RowPrefix (NamespaceID ''acme'') ''main'' ''t'' @ ''2'', sr_cells = [text_datum ''b'']\<rparr>}"
proof -
  let ?d = "demo_state None branch_db" and ?p = "\<lambda>b. RowPrefix (NamespaceID ''acme'') b ''t''"
  let ?sch = "plain_table ''t'' [(''name'', OIDText)]"
  have s: "ns_of branch_session = NamespaceID ''acme''" "Branch branch_session = ''dev''" "xe_bd branch_env = mem_badger"
    by (simp_all add: branch_session_def demo_session_def session_New_def ns_of_def Branch_def branch_env_def demo_env_def)
  have n: "length (ts_Cols ?sch) = 1" by (simp add: plain_table_def)
  have o: "\<not> t_done (d_txn ?d)" by (simp add: demo_state_def Begin_single)
  have get: "engine_Get mem_badger (d_eng ?d) (d_txn ?d) (?p b @ tail) =
      (if ?p b @ tail = ?p ''main'' @ ''1'' then Inr (encodeRow [text_datum ''a''])
       else if ?p b @ tail = ?p ''main'' @ ''2'' then Inr (encodeRow [text_datum ''b''])
       else if ?p b @ tail = ?p ''dev'' @ ''1'' then Inr [RowTagTombstone] else Inl ErrKeyNotFound)" for b tail
    unfolding branch_get by (simp add: branch_db_def Let_def RowPrefix_not_Schema)
  have sch: "resolveSchema branch_env branch_session ''t'' ?d = (?d, Inr ?sch)"
    by (simp add: resolveSchema_def loadSchema_def s schema_get OTelSpansTable_def)
  have r: "rows_decode branch_env ?d branch_session ''t'' 1 b T" for b T
    using branch_rows unfolding rows_decode_def s get by (auto simp: readable_def split: if_splits)
  have ne: "?p ''dev'' @ t \<noteq> ?p ''main'' @ t'" for t t' by (simp add: RowPrefix_alt branchSegment_def)
  obtain parent own inherited where
    po: "snd (parent_of branch_env branch_session ''dev'' ?d) = Inr parent"
    and sc: "snd (scanTable branch_env branch_session ''t'' [] ?d) = Inr \<lparr>sc_schema = ?sch, sc_alias = ''t'', sc_rows = own @ inherited\<rparr>"
    and own: "set own = rows_on branch_env ?d branch_session ''t'' 1 ''dev'' UNIV"
    and inh: "set inherited = rows_on branch_env ?d branch_session ''t'' 1 parent {tail. absent_on branch_env ?d branch_session ''t'' ''dev'' tail}"
    using scan_copy_on_write [of branch_env mem_hist snd fst ?d branch_session "''t''" ?sch "[]", unfolded s n, OF mem.healthy_badger_axioms o sch r] r
    by (auto simp: branchLocal_def OTelSpansTable_def)
  have parent: "parent = ''main''" using po by (simp add: branch_parent)
  have "rows_on branch_env ?d branch_session ''t'' 1 ''dev'' UNIV = {}"
    unfolding rows_on_def row_on_def s get using branch_rows ne by (auto simp: live_row_def split: if_splits)
  moreover have "absent_on branch_env ?d branch_session ''t'' ''dev'' tail \<longleftrightarrow> tail \<noteq> ''1''" for tail
    unfolding absent_on_def s get using ne by auto
  then have "rows_on branch_env ?d branch_session ''t'' 1 ''main'' {tail. absent_on branch_env ?d branch_session ''t'' ''dev'' tail}
      = {\<lparr>sr_key = ?p ''main'' @ ''2'', sr_cells = [text_datum ''b'']\<rparr>}"
    unfolding rows_on_def row_on_def s get using branch_rows ne [symmetric] by (auto simp: live_row_def split: if_splits)
  ultimately show ?thesis using sc own inh by (simp add: parent)
qed

subsection \<open>Partial indexes and letter case\<close>

definition eq_const :: "string \<Rightarrow> string \<Rightarrow> Node" where
  "eq_const col v = A_Expr AEXPR_OP ''='' (Some (ColumnRef [col])) (Some (str v))"

lemma toLower_quoted: "toLower (replaceAll s [CHR 0x27] [CHR 0x27, CHR 0x27]) = replaceAll (toLower s) [CHR 0x27] [CHR 0x27, CHR 0x27]"
proof -
  have q: "ascii_lower CHR 0x27 = CHR 0x27" by code_simp
  have "ascii_lower d = CHR 0x27 \<longleftrightarrow> d = CHR 0x27" for d
  proof
    assume "ascii_lower d = CHR 0x27"
    moreover have "\<forall>d. ascii_lower d = CHR 0x27 \<longrightarrow> d = CHR 0x27" by code_simp
    ultimately show "d = CHR 0x27" by blast
  qed (simp add: q)
  then show ?thesis by (induction s) (simp_all add: replaceAll_byte toLower_def)
qed

definition eq_text :: "string \<Rightarrow> string \<Rightarrow> string" where
  "eq_text col v = ''('' @ (col @ '' = '' @ CHR 0x27 # replaceAll v [CHR 0x27] [CHR 0x27, CHR 0x27] @ [CHR 0x27]) @ '')''"

lemma deparse_eq_const: "deparseExpr (eq_const col v) = Inr (eq_text col v)"
  by (simp add: eq_text_def eq_const_def str_def deparseExpr.simps deparse_const_def must_def opt_res_def bind_res_def join_str_def)

lemma eval_eq_const:
  assumes "ordinary L col" and "ev_resolveCol ev = Some resolve" and "resolve [col] = Inr x"
  shows "eval L ev (eq_const col v) st = (st, Inr (if v_null x then null_val OIDBool else boolValue (v_text x = v)))"
proof -
  have q: "quantified ''='' (Some (str v)) = None" by (simp add: quantified_def str_def)
  have c: "eval L ev (str v) st = (st, Inr (val v OIDText))" by (simp add: str_def eval.simps eval_step_def evalConst_def ret_def)
  have "\<not> isNumericOID OIDText" by code_simp
  then have "compare L ''='' x (val v OIDText) = Inr (boolValue (v_text x = v))"
    by (auto simp: compare_def cmp_values_def string_cmp_def boolValue_def Let_def)
  then show ?thesis
    by (subst eval.simps)
      (simp add: eq_const_def eval_step_def evalAExpr_def q row_operands_def eval_two_def eval_opt_def ex_defs
        eval_column [where resolve = resolve, OF assms] c binary_op_def is_comparison_def)
qed

lemma trimSpace_parens: "trimSpace (''('' @ s @ '')'') = ''('' @ s @ '')''"
  by (simp add: trimSpace_def is_space_def)

text \<open>
  C39. A partial index is used for queries whose answers are not in it. Implication of predicates compares their text
  without regard to letter case, also inside literals. For an index with the predicate \<open>col = v\<close> and a query
  \<open>col = w\<close>, where v and w differ in case only, the index counts as usable; a row with the value w satisfies the query
  but has no entry in the index.
\<close>

theorem predicate_implies_ignores_case:
  assumes "parseStoredExpr env (ix_Where ix) = Inr (Some (eq_const col v))" and "ix_Where ix \<noteq> []"
    and "equalFold v w" and "v \<noteq> w" and "ordinary (xe_L env) col"
    and "colIndex sch col = Some i" and "i < length cells" and "cells ! i = text_datum w"
  shows "predicateImplies env (Some (eq_const col w)) (ix_Where ix)
     \<and> eval_row env [] (rowResolver sch (ix_Table ix) cells) (Some (eq_const col w)) st = (st, Inr (boolValue True))
     \<and> index_tuple env sch ix cells d = (d, Inr None)"
proof (intro conjI)
  let ?q = "eq_text col"
  let ?r = "rowResolver sch (ix_Table ix) cells"
  have trim: "trimSpace (?q u) = ?q u" for u
    unfolding eq_text_def by (rule trimSpace_parens)
  have "toLower (?q w) = toLower (?q v)"
    using assms(3) toLower_quoted [of v] toLower_quoted [of w] by (simp add: eq_text_def equalFold_def toLower_def)
  then have fold: "equalFold (?q w) (?q v)" by (simp add: equalFold_def)
  have "booleanEquivForms (Some (eq_const col u)) t = [t]" for u t
    by (simp add: booleanEquivForms_def eq_const_def str_def isTrueConst_def)
  then have "conjunct_matches (booleanEquivForms (Some (eq_const col v)) (trimSpace (?q v))) (eq_const col w)"
    using fold by (simp add: conjunct_matches_def deparse_eq_const trim)
  then have "and_walk (booleanEquivForms (Some (eq_const col v)) (trimSpace (?q v))) (eq_const col w)"
    by (subst and_walk.simps) (simp add: eq_const_def)
  then show "predicateImplies env (Some (eq_const col w)) (ix_Where ix)"
    using assms(1,2) by (simp add: predicateImplies_def must_def deparse_eq_const)
  have res: "?r [col] = Inr \<lparr>v_null = False, v_text = w, v_oid = cm_TypeOID (ts_Cols sch ! i)\<rparr>"
    using assms(6-8) by (simp add: rowResolver_def cell_at_def)
  have ev: "eval_row env [] ?r (Some (eq_const col u)) st' = (st', Inr (boolValue (w = u)))" for u st'
    using eval_eq_const [where resolve = ?r, OF assms(5) _ res, of "row_evaluator [] ?r" u st']
    by (simp add: eval_row_def eval_opt_def row_evaluator_def)
  show "eval_row env [] ?r (Some (eq_const col w)) st = (st, Inr (boolValue True))" using ev [of w st] by simp
  have "without_sess (eval_row env [] ?r (Some (eq_const col v))) d = (d, Inr (boolValue False))"
    using assms(4) by (simp add: without_sess_def ev)
  then show "index_tuple env sch ix cells d = (d, Inr None)"
    using assms(1,2) by (simp add: index_tuple_def rowMatchesPartial_def bind_ex_def lift_def ret_def asBool_def boolValue_def)
qed

definition partial_index :: indexDef where
  "partial_index = \<lparr>ix_Name = ''i'', ix_Table = ''t'', ix_Columns = [''name''], ix_Unique = False, ix_Exprs = [], ix_Where = ''p''\<rparr>"

theorem predicate_implies_ignores_case_witness:
  "predicateImplies (demo_env [(''p'', eq_const ''name'' ''abc'')] []) (Some (eq_const ''name'' ''ABC'')) ''p''
   \<and> index_tuple (demo_env [(''p'', eq_const ''name'' ''abc'')] []) (plain_table ''t'' [(''name'', OIDText)]) partial_index
       [text_datum ''ABC''] (demo_state None []) = (demo_state None [], Inr None)"
proof -
  let ?env = "demo_env [(''p'', eq_const ''name'' ''abc'')] []"
  have "parseStoredExpr ?env (ix_Where partial_index) = Inr (Some (eq_const ''name'' ''abc''))"
    by (simp add: parseStoredExpr_def demo_env_def select_of_def partial_index_def)
  moreover have "ordinary (xe_L ?env) ''name''" by (simp add: demo_env_def) code_simp
  moreover have "equalFold ''abc'' ''ABC''" "colIndex (plain_table ''t'' [(''name'', OIDText)]) ''name'' = Some 0" by code_simp+
  ultimately show ?thesis
    using predicate_implies_ignores_case [of ?env partial_index "''name''" "''abc''" "''ABC''" "plain_table ''t'' [(''name'', OIDText)]" 0
        "[text_datum ''ABC'']" idle "demo_state None []"]
    by (simp add: partial_index_def)
qed

end
