(* ===== verification/Select.thy ===== *)
theory Select
  imports Rls Scan
begin

text \<open>
  The rows of a query (executor/join.go, views.go and the scopes of cte.go): view definitions, materializing a FROM
  item, the binding templates an outer join fills with NULLs, lateral joins, and the first half of execSelectFrom,
  from the choice of an index to the WHERE clause. Projection, aggregation and ordering are not modelled.
\<close>

subsection \<open>Operations of the executor called here\<close>

text \<open>
  What materializing calls outside these files: a whole query (execSelect), the virtual tables of the catalog
  (catalogVirtualTable), functions in FROM (materializeSRF, materializeGenerateSeries), the substitution of outer
  columns into a lateral query (substituteOuterSelect over buildOuterScope, or over an empty scope), a query inside
  an expression, and the part of planIndexScan after its guards.
\<close>

record cteEntry =
  ct_schema :: tableSchema
  ct_rows :: "Datum list list"

type_synonym cteMap = "string \<rightharpoonup> cteEntry"

record ('db, 'r) from_ops =
  fo_execSelect :: "cteMap \<Rightarrow> session \<Rightarrow> Datum list \<Rightarrow> Node SelectStmt \<Rightarrow> ('db, 'r, Result) dm"
  fo_catalog :: "session \<Rightarrow> string \<Rightarrow> string \<Rightarrow> ('db, 'r, (tableSchema \<times> Datum list list) option) dm"
  fo_function :: "Datum list \<Rightarrow> Node FuncCall \<Rightarrow> ('db, 'r, boundRow list) dm"
  fo_substitute :: "boundRow option \<Rightarrow> Node SelectStmt \<Rightarrow> Node SelectStmt"
  fo_runSub :: "cteMap \<Rightarrow> session \<Rightarrow> Datum list \<Rightarrow> Node SelectStmt \<Rightarrow> Result ex"
  fo_indexScan :: "session \<Rightarrow> RangeVar \<Rightarrow> tableSchema \<Rightarrow> indexDef list \<Rightarrow> Node SelectStmt \<Rightarrow> Datum list \<Rightarrow> ('db, 'r, (boundRow list \<times> bool) option) dm"

definition withCTE :: "cteMap \<Rightarrow> string \<Rightarrow> cteEntry \<Rightarrow> cteMap" where
  "withCTE ctes name ent = ctes(name \<mapsto> ent)"

definition lookupCTE :: "cteMap \<Rightarrow> string \<Rightarrow> cteEntry option" where
  "lookupCTE ctes name = ctes name"

definition derived_schema :: "string \<Rightarrow> Column list \<Rightarrow> tableSchema" where
  "derived_schema al cols = plain_table al (map (\<lambda>c. (c_Name c, c_TypeOID c)) cols)"

primrec rename_cols :: "string list \<Rightarrow> colMeta list \<Rightarrow> colMeta list" where
  "rename_cols ns [] = []"
| "rename_cols ns (c # cs) =
     (case ns of [] \<Rightarrow> c # cs | n # ns \<Rightarrow> (if n \<noteq> [] then c\<lparr>cm_Name := n\<rparr> else c) # rename_cols ns cs)"

definition applyCTEColAliases :: "tableSchema \<Rightarrow> string list \<Rightarrow> tableSchema" where
  "applyCTEColAliases sch cols = sch\<lparr>ts_Cols := rename_cols cols (ts_Cols sch)\<rparr>"

text \<open>The CTEs of a WITH clause without RECURSIVE, each in the scope of the earlier ones.\<close>

primrec bindCTEs ::
  "('db, 'r) from_ops \<Rightarrow> session \<Rightarrow> Datum list \<Rightarrow> Node CommonTableExpr list \<Rightarrow> cteMap \<Rightarrow> ('db, 'r, cteMap) dm" where
  "bindCTEs F sess params [] ctes = ret ctes"
| "bindCTEs F sess params (c # cs) ctes =
     (case cte_Query c of
        Some (N_SelectStmt sel) \<Rightarrow>
          bind_ex (fo_execSelect F ctes sess params sel) (\<lambda>res.
            bindCTEs F sess params cs (withCTE ctes (cte_Name c)
              \<lparr>ct_schema = applyCTEColAliases (derived_schema (cte_Name c) (r_Columns res)) (cte_Cols c), ct_rows = r_Rows res\<rparr>))
      | _ \<Rightarrow> fail (ExecError ''0A000''))"

subsection \<open>Views\<close>

definition viewKey :: "session \<Rightarrow> string \<Rightarrow> Key" where
  "viewKey sess name = SchemaKey (ns_of sess) (''#view#'' @ name)"

definition loadViewSQL :: "('db, 'wb, 'r) xenv \<Rightarrow> session \<Rightarrow> string \<Rightarrow> ('db, 'r, string option) dm" where
  "loadViewSQL env sess name d =
     (d, case engine_Get (xe_bd env) (d_eng d) (d_txn d) (viewKey sess name) of
           Inl err \<Rightarrow> if err = ErrKeyNotFound then Inr None else Inl err
         | Inr bs \<Rightarrow> Inr (Some bs))"

definition bind_rows :: "string \<Rightarrow> tableSchema \<Rightarrow> Datum list list \<Rightarrow> boundRow list" where
  "bind_rows al sch rows = map (\<lambda>cells. [\<lparr>b_alias = al, b_schema = sch, b_cells = cells\<rparr>]) rows"

definition materializeDerived ::
  "('db, 'r) from_ops \<Rightarrow> cteMap \<Rightarrow> session \<Rightarrow> string \<Rightarrow> Datum list \<Rightarrow> Node SelectStmt \<Rightarrow> ('db, 'r, boundRow list) dm" where
  "materializeDerived F ctes sess al params sel =
     bind_ex (fo_execSelect F ctes sess params sel) (\<lambda>res. ret (bind_rows al (derived_schema al (r_Columns res)) (r_Rows res)))"

definition materializeView ::
  "('db, 'r) from_ops \<Rightarrow> ('db, 'wb, 'r) xenv \<Rightarrow> cteMap \<Rightarrow> session \<Rightarrow> string \<Rightarrow> string \<Rightarrow> ('db, 'r, boundRow list) dm" where
  "materializeView F env ctes sess al sql =
     (case xe_Parse env sql of
        Inr (S_Node (N_SelectStmt sel)) \<Rightarrow> materializeDerived F ctes sess al [] sel
      | _ \<Rightarrow> fail (ExecError ''XX000''))"

text \<open>
  CREATE VIEW and DROP VIEW inside their transaction. A view is refused if a schema of its name can be loaded, also
  with OR REPLACE. The statement always has a relation.
\<close>

definition create_view :: "('db, 'wb, 'r) xenv \<Rightarrow> session \<Rightarrow> string \<Rightarrow> bool \<Rightarrow> string \<Rightarrow> ('db, 'r, Result) dm" where
  "create_view env sess name replace sql d =
     (case loadSchema env sess name d of
        (d, Inr _) \<Rightarrow> (d, Inl (ExecError ''42P07''))
      | (d, Inl _) \<Rightarrow>
          bind_ex (if replace then ret () else bind_ex (loadViewSQL env sess name) (\<lambda>old.
              if old \<noteq> None then fail (ExecError ''42P07'') else ret ())) (\<lambda>_.
            bind_ex (txn_buffer \<lparr>m_Key = viewKey sess name, m_Value = sql, m_Delete = False\<rparr>) (\<lambda>_.
              ret (command_result ''CREATE VIEW'' 0))) d)"

definition view_sql :: "('db, 'wb, 'r) xenv \<Rightarrow> CreateViewStmt \<Rightarrow> string res" where
  "view_sql env c =
     (case cvs_Query c of
        Some (N_SelectStmt sel) \<Rightarrow>
          bind_res (deparseSelect sel) (\<lambda>sql. case xe_Parse env sql of Inl _ \<Rightarrow> Inl (ExecError ''XX000'') | Inr _ \<Rightarrow> Inr sql)
      | _ \<Rightarrow> Inl (ExecError ''0A000''))"

definition execCreateView where
  "execCreateView env ambient sess c st =
     (case cvs_Relation c of
        None \<Rightarrow> ((fst st, snd st, ambient), Inl nil_panic)
      | Some rel \<Rightarrow> (case view_sql env c of
            Inl e \<Rightarrow> ((fst st, snd st, ambient), Inl e)
          | Inr sql \<Rightarrow> in_tx env ambient sess (create_view env sess (rv_RelName rel) (cvs_Replace c) sql) st))"

definition drop_view :: "('db, 'wb, 'r) xenv \<Rightarrow> session \<Rightarrow> DropStmt \<Rightarrow> ('db, 'r, Result) dm" where
  "drop_view env sess s =
     bind_ex (loadViewSQL env sess (drs_Table s)) (\<lambda>old. case old of
         None \<Rightarrow> if drs_IfExists s then ret (command_result ''DROP VIEW'' 0) else fail (ExecError ''42P01'')
       | Some _ \<Rightarrow> bind_ex (txn_buffer \<lparr>m_Key = viewKey sess (drs_Table s), m_Value = [], m_Delete = True\<rparr>) (\<lambda>_.
           ret (command_result ''DROP VIEW'' 0)))"

definition execDropView where
  "execDropView env ambient sess s = in_tx env ambient sess (drop_view env sess s)"

subsection \<open>FROM items\<close>

text \<open>A binding without cells.\<close>

definition shape :: "string \<Rightarrow> tableSchema \<Rightarrow> boundRow" where
  "shape al sch = [\<lparr>b_alias = al, b_schema = sch, b_cells = []\<rparr>]"

definition rel_alias :: "RangeVar \<Rightarrow> string" where
  "rel_alias rv =
     (case rv_Alias rv of None \<Rightarrow> rv_RelName rv | Some a \<Rightarrow> if al_AliasName a \<noteq> [] then al_AliasName a else rv_RelName rv)"

definition alias_or_empty :: "Alias option \<Rightarrow> string" where
  "alias_or_empty al = (case al of None \<Rightarrow> [] | Some a \<Rightarrow> al_AliasName a)"

definition schemasToTry :: "RangeVar \<Rightarrow> string list" where
  "schemasToTry rv = (if rv_SchemaName rv = [] then [''pg_catalog'', ''information_schema''] else [rv_SchemaName rv])"

primrec catalog_lookup ::
  "('db, 'r) from_ops \<Rightarrow> session \<Rightarrow> string \<Rightarrow> string list \<Rightarrow> ('db, 'r, (tableSchema \<times> Datum list list) option) dm" where
  "catalog_lookup F sess rel [] = ret None"
| "catalog_lookup F sess rel (scn # scns) =
     (if scn = [] then catalog_lookup F sess rel scns
      else bind_ex (fo_catalog F sess scn rel) (\<lambda>found.
        if found \<noteq> None then ret found else catalog_lookup F sess rel scns))"

text \<open>A relation that is neither a CTE nor a view.\<close>

definition from_stored ::
  "('db, 'r) from_ops \<Rightarrow> ('db, 'wb, 'r) xenv \<Rightarrow> session \<Rightarrow> RangeVar \<Rightarrow> ('db, 'r, boundRow list) dm" where
  "from_stored F env sess rv =
     bind_ex (catalog_lookup F sess (rv_RelName rv) (schemasToTry rv)) (\<lambda>found. case found of
         Some (sch, rows) \<Rightarrow> ret (bind_rows (rel_alias rv) sch rows)
       | None \<Rightarrow> bind_ex (scanTable env sess (rv_RelName rv) (rel_alias rv)) (\<lambda>sc.
           ret (bind_rows (sc_alias sc) (sc_schema sc) (map sr_cells (sc_rows sc)))))"

definition from_relation ::
  "('db, 'r) from_ops \<Rightarrow> ('db, 'wb, 'r) xenv \<Rightarrow> cteMap \<Rightarrow> session \<Rightarrow> RangeVar \<Rightarrow> ('db, 'r, boundRow list) dm" where
  "from_relation F env ctes sess rv =
     (if rv_SchemaName rv \<noteq> [] then from_stored F env sess rv
      else case lookupCTE ctes (rv_RelName rv) of
        Some ent \<Rightarrow> ret (bind_rows (rel_alias rv) (ct_schema ent) (ct_rows ent))
      | None \<Rightarrow> bind_ex (loadViewSQL env sess (rv_RelName rv)) (\<lambda>view. case view of
            Some sql \<Rightarrow> materializeView F env ctes sess (rel_alias rv) sql
          | None \<Rightarrow> from_stored F env sess rv))"

definition template_relation ::
  "('db, 'r) from_ops \<Rightarrow> ('db, 'wb, 'r) xenv \<Rightarrow> cteMap \<Rightarrow> session \<Rightarrow> RangeVar \<Rightarrow> ('db, 'r, boundRow) dm" where
  "template_relation F env ctes sess rv =
     (let template = (\<lambda>sch. ret (shape (rel_alias rv) sch))
      in case (if rv_SchemaName rv = [] then lookupCTE ctes (rv_RelName rv) else None) of
        Some ent \<Rightarrow> template (ct_schema ent)
      | None \<Rightarrow> bind_ex (catalog_lookup F sess (rv_RelName rv) (schemasToTry rv)) (\<lambda>found. case found of
            Some (sch, _) \<Rightarrow> template sch
          | None \<Rightarrow> bind_ex (resolveSchema env sess (rv_RelName rv)) template))"

definition template_derived :: "('db, 'r) from_ops \<Rightarrow> cteMap \<Rightarrow> session \<Rightarrow> Alias option \<Rightarrow> Node option \<Rightarrow> ('db, 'r, boundRow) dm" where
  "template_derived F ctes sess al sub =
     (case sub of
        Some (N_SelectStmt sel) \<Rightarrow> bind_ex (fo_execSelect F ctes sess [] sel) (\<lambda>res.
          ret (shape (alias_or_empty al) (derived_schema (alias_or_empty al) (r_Columns res))))
      | _ \<Rightarrow> fail (ExecError ''0A000''))"

definition template_func :: "Node FuncCall \<Rightarrow> boundRow" where
  "template_func f =
     (let fname = toLower (join_str ''.'' (fc_FuncName f));
          (al, col) = (case fc_Alias f of
             None \<Rightarrow> (fname, fname)
           | Some a \<Rightarrow> if al_AliasName a = [] then (fname, fname)
                       else (al_AliasName a, case al_ColNames a of [] \<Rightarrow> fname | c # _ \<Rightarrow> c))
      in shape al (plain_table al [(col, OIDInt8)]))"

function bindingTemplate ::
  "('db, 'r) from_ops \<Rightarrow> ('db, 'wb, 'r) xenv \<Rightarrow> cteMap \<Rightarrow> session \<Rightarrow> Node \<Rightarrow> ('db, 'r, boundRow) dm" where
  "bindingTemplate F env ctes sess n = (case n of
     N_RangeVar rv \<Rightarrow> template_relation F env ctes sess rv
   | SubLink sub al _ \<Rightarrow> template_derived F ctes sess al sub
   | RangeSubselect sub al _ \<Rightarrow> template_derived F ctes sess al sub
   | N_JoinExpr j \<Rightarrow>
       bind_ex (case je_Larg j of None \<Rightarrow> fail (ExecError ''0A000'') | Some n \<Rightarrow> bindingTemplate F env ctes sess n) (\<lambda>l.
         bind_ex (case je_Rarg j of None \<Rightarrow> fail (ExecError ''0A000'') | Some n \<Rightarrow> bindingTemplate F env ctes sess n) (\<lambda>r.
           ret (l @ r)))
   | N_FuncCall f \<Rightarrow> ret (template_func f)
   | _ \<Rightarrow> fail (ExecError ''0A000''))"
  by pat_completeness auto
termination
  by (relation "measure (\<lambda>(_, _, _, _, n). size n)") (auto dest: join_parts)

declare bindingTemplate.simps [simp del]

definition template where
  "template F env ctes sess n = (case n of None \<Rightarrow> fail (ExecError ''0A000'') | Some n \<Rightarrow> bindingTemplate F env ctes sess n)"

lemma join_size:
  "size_option size (je_Larg j) < Suc (Suc (size_JoinExpr size j))" "size_option size (je_Rarg j) < Suc (Suc (size_JoinExpr size j))"
  by (cases j; auto)+

text \<open>
  A lateral right side is run once for each left row. The template for the rows without a partner comes from a trial
  run for the first left row; if that fails, such rows are left out.
\<close>

definition attempt :: "('s, 'a) sm \<Rightarrow> ('s, 'a option) sm" where
  "attempt m s = (case m s of (s, Inl _) \<Rightarrow> (s, Inr None) | (s, Inr x) \<Rightarrow> (s, Inr (Some x)))"

primrec lateral_loop ::
  "(boundRow \<Rightarrow> ('s, bool) sm) \<Rightarrow> (boundRow \<Rightarrow> ('s, boundRow list) sm) \<Rightarrow> boundRow option \<Rightarrow> boundRow list \<Rightarrow> ('s, boundRow list) sm" where
  "lateral_loop M run rightTmpl [] = ret []"
| "lateral_loop M run rightTmpl (l # ls) =
     bind_ex (run l) (\<lambda>right.
       bind_ex (probe M (\<lambda>r. l @ r) right) (\<lambda>(hits, matched).
         bind_ex (lateral_loop M run rightTmpl ls) (\<lambda>out.
           ret (hits @ (case rightTmpl of Some t \<Rightarrow> if True \<in> set matched then [] else [l @ nullFill t] | None \<Rightarrow> []) @ out))))"

definition materializeLateralJoin ::
  "('db, 'r) from_ops \<Rightarrow> ('db, 'wb, 'r) xenv \<Rightarrow> cteMap \<Rightarrow> session \<Rightarrow> Datum list \<Rightarrow> Node JoinExpr \<Rightarrow> Node option \<Rightarrow> Alias option
     \<Rightarrow> boundRow list \<Rightarrow> ('db, 'r, boundRow list) dm" where
  "materializeLateralJoin F env ctes sess params j sub al left =
     (case sub of
        Some (N_SelectStmt sel) \<Rightarrow>
          (let al = alias_or_empty al
           in bind_ex (if je_JoinType j = JOIN_LEFT \<or> je_JoinType j = JOIN_FULL
                then bind_ex (attempt (fo_execSelect F ctes sess params (fo_substitute F (case left of [] \<Rightarrow> None | l # _ \<Rightarrow> Some l) sel)))
                  (\<lambda>res. ret (map_option (\<lambda>res. shape al (derived_schema al (r_Columns res))) res))
                else ret None) (\<lambda>rightTmpl.
              lateral_loop (joinMatch env params j) (\<lambda>l. materializeDerived F ctes sess al params (fo_substitute F (Some l) sel)) rightTmpl left))
      | _ \<Rightarrow> fail (ExecError ''0A000''))"

definition lateral_arm :: "Node option \<Rightarrow> (Node option \<times> Alias option) option" where
  "lateral_arm n = (case n of Some (RangeSubselect sub al True) \<Rightarrow> Some (sub, al) | _ \<Rightarrow> None)"

function materialize ::
  "('db, 'r) from_ops \<Rightarrow> ('db, 'wb, 'r) xenv \<Rightarrow> cteMap \<Rightarrow> session \<Rightarrow> Datum list \<Rightarrow> Node option \<Rightarrow> ('db, 'r, boundRow list) dm" where
  "materialize F env ctes sess params n = (case n of
     Some (N_RangeVar rv) \<Rightarrow> from_relation F env ctes sess rv
   | Some (N_JoinExpr j) \<Rightarrow>
       bind_ex (materialize F env ctes sess params (je_Larg j)) (\<lambda>left.
         case lateral_arm (je_Rarg j) of
           Some (sub, al) \<Rightarrow> materializeLateralJoin F env ctes sess params j sub al left
         | None \<Rightarrow>
             bind_ex (materialize F env ctes sess params (je_Rarg j)) (\<lambda>right.
               bind_ex (template F env ctes sess (je_Rarg j)) (\<lambda>rightTmpl.
                 bind_ex (template F env ctes sess (je_Larg j)) (\<lambda>leftTmpl.
                   nestedLoopJoin env params j left right leftTmpl rightTmpl))))
   | Some (SubLink (Some (N_SelectStmt sel)) al _) \<Rightarrow> materializeDerived F ctes sess (alias_or_empty al) params sel
   | Some (RangeSubselect (Some (N_SelectStmt sel)) al _) \<Rightarrow> materializeDerived F ctes sess (alias_or_empty al) params sel
   | Some (N_FuncCall f) \<Rightarrow> fo_function F params f
   | _ \<Rightarrow> fail (ExecError ''0A000''))"
  by pat_completeness auto
termination
  by (relation "measure (\<lambda>(_, _, _, _, _, n). size_option size n)") (simp_all add: join_size)

declare materialize.simps [simp del]

subsection \<open>The rows of a query\<close>

definition planIndexScan ::
  "('db, 'r) from_ops \<Rightarrow> ('db, 'wb, 'r) xenv \<Rightarrow> cteMap \<Rightarrow> session \<Rightarrow> Datum list \<Rightarrow> Node SelectStmt \<Rightarrow> ('db, 'r, (boundRow list \<times> bool) option) dm" where
  "planIndexScan F env ctes sess params s =
     (if Branch sess \<noteq> ''main'' then ret None
      else case ss_FromClause s of
        [N_RangeVar rv] \<Rightarrow>
          if rv_RelName rv = OTelSpansTable \<or> lookupCTE ctes (rv_RelName rv) \<noteq> None then ret None
          else bind_ex (attempt (resolveSchema env sess (rv_RelName rv))) (\<lambda>sch. case sch of
              None \<Rightarrow> ret None
            | Some sch \<Rightarrow> bind_ex (loadIndexes env sess (rv_RelName rv)) (\<lambda>defs. fo_indexScan F sess rv sch defs s params))
      | _ \<Rightarrow> ret None)"

definition where_holds ::
  "('db, 'r) from_ops \<Rightarrow> ('db, 'wb, 'r) xenv \<Rightarrow> cteMap \<Rightarrow> session \<Rightarrow> Datum list \<Rightarrow> Node option \<Rightarrow> boundRow \<Rightarrow> ('db, 'r, bool) dm" where
  "where_holds F env ctes sess params cond row =
     (case cond of
        None \<Rightarrow> ret True
      | Some w \<Rightarrow>
          bind_ex (with_sess (eval (xe_L env) ((row_evaluator params (combinedResolver row))\<lparr>ev_runSub := Some (fo_runSub F ctes sess params)\<rparr>) w))
            (\<lambda>v. ret (asBool v)))"

primrec where_loop :: "(boundRow \<Rightarrow> ('s, bool) sm) \<Rightarrow> boundRow list \<Rightarrow> ('s, boundRow list) sm" where
  "where_loop W [] = ret []"
| "where_loop W (row # rows) =
     bind_ex (W row) (\<lambda>keep. bind_ex (where_loop W rows) (\<lambda>kept. ret (if keep then row # kept else kept)))"

text \<open>
  execSelectFrom up to the WHERE clause: the rows it keeps, and whether an index gave them in the order asked for.
\<close>

definition select_rows ::
  "('db, 'r) from_ops \<Rightarrow> ('db, 'wb, 'r) xenv \<Rightarrow> cteMap \<Rightarrow> session \<Rightarrow> Datum list \<Rightarrow> Node SelectStmt \<Rightarrow> ('db, 'r, boundRow list \<times> bool) dm" where
  "select_rows F env ctes sess params s =
     bind_ex (planIndexScan F env ctes sess params s) (\<lambda>scan.
       bind_ex (case scan of
           Some (rows, ordered) \<Rightarrow> ret (rows, ordered)
         | None \<Rightarrow> bind_ex (materialize F env ctes sess params (foldFromList (ss_FromClause s))) (\<lambda>rows. ret (rows, False)))
         (\<lambda>(rows, orderedByIndex).
           bind_ex (applyRLSSelect env (Some sess) params rows) (\<lambda>rows.
             bind_ex (where_loop (where_holds F env ctes sess params (ss_WhereClause s)) rows) (\<lambda>kept.
               ret (kept, orderedByIndex)))))"

subsection \<open>Policies and joins\<close>

lemma where_loop_all: "(\<And>row. row \<in> set rows \<Longrightarrow> W row d = (d, Inr True)) \<Longrightarrow> where_loop W rows d = (d, Inr rows)"
  by (induction rows) (simp_all add: bind_ex_def ret_def)

text \<open>The cells of a row that belong to the tenant, and rows of unprotected tables followed by one of a protected table.\<close>

definition belongs :: "nat \<Rightarrow> string \<Rightarrow> Datum list \<Rightarrow> bool" where
  "belongs i t cells \<longleftrightarrow> \<not> d_Null (cells ! i) \<and> d_Text (cells ! i) = t"

lemma tenant_row:
  assumes "single_policy sch txt" and "parseStoredExpr env txt = Inr (Some (tenant_pred col guc))" and "trimSpace txt \<noteq> []"
    and "ordinary (xe_L env) col" and "colIndex sch col = Some i" and "rlsApplies sch (Some se)"
    and "x_sess (d_x d) = Some se" and "GetSetting se guc = Some t"
    and "\<forall>a \<in> set l. \<not> rlsApplies (b_schema a) (Some se)" and "i < length cells"
  shows "rls_bindings env (Some se) params (l @ [\<lparr>b_alias = al, b_schema = sch, b_cells = cells\<rparr>]) d = (d, Inr (belongs i t cells))"
proof -
  have r: "rowResolver sch al cells [col]
      = Inr \<lparr>v_null = d_Null (cells ! i), v_text = d_Text (cells ! i), v_oid = cm_TypeOID (ts_Cols sch ! i)\<rparr>"
    using assms(5,10) by (simp add: rowResolver_def cell_at_def)
  have "rls_bindings env (Some se) params [\<lparr>b_alias = al, b_schema = sch, b_cells = cells\<rparr>] d = (d, Inr (belongs i t cells))"
    using single_decision(1) [OF assms(1) policy_tenant [where resolve = "rowResolver sch al cells", OF assms(2-4) r assms(7,8)]] assms(6)
    by (auto simp: bind_ex_def ret_def belongs_def)
  moreover have "rls_bindings env (Some se) params (l @ bs) d = rls_bindings env (Some se) params bs d" for bs
    using assms(9) by (induction l) simp_all
  ultimately show ?thesis by simp
qed

lemma null_not_belongs: "i < length cs \<Longrightarrow> \<not> belongs i t (map (\<lambda>_. \<lparr>d_Null = True, d_Text = []\<rparr>) cs)"
  by (simp add: belongs_def)

lemma pairs_bind_rows:
  "filter (\<lambda>row. Q (b_cells (last row))) (pairs_of P l (bind_rows al sch docs)) = pairs_of P l (bind_rows al sch (filter Q docs))"
  by (induction docs) (auto simp: pairs_of_def bind_rows_def)

lemma left_join_visible:
  assumes "colIndex sch col = Some i"
  shows "filter (\<lambda>row. belongs i t (b_cells (last row))) (left_outer P left (bind_rows al sch docs) (shape al sch))
    = concat (map (\<lambda>l. pairs_of P l (bind_rows al sch (filter (belongs i t) docs))) left)"
proof -
  have i: "i < length (ts_Cols sch)" using find_index_Some(1) [OF assms [unfolded colIndex_def]] .
  have "pairs_of P l (bind_rows al sch (filter (belongs i t) docs)) = []" if "\<not> (\<exists>r \<in> set (bind_rows al sch docs). P (l @ r))" for l
    using that by (auto simp: pairs_of_def bind_rows_def filter_empty_conv)
  then show ?thesis
    by (induction left) (auto simp: left_outer_def pairs_bind_rows shape_def nullFill_def null_not_belongs [OF i])
qed

lemma materialize_join:
  assumes "lateral_arm (je_Rarg j) = None" and "materialize F env ctes sess params (je_Larg j) d = (d1, Inr left)"
    and "materialize F env ctes sess params (je_Rarg j) d1 = (d2, Inr right)"
    and "template F env ctes sess (je_Rarg j) d2 = (d3, Inr rt)" and "template F env ctes sess (je_Larg j) d3 = (d4, Inr lt)"
    and "\<forall>l \<in> set left. \<forall>r \<in> set right. joinMatch env params j (l @ r) d4 = (d4, Inr (P (l @ r)))"
  shows "materialize F env ctes sess params (Some (N_JoinExpr j)) d = (d4, Inr (join_spec (je_JoinType j) P left right lt rt))"
  using nestedLoopJoin_spec [OF assms(6), of lt rt] assms(1-5) by (subst materialize.simps) (simp add: bind_ex_def)

lemma select_rows_join:
  assumes "ss_FromClause s = [N_JoinExpr j]" and "ss_WhereClause s = None"
    and "materialize F env ctes sess params (Some (N_JoinExpr j)) d = (d', Inr rows)"
    and "\<And>row. row \<in> set rows \<Longrightarrow> rls_bindings env (Some sess) params row d' = (d', Inr (V row))"
  shows "select_rows F env ctes sess params s d = (d', Inr (filter V rows, False))"
proof -
  have "where_loop (where_holds F env ctes sess params None) (filter V rows) d' = (d', Inr (filter V rows))"
    by (rule where_loop_all) (simp add: where_holds_def ret_def)
  then show ?thesis using applyRLSSelect_pure [where P = V, OF assms(4)] assms(1-3)
    by (simp add: select_rows_def planIndexScan_def foldFromList_def bind_ex_def ret_def)
qed

definition visible_rows :: "string \<Rightarrow> tableSchema \<Rightarrow> nat \<Rightarrow> string \<Rightarrow> Datum list list \<Rightarrow> boundRow list" where
  "visible_rows al sch i t docs = bind_rows al sch (filter (belongs i t) docs)"

lemma join_row_cases:
  assumes "row \<in> set (left_outer P left (bind_rows al sch docs) rt)"
  obtains l cells where "l \<in> set left" and "cells \<in> set docs" and "row = l @ [\<lparr>b_alias = al, b_schema = sch, b_cells = cells\<rparr>]"
    | l where "l \<in> set left" and "row = l @ nullFill rt"
  using assms that by (auto simp: left_outer_def pairs_of_def bind_rows_def split: if_splits)

text \<open>
  C37. Policies are applied after joining, so an outer join loses the rows it should complete. Take a query
  \<open>FROM l LEFT JOIN r ON cond\<close>, where r is a table with a tenant policy and the tables of l have none. The join
  itself is the left join of all rows; the query returns the inner join with the rows of r the tenant may see. A row of
  l that no visible row of r matches belongs to the left join with the visible rows, completed with NULLs, but is
  not in the answer, because the policy judges those NULLs.
\<close>

theorem outer_join_loses_rows:
  assumes "single_policy sch txt" and "parseStoredExpr env txt = Inr (Some (tenant_pred col guc))" and "trimSpace txt \<noteq> []"
    and "ordinary (xe_L env) col" and "colIndex sch col = Some i" and "rlsApplies sch (Some sess)"
    and "x_sess (d_x d4) = Some sess" and "GetSetting sess guc = Some t"
    and "ss_FromClause s = [N_JoinExpr j]" and "ss_WhereClause s = None" and "je_JoinType j = JOIN_LEFT" and "lateral_arm (je_Rarg j) = None"
    and "materialize F env ctes sess params (je_Larg j) d = (d1, Inr left)"
    and "\<forall>l \<in> set left. \<forall>a \<in> set l. \<not> rlsApplies (b_schema a) (Some sess)"
    and "materialize F env ctes sess params (je_Rarg j) d1 = (d2, Inr (bind_rows al sch docs))"
    and "\<forall>cells \<in> set docs. i < length cells"
    and "template F env ctes sess (je_Rarg j) d2 = (d3, Inr (shape al sch))"
    and "template F env ctes sess (je_Larg j) d3 = (d4, Inr lt)"
    and "\<forall>l \<in> set left. \<forall>r \<in> set (bind_rows al sch docs). joinMatch env params j (l @ r) d4 = (d4, Inr (P (l @ r)))"
  shows "materialize F env ctes sess params (Some (N_JoinExpr j)) d = (d4, Inr (join_spec JOIN_LEFT P left (bind_rows al sch docs) lt (shape al sch)))
     \<and> select_rows F env ctes sess params s d = (d4, Inr (join_spec JOIN_INNER P left (visible_rows al sch i t docs) lt (shape al sch), False))
     \<and> (\<forall>l \<in> set left. (\<forall>r \<in> set (visible_rows al sch i t docs). \<not> P (l @ r)) \<longrightarrow>
          l @ nullFill (shape al sch) \<in> set (join_spec JOIN_LEFT P left (visible_rows al sch i t docs) lt (shape al sch))
          \<and> l @ nullFill (shape al sch) \<notin> set (join_spec JOIN_INNER P left (visible_rows al sch i t docs) lt (shape al sch)))"
proof -
  let ?lo = "left_outer P left (bind_rows al sch docs) (shape al sch)"
  have i: "i < length (ts_Cols sch)" using find_index_Some(1) [OF assms(5) [unfolded colIndex_def]] .
  have m: "materialize F env ctes sess params (Some (N_JoinExpr j)) d = (d4, Inr ?lo)"
    using materialize_join [OF assms(12,13,15,17-19)] assms(11) by (simp add: join_spec_def)
  have V: "rls_bindings env (Some sess) params row d4 = (d4, Inr (belongs i t (b_cells (last row))))" if "row \<in> set ?lo" for row
    using that
  proof (cases rule: join_row_cases)
    case (1 l cells)
    then show ?thesis using tenant_row [OF assms(1-8), of l cells] assms(14,16) by simp
  next
    case (2 l)
    then show ?thesis using tenant_row [OF assms(1-8), of l "map (\<lambda>_. \<lparr>d_Null = True, d_Text = []\<rparr>) (ts_Cols sch)"] assms(14) i
      by (simp add: shape_def nullFill_def)
  qed
  have "select_rows F env ctes sess params s d = (d4, Inr (filter (\<lambda>row. belongs i t (b_cells (last row))) ?lo, False))"
    by (rule select_rows_join [OF assms(9,10) m V])
  then have q: "select_rows F env ctes sess params s d = (d4, Inr (join_spec JOIN_INNER P left (visible_rows al sch i t docs) lt (shape al sch), False))"
    by (simp only: left_join_visible [OF assms(5)] visible_rows_def join_spec_def JoinType.case)
  have "l @ nullFill (shape al sch) \<in> set (left_outer P left (visible_rows al sch i t docs) (shape al sch))" if "l \<in> set left" "\<forall>r \<in> set (visible_rows al sch i t docs). \<not> P (l @ r)" for l
    using that by (force simp: left_outer_def)
  moreover have "l @ nullFill (shape al sch) \<notin> set (concat (map (\<lambda>l. pairs_of P l (visible_rows al sch i t docs)) left))" for l
  proof
    assume "l @ nullFill (shape al sch) \<in> set (concat (map (\<lambda>l. pairs_of P l (visible_rows al sch i t docs)) left))"
    then obtain l' cells where e: "l @ nullFill (shape al sch) = l' @ [\<lparr>b_alias = al, b_schema = sch, b_cells = cells\<rparr>]" "belongs i t cells"
      by (auto simp: pairs_of_def visible_rows_def bind_rows_def)
    then have "cells = map (\<lambda>_. \<lparr>d_Null = True, d_Text = []\<rparr>) (ts_Cols sch)" by (simp add: shape_def nullFill_def)
    with e(2) null_not_belongs [OF i] show False by simp
  qed
  ultimately show ?thesis using m q by (simp add: join_spec_def)
qed

lemma stored_table:
  assumes "rv_SchemaName rv = []" and "lookupCTE ctes (rv_RelName rv) = None" and "loadViewSQL env sess (rv_RelName rv) d = (d, Inr None)"
    and "\<And>d. catalog_lookup F sess (rv_RelName rv) (schemasToTry rv) d = (d, Inr None)"
  shows "scanTable env sess (rv_RelName rv) (rel_alias rv) d = (d', Inr sc) \<Longrightarrow>
      materialize F env ctes sess params (Some (N_RangeVar rv)) d
        = (d', Inr (bind_rows (sc_alias sc) (sc_schema sc) (map sr_cells (sc_rows sc))))"
    and "resolveSchema env sess (rv_RelName rv) d2 = (d2, Inr sch) \<Longrightarrow>
      template F env ctes sess (Some (N_RangeVar rv)) d2 = (d2, Inr (shape (rel_alias rv) sch))"
  using assms by (simp_all add: materialize.simps from_relation_def from_stored_def bind_ex_def ret_def template_def
      bindingTemplate.simps template_relation_def)

subsection \<open>Views\<close>

text \<open>
  A view can be created once, is found by later statements of the transaction and is gone after DROP VIEW.
\<close>

theorem view_create_drop:
  assumes "\<not> t_done (d_txn d)" and "loadSchema env sess name d = (d, Inl err)" and "loadViewSQL env sess name d = (d, Inr None)"
  shows "\<exists>d1 d2. create_view env sess name replace sql d = (d1, Inr (command_result ''CREATE VIEW'' 0))
     \<and> loadViewSQL env sess name d1 = (d1, Inr (Some sql)) \<and> create_view env sess name False sql' d1 = (d1, Inl (ExecError ''42P07''))
     \<and> drop_view env sess \<lparr>drs_Table = name, drs_IfExists = b, drs_IsView = v, drs_IsSequence = False, drs_IsSchema = False,
          drs_IsExtension = False, drs_IsType = False\<rparr> d1 = (d2, Inr (command_result ''DROP VIEW'' 0))
     \<and> loadViewSQL env sess name d2 = (d2, Inr None)"
proof -
  let ?d1 = "d\<lparr>d_txn := Buffer (d_txn d) \<lparr>m_Key = viewKey sess name, m_Value = sql, m_Delete = False\<rparr>\<rparr>"
  let ?d2 = "?d1\<lparr>d_txn := Buffer (d_txn ?d1) \<lparr>m_Key = viewKey sess name, m_Value = [], m_Delete = True\<rparr>\<rparr>"
  have o: "\<not> t_done (d_txn ?d1)" using assms(1) by (simp add: Buffer_def)
  have ne: "viewKey sess name \<noteq> SchemaKey (ns_of sess) name" by (simp add: viewKey_def SchemaKey_def appendStr_def)
  have c: "create_view env sess name replace sql d = (?d1, Inr (command_result ''CREATE VIEW'' 0))"
    using assms(2,3) by (simp add: create_view_def bind_ex_def ret_def txn_buffer_def)
  have l1: "loadViewSQL env sess name ?d1 = (?d1, Inr (Some sql))"
    using assms(1) by (simp add: loadViewSQL_def engine_Get_Buffer)
  have "loadSchema env sess name ?d1 = (?d1, Inl err)"
    using assms(1,2) ne by (auto simp: loadSchema_def engine_Get_Buffer split: sum.splits)
  then have c2: "create_view env sess name False sql' ?d1 = (?d1, Inl (ExecError ''42P07''))"
    using l1 by (simp add: create_view_def ex_defs)
  have dr: "drop_view env sess \<lparr>drs_Table = name, drs_IfExists = b, drs_IsView = v, drs_IsSequence = False, drs_IsSchema = False,
      drs_IsExtension = False, drs_IsType = False\<rparr> ?d1 = (?d2, Inr (command_result ''DROP VIEW'' 0))"
    using l1 by (simp add: drop_view_def bind_ex_def ret_def txn_buffer_def)
  have "loadViewSQL env sess name ?d2 = (?d2, Inr None)"
    using o by (simp add: loadViewSQL_def engine_Get_Buffer)
  with c l1 c2 dr show ?thesis by blast
qed

text \<open>
  A view can be read but not joined: the rows of both sides are there, but the template for the side of the view is
  looked up as a table, which does not exist, and the query fails with 42P01 for every type of join.
\<close>

theorem view_join_fails:
  assumes "je_Rarg j = Some (N_RangeVar rv)" and "rv_SchemaName rv = []" and "lookupCTE ctes (rv_RelName rv) = None"
    and "rv_RelName rv \<noteq> OTelSpansTable" and "materialize F env ctes sess params (je_Larg j) d = (d1, Inr left)"
    and "loadViewSQL env sess (rv_RelName rv) d1 = (d1, Inr (Some sql))"
    and "materializeView F env ctes sess (rel_alias rv) sql d1 = (d2, Inr right)"
    and "catalog_lookup F sess (rv_RelName rv) (schemasToTry rv) d2 = (d2, Inr None)"
    and "engine_Get (xe_bd env) (d_eng d2) (d_txn d2) (SchemaKey (ns_of sess) (rv_RelName rv)) = Inl ErrKeyNotFound"
  shows "materialize F env ctes sess params (Some (N_RangeVar rv)) d1 = (d2, Inr right)
     \<and> materialize F env ctes sess params (Some (N_JoinExpr j)) d = (d2, Inl (ExecError ''42P01''))"
proof -
  have r: "materialize F env ctes sess params (Some (N_RangeVar rv)) d1 = (d2, Inr right)"
    using assms(2,3,6,7) by (simp add: materialize.simps from_relation_def bind_ex_def)
  have "template F env ctes sess (Some (N_RangeVar rv)) d2 = (d2, Inl (ExecError ''42P01''))"
    using assms(2-4,8,9) by (simp add: template_def bindingTemplate.simps template_relation_def bind_ex_def resolveSchema_def loadSchema_def)
  moreover have "lateral_arm (je_Rarg j) = None" by (simp add: assms(1) lateral_arm_def)
  ultimately have "materialize F env ctes sess params (Some (N_JoinExpr j)) d = (d2, Inl (ExecError ''42P01''))"
    using r assms(1,5) by (subst materialize.simps) (simp add: bind_ex_def)
  with r show ?thesis by simp
qed

subsection \<open>An example query\<close>

text \<open>
  The query \<open>FROM a LEFT JOIN docs d ON a.x\<close> of a tenant, where \<open>a\<close> is a common table expression with the
  rows true and false, and \<open>docs\<close> a protected table with a row of the tenant and one of another.
\<close>

definition docs_db :: mem_db where
  "docs_db =
     (let p = RowPrefix (NamespaceID ''shared'') ''main'' ''docs''
      in [((SchemaKey (NamespaceID ''shared'') ''docs'', 1), Some (utoa 0)),
          ((p @ ''1'', 1), Some (encodeRow [cell ''acme'', cell ''f''])), ((p @ ''2'', 1), Some (encodeRow [cell ''other'', cell ''f'']))])"

definition docs_env :: "(mem_db, mem_wb, unit) xenv" where
  "docs_env = demo_env demo_exprs [demo_docs]"

definition docs_state :: "(mem_db, unit) dstate" where
  "docs_state = demo_state (Some acme) docs_db"

definition no_ops :: "('db, 'r) from_ops" where
  "no_ops = \<lparr>fo_execSelect = (\<lambda>_ _ _ _. fail (ExecError ''0A000'')), fo_catalog = (\<lambda>_ _ _. ret None),
     fo_function = (\<lambda>_ _. ret []), fo_substitute = (\<lambda>_ sel. sel), fo_runSub = (\<lambda>_ _ _ _. fail (ExecError ''0A000'')),
     fo_indexScan = (\<lambda>_ _ _ _ _ _. ret None)\<rparr>"

definition flag_table :: tableSchema where
  "flag_table = plain_table ''a'' [(''x'', OIDBool)]"

definition flags :: cteMap where
  "flags = withCTE Map.empty ''a'' \<lparr>ct_schema = flag_table, ct_rows = [[cell ''t''], [cell ''f'']]\<rparr>"

definition docs_rel :: RangeVar where
  "docs_rel = RangeVar [] ''docs'' (Some (Alias ''d'' []))"

definition docs_join :: "Node JoinExpr" where
  "docs_join = JoinExpr JOIN_LEFT (Some (N_RangeVar (RangeVar [] ''a'' None))) (Some (N_RangeVar docs_rel)) (Some (ColumnRef [''a'', ''x''])) [] None"

definition docs_query :: "Node SelectStmt" where
  "docs_query = SelectStmt None False [] [ResTarget [] (Some A_Star)] [N_JoinExpr docs_join] None [] None [] None None SetOpNone False None None"

lemma docs_scan:
  "it_visit (it_Rewind (engine_NewIterator mem_badger (d_eng docs_state) (d_txn docs_state) (RowPrefix (NamespaceID ''shared'') ''main'' ''docs'')))
     = [(RowPrefix (NamespaceID ''shared'') ''main'' ''docs'' @ ''1'', Inr (encodeRow [cell ''acme'', cell ''f''])),
        (RowPrefix (NamespaceID ''shared'') ''main'' ''docs'' @ ''2'', Inr (encodeRow [cell ''other'', cell ''f'']))]"
  by code_simp

lemma docs_keys:
  "engine_Get mem_badger (d_eng docs_state) (d_txn docs_state) (SchemaKey (NamespaceID ''shared'') ''docs'') = Inr (utoa 0)"
  "engine_Get mem_badger (d_eng docs_state) (d_txn docs_state) (viewKey acme ''docs'') = Inl ErrKeyNotFound"
  "xe_decSchema docs_env (utoa 0) = Inr demo_docs" "xe_bd docs_env = mem_badger" "ns_of acme = NamespaceID ''shared''" "Branch acme = ''main''"
  by (code_simp, code_simp, simp add: docs_env_def demo_env_def find_index_def, simp add: docs_env_def demo_env_def, code_simp, code_simp)

lemma docs_rows:
  "decodeRow (encodeRow [cell ''acme'', cell ''f'']) 2 = Inr [cell ''acme'', cell ''f'']" "\<not> IsTombstone (encodeRow [cell ''acme'', cell ''f''])"
  "decodeRow (encodeRow [cell ''other'', cell ''f'']) 2 = Inr [cell ''other'', cell ''f'']" "\<not> IsTombstone (encodeRow [cell ''other'', cell ''f''])"
  "length (ts_Cols demo_docs) = 2"
  by code_simp+

lemma docs_schema: "resolveSchema docs_env acme ''docs'' docs_state = (docs_state, Inr demo_docs)"
  by (simp add: resolveSchema_def loadSchema_def OTelSpansTable_def docs_keys)

lemma docs_table:
  "\<exists>sc. scanTable docs_env acme ''docs'' ''d'' docs_state = (docs_state, Inr sc) \<and> sc_alias sc = ''d'' \<and> sc_schema sc = demo_docs
     \<and> map sr_cells (sc_rows sc) = [[cell ''acme'', cell ''f''], [cell ''other'', cell ''f'']]"
  by (simp add: scanTable_def bind_ex_def docs_schema txn_scan_def docs_keys docs_scan Let_def lift_def ret_def docs_rows bind_res_def)

definition flag_row :: "string \<Rightarrow> boundRow" where
  "flag_row v = [\<lparr>b_alias = ''a'', b_schema = flag_table, b_cells = [cell v]\<rparr>]"

definition doc_row :: "Datum list \<Rightarrow> boundRow" where
  "doc_row cells = [\<lparr>b_alias = ''d'', b_schema = demo_docs, b_cells = cells\<rparr>]"

lemma docs_lookup: "catalog_lookup no_ops sess rel (schemasToTry docs_rel) d = (d, Inr None)"
  by (simp add: schemasToTry_def docs_rel_def no_ops_def bind_ex_def ret_def)

lemma flags_read:
  "materialize no_ops docs_env flags acme [] (Some (N_RangeVar (RangeVar [] ''a'' None))) d = (d, Inr [flag_row ''t'', flag_row ''f''])"
  "template no_ops docs_env flags acme (Some (N_RangeVar (RangeVar [] ''a'' None))) d = (d, Inr (shape ''a'' flag_table))"
  by (simp_all add: materialize.simps from_relation_def lookupCTE_def flags_def withCTE_def rel_alias_def bind_rows_def flag_row_def ret_def
      template_def bindingTemplate.simps template_relation_def)

lemma docs_read:
  "materialize no_ops docs_env flags acme [] (Some (N_RangeVar docs_rel)) docs_state
     = (docs_state, Inr (bind_rows ''d'' demo_docs [[cell ''acme'', cell ''f''], [cell ''other'', cell ''f'']]))"
  "template no_ops docs_env flags acme (Some (N_RangeVar docs_rel)) docs_state = (docs_state, Inr (shape ''d'' demo_docs))"
proof -
  have r: "rv_SchemaName docs_rel = []" "rv_RelName docs_rel = ''docs''" "rel_alias docs_rel = ''d''" "lookupCTE flags (rv_RelName docs_rel) = None"
    by (simp_all add: docs_rel_def rel_alias_def lookupCTE_def flags_def withCTE_def)
  have v: "loadViewSQL docs_env acme (rv_RelName docs_rel) docs_state = (docs_state, Inr None)"
    unfolding r by (simp add: loadViewSQL_def docs_keys)
  note st = stored_table [OF r(1,4) v docs_lookup]
  show "materialize no_ops docs_env flags acme [] (Some (N_RangeVar docs_rel)) docs_state
     = (docs_state, Inr (bind_rows ''d'' demo_docs [[cell ''acme'', cell ''f''], [cell ''other'', cell ''f'']]))"
    using docs_table st(1) unfolding r by auto
  show "template no_ops docs_env flags acme (Some (N_RangeVar docs_rel)) docs_state = (docs_state, Inr (shape ''d'' demo_docs))"
    using st(2) docs_schema unfolding r by blast
qed

lemma docs_match:
  "joinMatch docs_env [] docs_join (flag_row v @ r) d = (d, Inr (asBool \<lparr>v_null = False, v_text = v, v_oid = OIDBool\<rparr>))"
  by (simp add: docs_join_def joinMatch_def eval_row_def eval_opt_def eval.simps eval_step_def evalColumnRef_def
      row_evaluator_def combinedResolver_def qualifies_def equalFold_def toLower_def ascii_lower_def colIndex_def find_index_def
      flag_row_def flag_table_def cell_def plain_table_def plain_col_def cellValue_def cell_at_def without_sess_def ex_defs)

theorem outer_join_loses_rows_witness:
  "select_rows no_ops docs_env flags acme [] docs_query docs_state
     = (docs_state, Inr ([flag_row ''t'' @ doc_row [cell ''acme'', cell ''f'']], False))
   \<and> flag_row ''f'' @ nullFill (shape ''d'' demo_docs)
       \<in> set (join_spec JOIN_LEFT (\<lambda>row. b_cells (hd row) = [cell ''t'']) [flag_row ''t'', flag_row ''f''] [doc_row [cell ''acme'', cell ''f'']]
            (shape ''a'' flag_table) (shape ''d'' demo_docs))"
proof -
  let ?P = "\<lambda>row :: boundRow. b_cells (hd row) = [cell ''t'']" and ?docs = "[[cell ''acme'', cell ''f''], [cell ''other'', cell ''f'']]"
  have j: "je_Larg docs_join = Some (N_RangeVar (RangeVar [] ''a'' None))" "je_Rarg docs_join = Some (N_RangeVar docs_rel)"
    "je_JoinType docs_join = JOIN_LEFT" "ss_FromClause docs_query = [N_JoinExpr docs_join]" "ss_WhereClause docs_query = None"
    "lateral_arm (je_Rarg docs_join) = None"
    by (simp_all add: docs_join_def docs_query_def lateral_arm_def)
  have u: "\<forall>l \<in> set [flag_row ''t'', flag_row ''f'']. \<forall>a \<in> set l. \<not> rlsApplies (b_schema a) (Some acme)"
    by (simp add: flag_row_def flag_table_def plain_table_def rlsApplies_def)
  have len: "\<forall>cells \<in> set ?docs. 0 < length cells" by simp
  have first: "?P (flag_row v @ r) \<longleftrightarrow> v = ''t''" for v r by (simp add: flag_row_def cell_def)
  have m: "\<forall>l \<in> set [flag_row ''t'', flag_row ''f'']. \<forall>r \<in> set (bind_rows ''d'' demo_docs ?docs).
      joinMatch docs_env [] docs_join (l @ r) docs_state = (docs_state, Inr (?P (l @ r)))"
    by (simp add: docs_match asBool_def first)
  have s: "x_sess (d_x docs_state) = Some acme" by (simp add: docs_state_def demo_facts)
  have p: "parseStoredExpr docs_env ''own_tenant'' = Inr (Some (tenant_pred ''tenant'' ''app.tenant''))" "ordinary (xe_L docs_env) ''tenant''"
    by (simp_all add: docs_env_def demo_parse demo_facts)
  have vis: "visible_rows ''d'' demo_docs 0 ''acme'' ?docs = [doc_row [cell ''acme'', cell ''f'']]"
    by (simp add: visible_rows_def bind_rows_def belongs_def cell_def doc_row_def)
  from outer_join_loses_rows [OF demo_facts(1) p(1) demo_facts(2) p(2) demo_facts(6,8) s demo_facts(9) j(4,5,3,6) _ u _ len _ _ m,
      unfolded j, OF flags_read(1) docs_read flags_read(2)]
  show ?thesis unfolding vis by (simp add: join_spec_def pairs_of_def flag_row_def cell_def)
qed

end
