(* ===== verification/SetOps.thy ===== *)
theory SetOps
  imports Joins "HOL-Library.Multiset" "HOL-Library.Sublist"
begin

text \<open>
  UNION, INTERSECT, EXCEPT and DISTINCT on materialised rows (executor/setop.go, and dedupRows and distinctOnRows of
  executor/join.go). Rows are compared through a key built from their cells; the maps of counters and of keys
  already seen are functions and sets of keys.
\<close>

subsection \<open>Row keys\<close>

definition key_part :: "Datum \<Rightarrow> bytes" where
  "key_part d = (if d_Null d then [CHR 0x00, CHR ''N'', CHR ''|''] else CHR 0x01 # d_Text d @ [CHR ''|''])"

definition datumRowKey :: "Datum list \<Rightarrow> bytes" where
  "datumRowKey row = concat (map key_part row)"

subsection \<open>Operations\<close>

primrec dedup_loop :: "Datum list list \<Rightarrow> bytes set \<Rightarrow> Datum list list" where
  "dedup_loop [] seen = []"
| "dedup_loop (r # rs) seen =
     (let k = datumRowKey r in if k \<in> seen then dedup_loop rs seen else r # dedup_loop rs (insert k seen))"

definition dedupRows :: "Datum list list \<Rightarrow> Datum list list" where
  "dedupRows rows = dedup_loop rows {}"

definition row_counts :: "Datum list list \<Rightarrow> bytes \<Rightarrow> nat" where
  "row_counts rows = foldl (\<lambda>rc r. rc(datumRowKey r := rc (datumRowKey r) + 1)) (\<lambda>_. 0) rows"

primrec intersect_loop :: "bool \<Rightarrow> Datum list list \<Rightarrow> (bytes \<Rightarrow> nat) \<Rightarrow> bytes set \<Rightarrow> Datum list list" where
  "intersect_loop every [] rc seen = []"
| "intersect_loop every (r # rs) rc seen =
     (let k = datumRowKey r
      in if rc k = 0 then intersect_loop every rs rc seen
         else if every then r # intersect_loop every rs (rc(k := rc k - 1)) seen
         else if k \<notin> seen then r # intersect_loop every rs rc (insert k seen)
         else intersect_loop every rs rc seen)"

definition intersectRows :: "Datum list list \<Rightarrow> Datum list list \<Rightarrow> bool \<Rightarrow> Datum list list" where
  "intersectRows left right every = intersect_loop every left (row_counts right) {}"

primrec except_loop :: "bool \<Rightarrow> Datum list list \<Rightarrow> (bytes \<Rightarrow> nat) \<Rightarrow> bytes set \<Rightarrow> Datum list list" where
  "except_loop every [] rc seen = []"
| "except_loop every (r # rs) rc seen =
     (let k = datumRowKey r
      in if every then
           (if 0 < rc k then except_loop every rs (rc(k := rc k - 1)) seen else r # except_loop every rs rc seen)
         else if 0 < rc k \<or> k \<in> seen then except_loop every rs rc seen
         else r # except_loop every rs rc (insert k seen))"

definition exceptRows :: "Datum list list \<Rightarrow> Datum list list \<Rightarrow> bool \<Rightarrow> Datum list list" where
  "exceptRows left right every = except_loop every left (row_counts right) {}"

text \<open>The combination of the operands' rows in execSetOp, on operands of the given widths.\<close>

definition combine_rows :: "SetOpType \<Rightarrow> bool \<Rightarrow> Result \<Rightarrow> Result \<Rightarrow> Datum list list res" where
  "combine_rows op every left right =
     (if length (r_Columns left) \<noteq> length (r_Columns right) then Inl (ExecError ''42601'')
      else case op of
        SetOpUnion \<Rightarrow> Inr (let rows = r_Rows left @ r_Rows right in if every then rows else dedupRows rows)
      | SetOpIntersect \<Rightarrow> Inr (intersectRows (r_Rows left) (r_Rows right) every)
      | SetOpExcept \<Rightarrow> Inr (exceptRows (r_Rows left) (r_Rows right) every)
      | SetOpNone \<Rightarrow> Inl (ExecError ''XX000''))"

text \<open>DISTINCT ON: the key of a row from its expressions, then the loop that drops a row with the key of its predecessor.\<close>

primrec on_key :: "('db, 'wb, 'r) xenv \<Rightarrow> Datum list \<Rightarrow> boundRow \<Rightarrow> Node list \<Rightarrow> ('db, 'r, bytes) dm" where
  "on_key env params row [] = ret []"
| "on_key env params row (ex # exs) =
     bind_ex (without_sess (eval_row env params (combinedResolver row) (Some ex))) (\<lambda>v.
       bind_ex (on_key env params row exs) (\<lambda>k. ret (key_part \<lparr>d_Null = v_null v, d_Text = v_text v\<rparr> @ k)))"

primrec distinct_on_loop :: "('db, 'wb, 'r) xenv \<Rightarrow> Datum list \<Rightarrow> Node list \<Rightarrow> boundRow list \<Rightarrow> bytes option \<Rightarrow> ('db, 'r, boundRow list) dm" where
  "distinct_on_loop env params onExprs [] prevKey = ret []"
| "distinct_on_loop env params onExprs (row # rows) prevKey =
     bind_ex (on_key env params row onExprs) (\<lambda>k.
       if prevKey = Some k then distinct_on_loop env params onExprs rows prevKey
       else bind_ex (distinct_on_loop env params onExprs rows (Some k)) (\<lambda>out. ret (row # out)))"

definition distinctOnRows :: "('db, 'wb, 'r) xenv \<Rightarrow> boundRow list \<Rightarrow> Node list \<Rightarrow> Datum list \<Rightarrow> ('db, 'r, boundRow list) dm" where
  "distinctOnRows env rows onExprs params = distinct_on_loop env params onExprs rows None"

subsection \<open>Ordering the combined rows\<close>

definition compareDatum :: "Datum \<Rightarrow> Datum \<Rightarrow> int" where
  "compareDatum a b =
     (if d_Null a \<or> d_Null b then (if d_Null a \<and> d_Null b then 0 else if d_Null a then 1 else - 1)
      else case (ParseFloat (d_Text a), ParseFloat (d_Text b)) of
        (Some af, Some bf) \<Rightarrow> float_cmp af bf
      | _ \<Rightarrow> string_cmp (d_Text a) (d_Text b))"

definition resolveSortColumn :: "Node \<Rightarrow> Column list \<Rightarrow> nat res" where
  "resolveSortColumn n cols =
     (let none = Inl (ExecError ''42P10'')
      in case n of
           A_Const ty v \<Rightarrow>
             (let pos = atoi_val v
              in if ty = ConstInt \<and> 1 \<le> pos \<and> pos \<le> int (length cols) then Inr (nat pos - 1) else none)
         | ColumnRef fs \<Rightarrow>
             (if fs = [] then none
              else case find_index (\<lambda>c. equalFold (c_Name c) (last fs)) cols of Some i \<Rightarrow> Inr i | None \<Rightarrow> none)
         | _ \<Rightarrow> none)"

subsection \<open>Multisets of rows\<close>

text \<open>On keys the loops are the operations on multisets and sets, whatever the rows are.\<close>

lemma row_counts_eq: "row_counts rows k = count (image_mset datumRowKey (mset rows)) k"
proof -
  have "foldl (\<lambda>rc r. rc(datumRowKey r := rc (datumRowKey r) + 1)) f rows k = f k + count (image_mset datumRowKey (mset rows)) k" for f
    by (induction rows arbitrary: f) auto
  then show ?thesis by (simp add: row_counts_def)
qed

lemma counts_remove: "(count C)(k := count C k - Suc 0) = count (C - {#k#})"
  by (rule ext) simp

lemma intersect_all_keys:
  "image_mset datumRowKey (mset (intersect_loop True l (count C) seen)) = image_mset datumRowKey (mset l) \<inter># C"
proof (induction l arbitrary: C)
  case (Cons r l)
  show ?case
    by (cases "datumRowKey r \<in># C")
      (auto simp: Let_def counts_remove Cons [of "C - _"] Cons [of C] count_eq_zero_iff inter_add_left1 inter_add_left2
        simp del: fun_upd_apply)
qed simp

lemma except_all_keys:
  "image_mset datumRowKey (mset (except_loop True l (count C) seen)) = image_mset datumRowKey (mset l) - C"
proof (induction l arbitrary: C)
  case (Cons r l)
  show ?case
    by (cases "datumRowKey r \<in># C")
      (auto simp: Let_def counts_remove Cons [of "C - _"] Cons [of C] count_eq_zero_iff multiset_eq_iff
        simp del: fun_upd_apply dest: not_in_iff [THEN iffD1])
qed simp

lemma intersect_set_keys:
  "distinct (map datumRowKey (intersect_loop False l rc seen))
   \<and> datumRowKey ` set (intersect_loop False l rc seen) = {k \<in> datumRowKey ` set l. 0 < rc k} - seen"
  by (induction l arbitrary: seen) (auto simp: Let_def)

lemma except_set_keys:
  "distinct (map datumRowKey (except_loop False l rc seen))
   \<and> datumRowKey ` set (except_loop False l rc seen) = {k \<in> datumRowKey ` set l. rc k = 0} - seen"
  by (induction l arbitrary: seen) (auto simp: Let_def)

lemma dedup_keys:
  "distinct (map datumRowKey (dedup_loop l seen)) \<and> datumRowKey ` set (dedup_loop l seen) = datumRowKey ` set l - seen"
  by (induction l arbitrary: seen) (auto simp: Let_def)

lemma loops_subseq:
  "subseq (intersect_loop every l rc seen) l" "subseq (except_loop every l rc seen) l" "subseq (dedup_loop l seen) l"
  by (induction l arbitrary: rc seen) (auto simp: Let_def)

text \<open>Rows whose keys are unambiguous: no separator in a cell, and a NULL carries no text.\<close>

definition plain_row :: "Datum list \<Rightarrow> bool" where
  "plain_row row \<longleftrightarrow> (\<forall>d \<in> set row. CHR ''|'' \<notin> set (d_Text d) \<and> (d_Null d \<longrightarrow> d_Text d = []))"

lemma cut_unique: "c \<notin> set x \<Longrightarrow> c \<notin> set y \<Longrightarrow> x @ c # u = y @ c # v \<Longrightarrow> x = y \<and> u = v"
proof (induction x arbitrary: y)
  case Nil
  then show ?case by (cases y) auto
next
  case (Cons a x)
  then show ?case by (cases y) auto
qed

lemma key_part_cut: "\<exists>x. key_part d = x @ [CHR ''|''] \<and> (CHR ''|'' \<notin> set (d_Text d) \<longrightarrow> CHR ''|'' \<notin> set x)
    \<and> x = (if d_Null d then [CHR 0x00, CHR ''N''] else CHR 0x01 # d_Text d)"
  by (auto simp: key_part_def)

lemma datumRowKey_inj: "plain_row a \<Longrightarrow> plain_row b \<Longrightarrow> datumRowKey a = datumRowKey b \<Longrightarrow> a = b"
proof (induction a arbitrary: b)
  case Nil
  then show ?case by (cases b) (auto simp: datumRowKey_def key_part_def split: if_splits)
next
  case (Cons d a)
  obtain e b' where b: "b = e # b'" using Cons.prems by (cases b) (auto simp: datumRowKey_def key_part_def split: if_splits)
  obtain x where x: "key_part d = x @ [CHR ''|'']" "CHR ''|'' \<notin> set x" "x = (if d_Null d then [CHR 0x00, CHR ''N''] else CHR 0x01 # d_Text d)"
    using key_part_cut [of d] Cons.prems(1) by (auto simp: plain_row_def)
  obtain y where y: "key_part e = y @ [CHR ''|'']" "CHR ''|'' \<notin> set y" "y = (if d_Null e then [CHR 0x00, CHR ''N''] else CHR 0x01 # d_Text e)"
    using key_part_cut [of e] Cons.prems(2) by (auto simp: plain_row_def b)
  have "x @ CHR ''|'' # datumRowKey a = y @ CHR ''|'' # datumRowKey b'"
    using Cons.prems(3) x(1) y(1) by (simp add: datumRowKey_def b)
  then have eq: "x = y" "datumRowKey a = datumRowKey b'" using cut_unique [OF x(2) y(2)] by blast+
  have "d_Null d = d_Null e" "d_Text d = d_Text e"
    using eq(1) x(3) y(3) Cons.prems(1,2) by (auto simp: plain_row_def b split: if_splits)
  then have "d = e" by (cases d, cases e) simp
  moreover have "a = b'" using Cons.IH [of b'] Cons.prems(1,2) eq(2) by (simp add: plain_row_def b)
  ultimately show ?case by (simp add: b)
qed

lemma inj_keys: "\<forall>row \<in> S. plain_row row \<Longrightarrow> inj_on datumRowKey S"
  using datumRowKey_inj by (auto intro: inj_onI)

lemma count_keys: "inj_on f S \<Longrightarrow> set_mset M \<subseteq> S \<Longrightarrow> x \<in> S \<Longrightarrow> count (image_mset f M) (f x) = count M x"
  by (induction M) (auto dest: inj_onD)

lemma mset_by_keys:
  assumes "inj_on f S" and "set_mset M \<subseteq> S" and "set_mset N \<subseteq> S" and "\<And>x. x \<in> S \<Longrightarrow> count (image_mset f M) (f x) = count N x"
  shows "M = N"
proof (rule multiset_eqI)
  fix x
  show "count M x = count N x"
  proof (cases "x \<in> S")
    case True
    then show ?thesis using assms(4) count_keys [OF assms(1,2)] by metis
  next
    case False
    then have "x \<notin># M" "x \<notin># N" using assms(2,3) by auto
    then show ?thesis by (simp only: not_in_iff)
  qed
qed

lemma set_by_keys:
  assumes "inj_on f S" and "set xs \<subseteq> S" and "B \<subseteq> S" and "distinct (map f xs) \<and> f ` set xs = f ` B"
  shows "distinct xs \<and> set xs = B"
  using assms inj_on_image_eq_iff [OF assms(1-3)] by (simp add: distinct_map)

lemma subseq_set: "subseq xs ys \<Longrightarrow> set xs \<subseteq> set ys"
  by (induction rule: list_emb.induct) auto

text \<open>
  C40. The set operations are those of SQL on rows whose cells contain no separator: with ALL the multiset sum,
  intersection and difference of the operands, without ALL their union, intersection and difference as sets, each row
  once. Intersection and difference keep the order of the left operand.
\<close>

theorem set_operations_exact:
  assumes "length (r_Columns left) = length (r_Columns right)" and "op \<noteq> SetOpNone"
    and "\<forall>row \<in> set (r_Rows left) \<union> set (r_Rows right). plain_row row"
  shows "\<exists>rows. combine_rows op every left right = Inr rows
     \<and> (op \<noteq> SetOpUnion \<longrightarrow> subseq rows (r_Rows left))
     \<and> (if every
         then mset rows = (case op of SetOpUnion \<Rightarrow> mset (r_Rows left) + mset (r_Rows right)
                           | SetOpIntersect \<Rightarrow> mset (r_Rows left) \<inter># mset (r_Rows right)
                           | _ \<Rightarrow> mset (r_Rows left) - mset (r_Rows right))
         else distinct rows \<and> set rows = (case op of SetOpUnion \<Rightarrow> set (r_Rows left) \<union> set (r_Rows right)
                           | SetOpIntersect \<Rightarrow> set (r_Rows left) \<inter> set (r_Rows right)
                           | _ \<Rightarrow> set (r_Rows left) - set (r_Rows right)))"
proof -
  let ?L = "r_Rows left" and ?R = "r_Rows right" and ?k = datumRowKey
  let ?S = "set ?L \<union> set ?R" and ?C = "image_mset ?k (mset ?R)"
  have inj: "inj_on ?k ?S" by (rule inj_keys [OF assms(3)])
  have rc: "row_counts ?R = count ?C" by (rule ext) (rule row_counts_eq)
  have cnt: "count (image_mset ?k (mset ?L)) (?k x) = count (mset ?L) x" "count ?C (?k x) = count (mset ?R) x" if "x \<in> ?S" for x
    using count_keys [OF inj _ that] by simp_all
  have pos: "0 < row_counts ?R (?k x) \<longleftrightarrow> x \<in> set ?R" if "x \<in> ?S" for x
    using cnt(2) [OF that] by (simp add: rc)
  have int: "subseq (intersectRows ?L ?R b) ?L" and exc: "subseq (exceptRows ?L ?R b) ?L" for b
    by (simp_all add: intersectRows_def exceptRows_def loops_subseq)
  have sub: "set (intersectRows ?L ?R b) \<subseteq> ?S" "set (exceptRows ?L ?R b) \<subseteq> ?S" "set (dedupRows (?L @ ?R)) \<subseteq> ?S" for b
    using subseq_set [OF int [of b]] subseq_set [OF exc [of b]] subseq_set [OF loops_subseq(3) [of "?L @ ?R" "{}"]]
    by (auto simp: dedupRows_def)
  have uni: "distinct (dedupRows (?L @ ?R)) \<and> set (dedupRows (?L @ ?R)) = ?S"
    by (rule set_by_keys [OF inj sub(3) order_refl]) (use dedup_keys [of "?L @ ?R" "{}"] in \<open>simp add: dedupRows_def\<close>)
  have inta: "mset (intersectRows ?L ?R True) = mset ?L \<inter># mset ?R"
    by (rule mset_by_keys [OF inj]) (use sub(1) [of True] cnt in \<open>auto simp: intersectRows_def rc intersect_all_keys\<close>)
  have exca: "mset (exceptRows ?L ?R True) = mset ?L - mset ?R"
    by (rule mset_by_keys [OF inj]) (use sub(2) [of True] cnt in \<open>auto simp: exceptRows_def rc except_all_keys dest: in_diffD\<close>)
  have "{k \<in> ?k ` set ?L. 0 < row_counts ?R k} = ?k ` (set ?L \<inter> set ?R)" using pos by auto
  then have ints: "distinct (intersectRows ?L ?R False) \<and> set (intersectRows ?L ?R False) = set ?L \<inter> set ?R"
    using intersect_set_keys [of ?L "row_counts ?R" "{}"]
    by (intro set_by_keys [OF inj sub(1)]) (auto simp: intersectRows_def)
  have "{k \<in> ?k ` set ?L. row_counts ?R k = 0} = ?k ` (set ?L - set ?R)" using pos by fastforce
  then have excs: "distinct (exceptRows ?L ?R False) \<and> set (exceptRows ?L ?R False) = set ?L - set ?R"
    using except_set_keys [of ?L "row_counts ?R" "{}"]
    by (intro set_by_keys [OF inj sub(2)]) (auto simp: exceptRows_def)
  show ?thesis
    using assms(1,2) uni int exc inta exca ints excs
    by (cases op; cases every) (simp_all add: combine_rows_def)
qed

theorem set_operations_exact_witness:
  "\<exists>rows. combine_rows SetOpIntersect True
       \<lparr>r_Columns = [], r_Rows = [[text_datum ''a''], [text_datum ''a''], [null_datum]], r_Command = [], r_RowsAffected = 0\<rparr>
       \<lparr>r_Columns = [], r_Rows = [[null_datum], [text_datum ''a'']], r_Command = [], r_RowsAffected = 0\<rparr> = Inr rows
     \<and> mset rows = {#[text_datum ''a''], [null_datum]#}"
proof -
  let ?l = "\<lparr>r_Columns = [], r_Rows = [[text_datum ''a''], [text_datum ''a''], [null_datum]], r_Command = [], r_RowsAffected = 0\<rparr>"
  let ?r = "\<lparr>r_Columns = [], r_Rows = [[null_datum], [text_datum ''a'']], r_Command = [], r_RowsAffected = 0\<rparr>"
  have "\<forall>row \<in> set (r_Rows ?l) \<union> set (r_Rows ?r). plain_row row" by (simp add: plain_row_def)
  from set_operations_exact [OF _ _ this, of SetOpIntersect True] show ?thesis by (auto simp: add_mset_commute)
qed

text \<open>
  Rows with the separator in their cells collide: two different rows of two columns have one key, so UNION and DISTINCT
  return one of them, INTERSECT finds the other and EXCEPT drops it.
\<close>

theorem row_keys_collide:
  "dedupRows [[text_datum (a @ CHR ''|'' # CHR 0x01 # b), text_datum c], [text_datum a, text_datum (b @ CHR ''|'' # CHR 0x01 # c)]]
     = [[text_datum (a @ CHR ''|'' # CHR 0x01 # b), text_datum c]]
   \<and> exceptRows [[text_datum a, text_datum (b @ CHR ''|'' # CHR 0x01 # c)]] [[text_datum (a @ CHR ''|'' # CHR 0x01 # b), text_datum c]] every = []"
  by (cases every) (simp_all add: dedupRows_def exceptRows_def row_counts_def datumRowKey_def key_part_def Let_def)

end
