(* ===== verification/Spec2Isabelle.thy ===== *)
theory Spec2Isabelle
  imports Identity Keys Badger Store Hlc Txn TxnProps Branch Consensus Wire KeyManager Roles Lexer Rows Ast Eval Catalog Rls Scan Select SetOps
begin

text \<open>
  A verification development of BasuyuDB, a multi-tenant SQL database in Go: a PostgreSQL wire front end
  over a transaction engine, a branch manager and a replicated log on top of BadgerDB. All source paths
  below are relative to src/engine/internal.

  \<^bold>\<open>How the program fits together.\<close> A connection authenticates by SCRAM against local roles or by a
  signed token (auth, wire); either way it gets a session bound to one namespace and possibly pinned to
  a branch. Statements are scanned and parsed into an abstract syntax tree (parser, ast) and executed
  (executor) in a transaction (transactions). A transaction reads the store at a snapshot timestamp,
  buffers its writes, merges them into its scans and at commit either checks for conflicts and flushes a
  batch, or proposes it to a Raft group whose state machine applies it on every replica (consensus).
  Rows are byte strings under keys built from namespace, branch and table (storage/keys.go); a branch is
  a key subtree merged over its parent (branch). Backups are encrypted per namespace (keymanager).

  \<^bold>\<open>Conventions.\<close> Bytes and strings are \<^typ>\<open>char list\<close>; machine integers that may wrap are words;
  a Go error is a value of \<open>go_error\<close> and a fallible operation returns \<open>go_error + 'a\<close>. Structs are
  records or datatypes with the fields of the source, operations pass state explicitly, loops are
  recursive functions with a termination proof; there is no fuel, and the one bounded search, for the
  shortest decimal of a float, stops at 17 digits, which identify every float64. BadgerDB, the Raft library,
  the JWT verifier, the JSON codec, the generated SQL parser, the file system and random bytes are parameters: a record of
  operations or an argument, with what is relied on as the assumptions of a locale or as hypotheses of
  the theorem, and each has an executable instance that the witnesses use. The assumptions describe runs the
  code is written for: a healthy store refuses no key or batch for its size or reserved prefix, the JSON codec gives
  back what it encoded, which encoding/json does for valid UTF-8, and texts sealed by GCM stay below its limit.

  \<^bold>\<open>Theories.\<close>
  \<^item> \<open>Prelude\<close>, \<open>GoLib\<close>, \<open>Crypto\<close>, \<open>Aead\<close>: errors and byte strings, then the parts of Go's
    standard library the code calls: strconv, strings, io, base64, hex, SHA-256, HMAC, AES and GCM, with
    the round trips their callers need.
  \<^item> \<open>Identity\<close> (auth/identity.go, jwks.go, devsession.go, session.go, session/session.go): tokens to
    sessions, the namespace whitelist, branch pinning and settings. A validated session has exactly one
    well-formed namespace; no sequence of SET and RESET leaves a pinned branch.
  \<^item> \<open>Keys\<close> (storage/keys.go, valuetag.go): every key of the encoder. Row keys are injective and a table
    prefix selects exactly its rows, for names without a separator; with one, keys collide.
  \<^item> \<open>Badger\<close>: the interface to BadgerDB as a record of operations and the locale \<open>managed_badger\<close> over
    the version history it stands for, with a list-based instance that satisfies it.
  \<^item> \<open>Store\<close> (storage/store.go): snapshot reads, iterators in both directions, backup, restore, erasure.
    Prefix scans are exact in both directions, backups round-trip, erasure hits one namespace only.
  \<^item> \<open>Hlc\<close> (transactions/hlc.go): the hybrid logical clock, strictly monotonic for any wall clock; its
    64-bit encoding and its update rule are weaker than their comments say.
  \<^item> \<open>Txn\<close>, \<open>TxnProps\<close> (transactions/engine.go, merge_iter.go): the engine. Snapshot isolation against
    any interleaving of other transactions, agreement of scans with point reads, atomic commits, first
    committer wins, success of a retry, and two behaviours the conflict check and a failed flush allow.
  \<^item> \<open>Branch\<close> (branch/branch.go, merge.go): create, drop, merge of branches over the engine. A drop erases its
    branch only, for names without a separator that are not empty; the empty name is the key of main.
  \<^item> \<open>Consensus\<close> (consensus/codec.go, statemachine.go, node.go): the proposal codec, the replicated
    state machine as a refinement of an abstract one, convergence, replay, and commit through the log.
  \<^item> \<open>Scram\<close>, \<open>Wire\<close> (auth/scram.go, wire/scram.go, wire/protocol.go): message framing and the
    SCRAM-SHA-256 exchange on the wire, sound and complete, with replayed proofs refused.
  \<^item> \<open>Roles\<close> (auth/roles.go, rolestore_persist.go): the role store and its encrypted file; a change is
    durable or undone whatever file operation fails.
  \<^item> \<open>KeyManager\<close> (keymanager): backup encryption; round trip across restarts and authenticity.
  \<^item> \<open>Lexer\<close> (parser/lexer.go): the scanner, total on every byte string, with quoted round trips.
  \<^item> \<open>Ast\<close> (ast/ast.go, executor/agg.go, window.go): the syntax tree, its traversal, column qualifiers
    and the detection of aggregates.
  \<^item> \<open>Rows\<close> (executor/encode.go, orderenc.go): the stored row format across schema changes and the
    index encoding, which orders integers of 4 and 8 bytes, float8, boolean and text columns by value, and other
    types as text.

  \<^item> \<open>Floats\<close>, \<open>Strings\<close>, \<open>Values\<close>, \<open>Funcs\<close>, \<open>Eval\<close> (executor/eval.go, eval_ext.go, composite.go, guc.go,
    sequences.go): float64 and the strings package, values and operators, the scalar functions, and the
    evaluator over every expression node with the session as state. Connectives decide rows as three-valued
    logic does except for NOT of an unknown; predicates are boolean; integer comparison is exact up to 2^53.
  \<^item> \<open>Catalog\<close> (executor/catalog.go, txnctx.go, dml.go rowResolver): schemas, policies, their storage and the
    transaction around a statement, as a state monad over engine, transaction and evaluator state.
  \<^item> \<open>Deparse\<close> (executor/constraints.go deparseExpr, deparse.go): the printers behind stored expressions.
  \<^item> \<open>Joins\<close> (executor/join.go): column resolution, join conditions, the nested loop, equal to the relational
    joins; USING never succeeds.
  \<^item> \<open>Rls\<close> (executor/rls.go): policy statements and enforcement. The combination of policies, isolation of
    tenants by a session setting, the round trip of CREATE and DROP POLICY, and a way policies misjudge NULLs.
  \<^item> \<open>Scan\<close> (executor/scan.go, index.go, dml.go indexHasOtherPK): the copy-on-write scan, shown to return exactly
    the rows a branch sees, index entries, CREATE INDEX and the choice of an index.
  \<^item> \<open>Select\<close> (executor/join.go materialize, bindingTemplate, materializeLateralJoin and execSelectFrom up to WHERE,
    views.go, cte.go): the rows of a query, with policies applied after joining, so that a left join with a protected
    table returns an inner join; views, which can be read but not joined. Whole subqueries, the virtual tables of the
    catalog, functions in FROM, the substitution into a lateral query and the index scan itself are arguments.
  \<^item> \<open>SetOps\<close> (executor/setop.go, join.go dedupRows and distinctOnRows): the set operations as multisets of rows,
    exact unless a cell contains the separator of the row keys.

  \<^bold>\<open>Not modelled.\<close> The generated parser tables (parser/sql.go); network and process plumbing (wire/conn.go,
  wire/server.go, cmd, mgmt, metrics, otel), which is I/O around the operations above; INSERT, UPDATE, DELETE,
  foreign keys, projection, sorting, aggregates and most data definition of the executor; numerics of
  arbitrary precision, dates, regular expressions and JSON operators, which are parameters of the evaluator;
  and the full-text and vector indexes.
\<close>

end
